(* ===== verification/Prelude.thy ===== *)
theory Prelude
  imports Main "HOL-Library.Word" "HOL-Library.Char_ord" "HOL-Library.List_Lexorder"
    "HOL-Library.Sublist"
begin

text \<open>
  What every component shares: C strings and the string functions of the C library that the
  source calls, integers printed and read in decimal, and generic lemmas.

  A C string is a \<open>string\<close> (a \<open>char list\<close>, one \<open>char\<close> per byte) without its terminating
  NUL byte; a raw buffer is a \<open>string\<close> that may hold NUL bytes, and \<open>cstr\<close> is the C string
  such a buffer holds.  A fixed-size destination \<open>char d[n]\<close> filled with
  \<open>strncpy(d, s, n - 1); d[n - 1] = 0\<close> holds \<open>take (n - 1) s\<close>.
\<close>

named_theorems str_simps \<open>rewriting rules for the C string functions\<close>

subsection \<open>Characters\<close>

type_synonym byte = "8 word"

abbreviation NUL :: char where "NUL \<equiv> CHR 0x00"
abbreviation TAB :: char where "TAB \<equiv> CHR 0x09"
abbreviation LF :: char where "LF \<equiv> CHR 0x0A"
abbreviation CR :: char where "CR \<equiv> CHR 0x0D"
abbreviation SPC :: char where "SPC \<equiv> CHR 0x20"
abbreviation crlf :: string where "crlf \<equiv> [CR, LF]"

definition char_code :: "char \<Rightarrow> nat" where
  "char_code c = of_char c"

definition isspace_c :: "char \<Rightarrow> bool" where
  "isspace_c c \<longleftrightarrow> c = SPC \<or> (9 \<le> char_code c \<and> char_code c \<le> 13)"

definition isdigit_c :: "char \<Rightarrow> bool" where
  "isdigit_c c \<longleftrightarrow> 48 \<le> char_code c \<and> char_code c \<le> 57"

definition isupper_c :: "char \<Rightarrow> bool" where
  "isupper_c c \<longleftrightarrow> 65 \<le> char_code c \<and> char_code c \<le> 90"

definition islower_c :: "char \<Rightarrow> bool" where
  "islower_c c \<longleftrightarrow> 97 \<le> char_code c \<and> char_code c \<le> 122"

definition isxdigit_c :: "char \<Rightarrow> bool" where
  "isxdigit_c c \<longleftrightarrow> isdigit_c c \<or> (65 \<le> char_code c \<and> char_code c \<le> 70)
     \<or> (97 \<le> char_code c \<and> char_code c \<le> 102)"

definition tolower_c :: "char \<Rightarrow> char" where
  "tolower_c c = (if isupper_c c then char_of (char_code c + 32) else c)"

definition toupper_c :: "char \<Rightarrow> char" where
  "toupper_c c = (if islower_c c then char_of (char_code c - 32) else c)"

lemma char_code_less [simp]: "char_code c < 256"
  by (simp add: char_code_def)

lemma char_code_inj [simp]: "char_code c = char_code d \<longleftrightarrow> c = d"
  by (simp add: char_code_def)

lemma char_of_char_code [simp]: "char_of (char_code c) = c"
  by (simp add: char_code_def)

lemma char_code_char_of [simp]: "n < 256 \<Longrightarrow> char_code (char_of n) = n"
  by (simp add: char_code_def)

lemma char_less_iff_code: "c < d \<longleftrightarrow> char_code c < char_code d"
  by (simp add: char_code_def less_char_def)

lemma tolower_c_idem [simp]: "tolower_c (tolower_c c) = tolower_c c"
  by (auto simp: tolower_c_def isupper_c_def)

subsection \<open>Loops that may not end\<close>

text \<open>
  The result of code whose loop may run forever: \<open>Loops\<close>, or \<open>Ret\<close> of what it returns.
\<close>

datatype 'a run = Loops | Ret 'a

fun bind_run :: "'a run \<Rightarrow> ('a \<Rightarrow> 'b run) \<Rightarrow> 'b run" where
  "bind_run Loops f = Loops"
| "bind_run (Ret a) f = f a"

lemma bind_run_Ret_iff: "bind_run r f = Ret b \<longleftrightarrow> (\<exists>a. r = Ret a \<and> f a = Ret b)"
  by (cases r) auto

lemma bind_run_Loops_iff: "bind_run r f = Loops \<longleftrightarrow> r = Loops \<or> (\<exists>a. r = Ret a \<and> f a = Loops)"
  by (cases r) auto

subsection \<open>C strings\<close>

definition cstr :: "string \<Rightarrow> string" where
  "cstr s = takeWhile (\<lambda>c. c \<noteq> NUL) s"

definition starts_with :: "string \<Rightarrow> string \<Rightarrow> bool" where
  \<comment> \<open>\<open>strncmp(s, p, strlen(p)) == 0\<close>\<close>
  "starts_with s p \<longleftrightarrow> take (length p) s = p"

definition cut_at :: "char \<Rightarrow> string \<Rightarrow> string" where
  \<comment> \<open>\<open>p = strchr(s, c); if (p) *p = 0;\<close>\<close>
  "cut_at c s = takeWhile (\<lambda>d. d \<noteq> c) s"

definition strchr :: "string \<Rightarrow> char \<Rightarrow> string option" where
  \<comment> \<open>the suffix that the returned pointer designates\<close>
  "strchr s c = (case dropWhile (\<lambda>d. d \<noteq> c) s of [] \<Rightarrow> None | t \<Rightarrow> Some t)"

fun strstr :: "string \<Rightarrow> string \<Rightarrow> string option" where
  "strstr s p = (if starts_with s p then Some s
     else (case s of [] \<Rightarrow> None | _ # t \<Rightarrow> strstr t p))"

declare strstr.simps [simp del]

definition skip_blanks :: "string \<Rightarrow> string" where
  \<comment> \<open>\<open>while (*p == ' ' || *p == TAB) p++;\<close>\<close>
  "skip_blanks s = dropWhile (\<lambda>c. c = SPC \<or> c = TAB) s"

definition skip_spaces :: "string \<Rightarrow> string" where
  \<comment> \<open>\<open>while (*p == ' ') p++;\<close>\<close>
  "skip_spaces s = dropWhile (\<lambda>c. c = SPC) s"

definition rstrip :: "(char \<Rightarrow> bool) \<Rightarrow> string \<Rightarrow> string" where
  \<comment> \<open>strip a suffix of characters in the set, as the loops from the end do\<close>
  "rstrip P s = rev (dropWhile P (rev s))"

definition copy_text :: "nat \<Rightarrow> string \<Rightarrow> string" where
  \<comment> \<open>\<open>strncpy(d, s, n - 1); d[n - 1] = 0\<close> for \<open>char d[n]\<close>\<close>
  "copy_text n s = take (n - 1) s"

definition snprintf_to :: "nat \<Rightarrow> string \<Rightarrow> string" where
  \<comment> \<open>what \<open>snprintf(d, n, ...)\<close> leaves in \<open>d\<close>; its return value is the full length\<close>
  "snprintf_to n s = take (n - 1) s"

fun strcasecmp_safe :: "string \<Rightarrow> string \<Rightarrow> int" where
  "strcasecmp_safe (a # as) (b # bs) =
     (if tolower_c a \<noteq> tolower_c b
      then int (char_code (tolower_c a)) - int (char_code (tolower_c b))
      else strcasecmp_safe as bs)"
| "strcasecmp_safe [] [] = 0"
| "strcasecmp_safe (a # as) [] = int (char_code a)"
| "strcasecmp_safe [] (b # bs) = - int (char_code b)"

fun strcmp :: "string \<Rightarrow> string \<Rightarrow> int" where
  "strcmp (a # as) (b # bs) =
     (if a \<noteq> b then int (char_code a) - int (char_code b) else strcmp as bs)"
| "strcmp [] [] = 0"
| "strcmp (a # as) [] = 1"
| "strcmp [] (b # bs) = - 1"

lemma starts_with_prefix: "starts_with s p \<longleftrightarrow> prefix p s"
  unfolding starts_with_def by (metis append_eq_conv_conj prefix_def)

lemma starts_with_append [str_simps, simp]: "starts_with (p @ s) p"
  by (simp add: starts_with_def)

lemma starts_with_Nil [simp]: "starts_with s []"
  by (simp add: starts_with_def)

lemma copy_text_length: "0 < n \<Longrightarrow> length (copy_text n s) < n"
  by (auto simp: copy_text_def)

lemma copy_text_id [str_simps]: "length s < n \<Longrightarrow> copy_text n s = s"
  by (simp add: copy_text_def)

lemma set_copy_text: "set (copy_text n s) \<subseteq> set s"
  by (simp add: copy_text_def set_take_subset)

lemma set_cut_at: "set (cut_at c s) \<subseteq> set s"
  by (auto simp: cut_at_def dest: set_takeWhileD)

lemma cut_at_notin [simp]: "c \<notin> set (cut_at c s)"
  by (auto simp: cut_at_def dest: set_takeWhileD)

lemma cut_at_id [str_simps]: "c \<notin> set s \<Longrightarrow> cut_at c s = s"
  by (auto simp: cut_at_def takeWhile_eq_all_conv)

lemma cut_at_append [str_simps]: "c \<notin> set s \<Longrightarrow> cut_at c (s @ c # t) = s"
  by (induction s) (auto simp: cut_at_def)

lemma cut_at_append_out [str_simps]:
  "c \<notin> set s \<Longrightarrow> cut_at c (s @ t) = s @ cut_at c t"
  by (induction s) (auto simp: cut_at_def)

lemma strchr_None: "strchr s c = None \<longleftrightarrow> c \<notin> set s"
  by (induction s) (auto simp: strchr_def)

lemma strchr_append [str_simps]: "c \<notin> set s \<Longrightarrow> strchr (s @ c # t) c = Some (c # t)"
  by (induction s) (auto simp: strchr_def)

lemma strchr_Some: "strchr s c = Some t \<Longrightarrow> \<exists>u. t = c # u \<and> s = cut_at c s @ t"
proof -
  assume h: "strchr s c = Some t"
  then have t: "t = dropWhile (\<lambda>d. d \<noteq> c) s" "t \<noteq> []"
    by (auto simp: strchr_def split: list.splits)
  then have "hd t = c" by (metis (mono_tags) hd_dropWhile)
  with t show ?thesis
    by (metis (no_types, lifting) cut_at_def list.collapse takeWhile_dropWhile_id)
qed

lemma char_code_0 [simp]: "char_code c = 0 \<longleftrightarrow> c = NUL"
proof -
  have "char_code NUL = 0" by (simp add: char_code_def)
  then show ?thesis by (metis char_code_inj)
qed

lemma strcasecmp_safe_0:
  "strcasecmp_safe s t = 0 \<Longrightarrow> NUL \<notin> set s \<Longrightarrow> NUL \<notin> set t
    \<Longrightarrow> map tolower_c s = map tolower_c t"
  by (induction s t rule: strcasecmp_safe.induct) (auto split: if_splits)

lemma strcasecmp_safe_map: "map tolower_c s = map tolower_c t \<Longrightarrow> strcasecmp_safe s t = 0"
  by (induction s t rule: strcasecmp_safe.induct) auto

lemma strcmp_0 [simp]: "strcmp s t = 0 \<longleftrightarrow> s = t"
  by (induction s t rule: strcmp.induct) auto

lemma strcmp_less: "strcmp s t < 0 \<longleftrightarrow> s < t"
  by (induction s t rule: strcmp.induct) (auto simp: char_less_iff_code)

lemma strcmp_greater: "strcmp s t > 0 \<longleftrightarrow> s > t"
  by (metis less_linear strcmp_0 strcmp_less not_less_iff_gr_or_eq)

definition strrchr :: "string \<Rightarrow> char \<Rightarrow> string option" where
  \<comment> \<open>the suffix that begins at the last occurrence\<close>
  "strrchr s c = (if c \<in> set s then Some (c # rev (takeWhile (\<lambda>d. d \<noteq> c) (rev s))) else None)"

definition rtrim_keep1 :: "(char \<Rightarrow> bool) \<Rightarrow> string \<Rightarrow> string" where
  \<comment> \<open>\<open>e = s + strlen(s) - 1; while (e > s && P(*e)) *e-- = 0;\<close>: the first character stays\<close>
  "rtrim_keep1 P s = (case s of [] \<Rightarrow> [] | c # t \<Rightarrow> c # rstrip P t)"

lemma rstrip_snoc: "rstrip P (s @ [c]) = (if P c then rstrip P s else s @ [c])"
  by (simp add: rstrip_def)

lemma rstrip_id [str_simps]: "s = [] \<or> \<not> P (last s) \<Longrightarrow> rstrip P s = s"
  by (cases s rule: rev_cases) (auto simp: rstrip_def)

lemma length_rstrip: "length (rstrip P s) \<le> length s"
  using length_dropWhile_le [of P "rev s"] by (simp add: rstrip_def)

lemma set_rstrip: "set (rstrip P s) \<subseteq> set s"
  by (auto simp: rstrip_def dest: set_dropWhileD)

lemma rtrim_keep1_id [str_simps]:
  "s = [] \<or> \<not> P (last s) \<Longrightarrow> rtrim_keep1 P s = s"
  by (cases s) (auto simp: rtrim_keep1_def rstrip_id split: if_splits)

lemma skip_blanks_id [str_simps]:
  "s = [] \<or> hd s \<noteq> SPC \<and> hd s \<noteq> TAB \<Longrightarrow> skip_blanks s = s"
  by (cases s) (auto simp: skip_blanks_def)

lemma skip_spaces_id [str_simps]: "s = [] \<or> hd s \<noteq> SPC \<Longrightarrow> skip_spaces s = s"
  by (cases s) (auto simp: skip_spaces_def)

lemma cstr_id [str_simps]: "NUL \<notin> set s \<Longrightarrow> cstr s = s"
  by (auto simp: cstr_def takeWhile_eq_all_conv)

lemma set_cstr: "set (cstr s) \<subseteq> set s" and NUL_notin_cstr [simp]: "NUL \<notin> set (cstr s)"
  by (auto simp: cstr_def dest: set_takeWhileD)

lemma strstr_append:
  assumes "\<not> (\<exists>u v. s @ p = u @ p @ v \<and> v \<noteq> [])" and "p \<noteq> []"
  shows "strstr (s @ p @ t) p = Some (p @ t)"
  using assms
proof (induction s)
  case Nil
  then show ?case by (subst strstr.simps) (simp add: starts_with_def)
next
  case (Cons c s)
  have "\<not> starts_with ((c # s) @ p @ t) p"
  proof
    assume "starts_with ((c # s) @ p @ t) p"
    then have "take (length p) (((c # s) @ p) @ t) = p" by (simp only: starts_with_def append_assoc)
    moreover have "length p \<le> length ((c # s) @ p)" by simp
    ultimately have "take (length p) ((c # s) @ p) = p"
      by (metis take_append append.right_neutral diff_is_0_eq take0)
    then have "(c # s) @ p = [] @ p @ drop (length p) ((c # s) @ p)"
      by (metis append_Nil append_take_drop_id)
    moreover have "drop (length p) ((c # s) @ p) \<noteq> []" by simp
    ultimately show False using Cons.prems(1) by blast
  qed
  moreover have "\<not> (\<exists>u v. s @ p = u @ p @ v \<and> v \<noteq> [])"
    using Cons.prems(1) by (metis append_Cons)
  ultimately show ?case using Cons.IH Cons.prems(2) by (subst strstr.simps) simp
qed

subsection \<open>Decimal integers\<close>

fun dec_nat :: "nat \<Rightarrow> string" where
  "dec_nat n = (if n < 10 then [char_of (48 + n)]
                else dec_nat (n div 10) @ [char_of (48 + n mod 10)])"

declare dec_nat.simps [simp del]

definition dec_int :: "int \<Rightarrow> string" where
  \<comment> \<open>\<open>%d\<close>\<close>
  "dec_int i = (if i < 0 then CHR ''-'' # dec_nat (nat (- i)) else dec_nat (nat i))"

definition digits_value :: "string \<Rightarrow> nat" where
  "digits_value s = foldl (\<lambda>v c. 10 * v + (char_code c - 48)) 0 (takeWhile isdigit_c s)"

definition to_int32 :: "int \<Rightarrow> int" where
  \<comment> \<open>conversion to a 32-bit signed integer\<close>
  "to_int32 v = (v + 2 ^ 31) mod 2 ^ 32 - 2 ^ 31"

definition atoi :: "string \<Rightarrow> int" where
  \<comment> \<open>\<open>(int) strtol(s, NULL, 10)\<close>, where \<open>strtol\<close> saturates at 64 bits\<close>
  "atoi s =
     (let t = dropWhile isspace_c s;
          neg = (t \<noteq> [] \<and> hd t = CHR ''-'');
          u = (if t \<noteq> [] \<and> (hd t = CHR ''-'' \<or> hd t = CHR ''+'') then tl t else t);
          v = int (digits_value u)
      in to_int32 (if neg then max (- v) (- (2 ^ 63)) else min v (2 ^ 63 - 1)))"

lemma isdigit_char_of [simp]: "(d :: nat) < 10 \<Longrightarrow> isdigit_c (char_of (48 + d))"
  by (simp add: isdigit_c_def)

lemma set_dec_nat: "c \<in> set (dec_nat n) \<Longrightarrow> isdigit_c c"
  by (induction n rule: dec_nat.induct) (subst (asm) dec_nat.simps, auto split: if_splits)

lemma dec_nat_not_Nil [simp]: "dec_nat n \<noteq> []"
  by (subst dec_nat.simps) simp

lemma digits_value_append:
  "list_all isdigit_c s \<Longrightarrow> isdigit_c c \<Longrightarrow> digits_value (s @ [c]) = 10 * digits_value s + (char_code c - 48)"
  by (simp add: digits_value_def list_all_iff takeWhile_append2 takeWhile_eq_all_conv [THEN iffD2])

lemma digits_value_dec_nat: "digits_value (dec_nat n) = n"
proof (induction n rule: dec_nat.induct)
  case (1 n)
  show ?case
  proof (cases "n < 10")
    case True
    then show ?thesis by (subst dec_nat.simps) (simp add: digits_value_def)
  next
    case False
    have "list_all isdigit_c (dec_nat (n div 10))" using set_dec_nat by (auto simp: list_all_iff)
    then show ?thesis
      using 1 False digits_value_append [of "dec_nat (n div 10)" "char_of (48 + n mod 10)"]
      by (subst dec_nat.simps) simp
  qed
qed

lemma isdigit_not_space: "isdigit_c c \<Longrightarrow> \<not> isspace_c c \<and> c \<noteq> CHR ''-'' \<and> c \<noteq> CHR ''+''
    \<and> c \<noteq> NUL \<and> c \<noteq> CR \<and> c \<noteq> LF \<and> c \<noteq> SPC \<and> c \<noteq> CHR '':''"
  by (auto simp: isdigit_c_def isspace_c_def char_code_def)

lemma to_int32_id: "- (2 ^ 31) \<le> v \<Longrightarrow> v < 2 ^ 31 \<Longrightarrow> to_int32 v = v"
  by (simp add: to_int32_def)

lemma to_int32_bounds: "- (2 ^ 31) \<le> to_int32 v \<and> to_int32 v < 2 ^ 31"
  by (simp add: to_int32_def)

lemma atoi_dec_nat:
  assumes "n < 2 ^ 31"
  shows "atoi (dec_nat n) = int n"
proof -
  obtain c s where cs: "dec_nat n = c # s" by (cases "dec_nat n") auto
  then have "isdigit_c c" using set_dec_nat [of c n] by simp
  then have "\<not> isspace_c c" "c \<noteq> CHR ''-''" "c \<noteq> CHR ''+''" using isdigit_not_space by blast+
  then have "atoi (c # s) = to_int32 (min (int (digits_value (c # s))) (2 ^ 63 - 1))"
    unfolding atoi_def Let_def by simp
  then show ?thesis using cs digits_value_dec_nat [of n] to_int32_id [of "int n"] assms by simp
qed

end
