(* ===== verification/Base64.thy ===== *)
theory Base64
  imports Prelude
begin

text \<open>
  The RFC 4648 decoder of \<open>src/base64.c\<close>, which the HTTP Basic authentication uses.  The
  decoding loop keeps the 6-bit groups read so far (\<open>buf\<close>) and the bytes written so far
  (\<open>dst[0..j)\<close>); running over an invalid character is the code's \<open>return -1\<close>, here
  \<open>None\<close>.  The reference is an RFC 4648 encoder, \<open>b64_encode\<close>: decoding what it prints gives
  the bytes back, cut at the capacity of the destination.
\<close>

unbundle bit_operations_syntax

definition base64_alphabet :: string where
  "base64_alphabet =
     ''ABCDEFGHIJKLMNOPQRSTUVWXYZabcdefghijklmnopqrstuvwxyz0123456789+/''"

definition base64_table :: "char \<Rightarrow> byte" where
  "base64_table c =
     (if c \<in> set base64_alphabet
      then of_nat (length (takeWhile (\<lambda>d. d \<noteq> c) base64_alphabet)) else 0)"

definition base64_valid :: "char \<Rightarrow> bool" where
  "base64_valid c \<longleftrightarrow> char_code c < 128 \<and>
     (c = CHR ''+'' \<or> c = CHR ''/'' \<or> isupper_c c \<or> islower_c c \<or> isdigit_c c)"

definition base64_skipped :: "char \<Rightarrow> bool" where
  "base64_skipped c \<longleftrightarrow> c = SPC \<or> c = TAB \<or> c = CR \<or> c = LF"

definition quad_byte :: "byte list \<Rightarrow> nat \<Rightarrow> byte" where
  \<comment> \<open>the \<open>k\<close>-th output byte of the 6-bit groups in \<open>buf\<close>\<close>
  "quad_byte buf k =
     (if k = 0 then push_bit 2 (buf ! 0) OR drop_bit 4 (buf ! 1)
      else if k = 1 then push_bit 4 (buf ! 1) OR drop_bit 2 (buf ! 2)
      else push_bit 6 (buf ! 2) OR buf ! 3)"

definition emit_quad :: "nat \<Rightarrow> byte list \<Rightarrow> byte list \<Rightarrow> byte list" where
  "emit_quad n buf out =
     (let out1 = out @ [quad_byte buf 0];
          out2 = (if length out1 < n - 1 then out1 @ [quad_byte buf 1] else out1)
      in if length out2 < n - 1 then out2 @ [quad_byte buf 2] else out2)"

fun decode_loop :: "nat \<Rightarrow> string \<Rightarrow> byte list \<Rightarrow> byte list \<Rightarrow> (byte list \<times> byte list) option" where
  "decode_loop n [] buf out = Some (buf, out)"
| "decode_loop n (c # cs) buf out =
     (if \<not> length out < n - 1 then Some (buf, out)
      else if base64_skipped c then decode_loop n cs buf out
      else if c = CHR ''='' then Some (buf, out)
      else if \<not> base64_valid c then None
      else let buf' = buf @ [base64_table c]
           in if length buf' = 4 then decode_loop n cs [] (emit_quad n buf' out)
              else decode_loop n cs buf' out)"

definition decode_rest :: "nat \<Rightarrow> byte list \<Rightarrow> byte list \<Rightarrow> byte list" where
  "decode_rest n buf out =
     (if 2 \<le> length buf
      then let out1 = out @ [quad_byte buf 0]
           in if 3 \<le> length buf \<and> length out1 < n - 1 then out1 @ [quad_byte buf 1] else out1
      else out)"

definition base64_decode :: "string \<Rightarrow> int \<Rightarrow> byte list option" where
  "base64_decode src dst_size =
     (if dst_size \<le> 0 then None
      else case decode_loop (nat dst_size) (cstr src) [] [] of
             None \<Rightarrow> None
           | Some (buf, out) \<Rightarrow> Some (decode_rest (nat dst_size) buf out))"

subsection \<open>Bounds\<close>

text \<open>
  The invariant of the loop: the bytes written never pass \<open>dst_size - 1\<close>, and once they
  reach it no group is pending, so the unguarded write after the loop has room.
\<close>

lemma emit_quad_bound:
  "length out < n - 1 \<Longrightarrow> length (emit_quad n buf out) \<le> n - 1"
  by (auto simp: emit_quad_def Let_def)

lemma decode_loop_bound:
  assumes "decode_loop n cs buf out = Some (buf', out')"
    and "length out \<le> n - 1" and "length out = n - 1 \<longrightarrow> buf = []" and "length buf < 4"
  shows "length out' \<le> n - 1 \<and> (length out' = n - 1 \<longrightarrow> buf' = []) \<and> length buf' < 4"
  using assms
proof (induction n cs buf out rule: decode_loop.induct)
  case (1 n buf out)
  then show ?case by simp
next
  case (2 n c cs buf out)
  show ?case
  proof (cases "length out < n - 1")
    case False
    then show ?thesis using "2.prems" by auto
  next
    case room: True
    consider (skip) "base64_skipped c" | (pad) "\<not> base64_skipped c" "c = CHR ''=''"
      | (bad) "\<not> base64_skipped c" "c \<noteq> CHR ''=''" "\<not> base64_valid c"
      | (full) "\<not> base64_skipped c" "c \<noteq> CHR ''=''" "base64_valid c" "length buf = 3"
      | (part) "\<not> base64_skipped c" "c \<noteq> CHR ''=''" "base64_valid c" "length buf < 3"
      using "2.prems"(4) by linarith
    then show ?thesis
    proof cases
      case skip
      then show ?thesis using room "2.IH"(1) "2.prems" by simp
    next
      case full
      have "length (emit_quad n (buf @ [base64_table c]) out) \<le> n - 1"
        by (rule emit_quad_bound [OF room])
      moreover have "decode_loop n cs [] (emit_quad n (buf @ [base64_table c]) out) = Some (buf', out')"
        using full room "2.prems"(1) by (simp add: Let_def)
      moreover have "length (buf @ [base64_table c]) = 4" using full by simp
      ultimately show ?thesis using full room "2.IH"(2) by simp
    next
      case part
      then have "length (buf @ [base64_table c]) \<noteq> 4" by simp
      then show ?thesis using part room "2.IH"(3) "2.prems" by (simp add: Let_def)
    qed (use room "2.prems" in \<open>auto\<close>)
  qed
qed

lemma decode_rest_bound:
  assumes "length out \<le> n - 1" and "length out = n - 1 \<longrightarrow> buf = []"
  shows "length (decode_rest n buf out) \<le> n - 1"
  using assms by (cases "length out = n - 1") (auto simp: decode_rest_def Let_def)

text \<open>
  The decoder never overflows its destination: whatever the input, the number of bytes
  it writes before the terminating NUL is at most \<open>dst_size - 1\<close>.
\<close>
theorem base64_decode_bounded:
  assumes "base64_decode src dst_size = Some bs"
  shows "int (length bs) \<le> dst_size - 1"
proof -
  from assms obtain buf out where pos: "0 < dst_size"
    and loop: "decode_loop (nat dst_size) (cstr src) [] [] = Some (buf, out)"
    and bs: "bs = decode_rest (nat dst_size) buf out"
    by (auto simp: base64_decode_def split: if_splits option.splits)
  have "length bs \<le> nat dst_size - 1"
    unfolding bs using decode_loop_bound [OF loop] by (intro decode_rest_bound) auto
  then show ?thesis using pos by linarith
qed

lemma base64_decode_bounded_witness:
  "base64_decode ''YWRtaW46c2VjcmV0'' 5 = Some [97, 100, 109, 105] \<and> int (length [97, 100, 109, 105 :: byte]) \<le> 5 - 1"
proof -
  have h: "base64_decode ''YWRtaW46c2VjcmV0'' 5 = Some [97, 100, 109, 105]" by code_simp
  show ?thesis using h base64_decode_bounded [OF h] by simp
qed

subsection \<open>White space\<close>

lemma cstr_filter_skipped:
  "cstr (filter (\<lambda>c. \<not> base64_skipped c) s) = filter (\<lambda>c. \<not> base64_skipped c) (cstr s)"
  by (induction s) (auto simp: cstr_def base64_skipped_def)

lemma decode_loop_full: "\<not> length out < n - 1 \<Longrightarrow> decode_loop n cs buf out = Some (buf, out)"
  by (cases cs) auto

lemma decode_loop_filter:
  "decode_loop n (filter (\<lambda>c. \<not> base64_skipped c) cs) buf out = decode_loop n cs buf out"
proof (induction n cs buf out rule: decode_loop.induct)
  case (2 n c cs buf out)
  then show ?case by (cases "length out < n - 1") (auto simp: Let_def decode_loop_full)
qed simp

text \<open>
  White space (blank, tab, CR, LF) anywhere in the input is ignored: decoding the input
  equals decoding it with every such character removed, errors included.
\<close>
theorem base64_decode_ignores_whitespace:
  "base64_decode (filter (\<lambda>c. \<not> base64_skipped c) src) n = base64_decode src n"
  by (simp add: base64_decode_def cstr_filter_skipped decode_loop_filter)

subsection \<open>Round trip with an RFC 4648 encoder\<close>

definition b64_char :: "byte \<Rightarrow> char" where
  "b64_char w = base64_alphabet ! unat (take_bit 6 w)"

definition sextet1 :: "byte \<Rightarrow> byte \<Rightarrow> byte" where
  "sextet1 a b = push_bit 4 (take_bit 2 a) OR drop_bit 4 b"

definition sextet2 :: "byte \<Rightarrow> byte \<Rightarrow> byte" where
  "sextet2 b c = push_bit 2 (take_bit 4 b) OR drop_bit 6 c"

fun b64_encode :: "byte list \<Rightarrow> string" where
  "b64_encode [] = []"
| "b64_encode [a] = [b64_char (drop_bit 2 a), b64_char (sextet1 a 0), CHR ''='', CHR ''='']"
| "b64_encode [a, b] =
     [b64_char (drop_bit 2 a), b64_char (sextet1 a b), b64_char (sextet2 b 0), CHR ''='']"
| "b64_encode (a # b # c # bs) = b64_char (drop_bit 2 a) # b64_char (sextet1 a b) #
     b64_char (sextet2 b c) # b64_char c # b64_encode bs"

lemma base64_alphabet_length: "length base64_alphabet = 64"
  by (simp add: base64_alphabet_def)

lemma base64_alphabet_digits:
  "list_all (\<lambda>c. base64_valid c \<and> \<not> base64_skipped c \<and> c \<noteq> CHR ''='' \<and> c \<noteq> NUL) base64_alphabet"
  by code_simp

lemma base64_alphabet_table: "map base64_table base64_alphabet = map of_nat [0..<64]"
  by (simp add: base64_table_def base64_alphabet_def upt_rec)

lemma unat_take_bit_6: "unat (take_bit 6 w :: byte) < 64"
  using take_bit_nat_less_exp [of 6 "unat w"] by (simp add: unsigned_take_bit_eq)

lemma b64_char_in: "b64_char w \<in> set base64_alphabet"
  unfolding b64_char_def by (rule nth_mem) (simp add: base64_alphabet_length unat_take_bit_6)

lemma b64_char_simps [simp]:
  "base64_valid (b64_char w)" "\<not> base64_skipped (b64_char w)"
  "b64_char w \<noteq> CHR ''=''" "b64_char w \<noteq> NUL"
  using base64_alphabet_digits b64_char_in [of w] by (auto simp: list_all_iff)

lemma base64_table_b64_char [simp]: "base64_table (b64_char w) = take_bit 6 w"
proof -
  have "map base64_table base64_alphabet ! unat (take_bit 6 w)
      = map of_nat [0..<64] ! unat (take_bit 6 w)"
    by (simp only: base64_alphabet_table)
  then show ?thesis
    using unat_take_bit_6 [of w] by (simp add: b64_char_def base64_alphabet_length)
qed

lemma cstr_b64_encode: "cstr (b64_encode bs) = b64_encode bs"
  by (induction bs rule: b64_encode.induct) (auto simp: cstr_def)

lemma quad_byte_sextets_0:
  "quad_byte (take_bit 6 (drop_bit 2 a) # take_bit 6 (sextet1 a b) # xs) 0 = a"
proof (rule bit_word_eqI)
  fix n assume "n < LENGTH(8)"
  then show "bit (quad_byte (take_bit 6 (drop_bit 2 a) # take_bit 6 (sextet1 a b) # xs) 0) n = bit a n"
    by (cases n; cases "n - 1")
       (auto simp: quad_byte_def sextet1_def bit_simps dest: bit_imp_le_length)
qed

lemma quad_byte_sextets_1:
  "quad_byte (x # take_bit 6 (sextet1 a b) # take_bit 6 (sextet2 b c) # xs) (Suc 0) = b"
proof (rule bit_word_eqI)
  fix n assume "n < LENGTH(8)"
  then show "bit (quad_byte (x # take_bit 6 (sextet1 a b) # take_bit 6 (sextet2 b c) # xs) (Suc 0)) n = bit b n"
    by (cases "n < 4")
       (auto simp: quad_byte_def sextet1_def sextet2_def bit_simps dest: bit_imp_le_length)
qed

lemma quad_byte_sextets_2:
  "quad_byte [x, y, take_bit 6 (sextet2 b c), take_bit 6 c] 2 = c"
proof (rule bit_word_eqI)
  fix n assume "n < LENGTH(8)"
  then show "bit (quad_byte [x, y, take_bit 6 (sextet2 b c), take_bit 6 c] 2) n = bit c n"
    by (cases "n < 6")
       (auto simp: quad_byte_def sextet2_def bit_simps dest: bit_imp_le_length)
qed

lemmas quad_bytes_of_sextets = quad_byte_sextets_0 quad_byte_sextets_1 quad_byte_sextets_2

lemma emit_quad_sextets:
  assumes "length out < n - 1"
  shows "emit_quad n [take_bit 6 (drop_bit 2 a), take_bit 6 (sextet1 a b),
           take_bit 6 (sextet2 b c), take_bit 6 c] out = take (n - 1) (out @ [a, b, c])"
proof -
  obtain m where m: "n = Suc (length out + Suc m)"
    using assms by (metis Suc_diff_1 add_Suc_right less_imp_Suc_add less_nat_zero_code not_gr_zero zero_diff)
  show ?thesis
    by (cases m; cases "m - 1")
       (auto simp: emit_quad_def quad_bytes_of_sextets Let_def m)
qed

lemma decode_loop_digit [simp]:
  "decode_loop n (b64_char w # cs) buf out =
     (if \<not> length out < n - 1 then Some (buf, out)
      else if length buf = 3
      then decode_loop n cs [] (emit_quad n (buf @ [take_bit 6 w]) out)
      else decode_loop n cs (buf @ [take_bit 6 w]) out)"
  by (simp add: Let_def)

lemma decode_loop_pad [simp]: "decode_loop n (CHR ''='' # cs) buf out = Some (buf, out)"
  by (simp add: base64_skipped_def)

declare decode_loop.simps(2) [simp del]

lemma take_prefix_again: "take n (take n xs @ ys) = take n (xs @ ys)"
  by (cases "length xs \<le> n") auto

lemma decode_loop_encode:
  assumes "length out \<le> n - 1"
  shows "\<exists>buf' out'. decode_loop n (b64_encode bs) [] out = Some (buf', out')
     \<and> decode_rest n buf' out' = take (n - 1) (out @ bs)"
  using assms
proof (induction bs arbitrary: out rule: b64_encode.induct)
  case 1
  then show ?case by (simp add: decode_rest_def)
next
  case (2 a)
  then show ?case
    by (cases "length out < n - 1") (auto simp: decode_rest_def quad_bytes_of_sextets)
next
  case (3 a b)
  have "n - Suc (length out) = Suc 0" if "length out < n - 1" "\<not> Suc (length out) < n - 1"
    using that by simp
  then show ?case
    using "3.prems" by (cases "length out < n - 1"; cases "Suc (length out) < n - 1")
       (auto simp: decode_rest_def quad_bytes_of_sextets [where b = b] Let_def)
next
  case (4 a b c bs)
  let ?out = "take (n - 1) (out @ [a, b, c])"
  show ?case
  proof (cases "length out < n - 1")
    case True
    then have "decode_loop n (b64_encode (a # b # c # bs)) [] out
        = decode_loop n (b64_encode bs) [] ?out"
      by (simp add: emit_quad_sextets)
    moreover have "length ?out \<le> n - 1" by (simp del: take_append)
    moreover have "take (n - 1) (?out @ bs) = take (n - 1) (out @ a # b # c # bs)"
      using take_prefix_again [of "n - 1" "out @ [a, b, c]" bs] by simp
    ultimately show ?thesis using "4.IH" [of ?out] by (simp del: take_append)
  next
    case False
    then show ?thesis using "4.prems" by (simp add: decode_rest_def)
  qed
qed

text \<open>
  C38: decoding is the inverse of RFC 4648 encoding, whatever the bytes: the decoder returns
  exactly the encoded bytes, cut to the \<open>dst_size - 1\<close> that fit (all of them when they fit).
\<close>
theorem base64_roundtrip:
  assumes "0 < n"
  shows "base64_decode (b64_encode bs) n = Some (take (nat n - 1) bs)"
  using assms decode_loop_encode [of "[]" "nat n" bs]
  by (auto simp: base64_decode_def cstr_b64_encode)

lemma base64_roundtrip_witness:
  "(0::int) < 256 \<and> base64_decode (b64_encode [97, 58, 255]) 256 = Some [97, 58, 255]"
  using base64_roundtrip [of 256 "[97, 58, 255]"] by simp

end
