(* ===== verification/Hash_Probe.thy ===== *)
theory Hash_Probe
  imports Prelude
begin

text \<open>
  The djb2 hash and the open-addressing table of 256 slots that \<open>src/route_table.c\<close> and
  \<open>src/session.c\<close> both use: \<open>g_hash[]\<close> holds an index into an entry array or -1 (here
  \<open>None\<close>), and every loop over it is a linear probe from the hash of the key.  A probe that
  meets neither an empty slot nor the entry it looks for goes round the table forever: the
  fuel of \<open>probe\<close> is the table size, and \<open>probe_none_forever\<close> shows that a probe that has
  used it up never stops.  The locale \<open>hash_slots\<close> is the interface both tables rely on: a
  hash that is a slot number; its lemmas say when a stored entry can be reached.
\<close>

abbreviation HASH_SIZE :: nat where "HASH_SIZE \<equiv> 256"

type_synonym slots = "nat option list"

definition djb2_step :: "32 word \<Rightarrow> char \<Rightarrow> 32 word" where
  "djb2_step h c = (push_bit 5 h + h) + of_nat (char_code c)"

definition djb2 :: "32 word \<Rightarrow> string \<Rightarrow> 32 word" where
  "djb2 h s = foldl djb2_step h s"

definition hash_mask :: "32 word \<Rightarrow> nat" where
  "hash_mask h = unat (take_bit 8 h)"

definition next_slot :: "nat \<Rightarrow> nat" where
  "next_slot h = (h + 1) mod HASH_SIZE"

definition empty_slots :: slots where
  "empty_slots = replicate HASH_SIZE None"

text \<open>
  \<open>probe fuel stop g h\<close>: the first slot from \<open>h\<close> on that is empty or whose index satisfies
  \<open>stop\<close>.
\<close>

fun probe :: "nat \<Rightarrow> (nat \<Rightarrow> bool) \<Rightarrow> slots \<Rightarrow> nat \<Rightarrow> nat option" where
  "probe 0 stop g h = None"
| "probe (Suc k) stop g h =
     (case g ! h of None \<Rightarrow> Some h
      | Some i \<Rightarrow> if stop i then Some h else probe k stop g (next_slot h))"

lemma hash_mask_less [simp]: "hash_mask h < HASH_SIZE"
  using take_bit_nat_less_exp [of 8 "unat h"] by (simp add: hash_mask_def unsigned_take_bit_eq)

lemma next_slot_less [simp]: "next_slot h < HASH_SIZE"
  by (simp add: next_slot_def)

lemma length_empty_slots [simp]: "length empty_slots = HASH_SIZE"
  by (simp add: empty_slots_def)

lemma empty_slots_nth [simp]: "s < HASH_SIZE \<Longrightarrow> empty_slots ! s = None"
  by (simp add: empty_slots_def)

definition slot_at :: "nat \<Rightarrow> nat \<Rightarrow> nat" where
  "slot_at h d = (h + d) mod HASH_SIZE"

lemma slot_at_less [simp]: "slot_at h d < HASH_SIZE"
  by (simp add: slot_at_def)

lemma slot_at_0: "h < HASH_SIZE \<Longrightarrow> slot_at h 0 = h"
  by (simp add: slot_at_def)

lemma slot_at_Suc: "slot_at (next_slot h) d = slot_at h (Suc d)"
  by (simp add: slot_at_def next_slot_def mod_simps)

definition stops :: "(nat \<Rightarrow> bool) \<Rightarrow> slots \<Rightarrow> nat \<Rightarrow> bool" where
  "stops stop g s \<longleftrightarrow> (case g ! s of None \<Rightarrow> True | Some i \<Rightarrow> stop i)"

text \<open>The probe finds the slot at the least distance at which it stops.\<close>

lemma probe_eq_Some:
  assumes "h < HASH_SIZE"
  shows "probe k stop g h = Some s \<longleftrightarrow>
    (\<exists>d < k. s = slot_at h d \<and> stops stop g s \<and> (\<forall>e < d. \<not> stops stop g (slot_at h e)))"
  using assms
proof (induction k arbitrary: h)
  case 0
  then show ?case by simp
next
  case (Suc k)
  show ?case
  proof (cases "stops stop g h")
    case True
    then have "probe (Suc k) stop g h = Some h"
      by (auto simp: stops_def split: option.splits)
    moreover have "d = 0" if "\<forall>e < d. \<not> stops stop g (slot_at h e)" for d
      using that True Suc.prems slot_at_0 by (metis gr0I)
    ultimately show ?thesis using True Suc.prems slot_at_0 [of h] by (metis option.inject not_less_zero zero_less_Suc)
  next
    case False
    then have step: "probe (Suc k) stop g h = probe k stop g (next_slot h)"
      by (auto simp: stops_def split: option.splits)
    show ?thesis (is "_ \<longleftrightarrow> (\<exists>d < Suc k. ?Q d)")
    proof -
      have "?Q (Suc d) \<longleftrightarrow> s = slot_at (next_slot h) d \<and> stops stop g s
          \<and> (\<forall>e < d. \<not> stops stop g (slot_at (next_slot h) e))" for d
        using False Suc.prems by (auto simp: slot_at_Suc All_less_Suc2 slot_at_0)
      moreover have "\<not> ?Q 0" using False Suc.prems by (simp add: slot_at_0)
      ultimately have "(\<exists>d < Suc k. ?Q d) \<longleftrightarrow>
         (\<exists>d < k. s = slot_at (next_slot h) d \<and> stops stop g s
            \<and> (\<forall>e < d. \<not> stops stop g (slot_at (next_slot h) e)))"
        by (simp only: Ex_less_Suc2) simp
      then show ?thesis using Suc.IH [OF next_slot_less] by (simp only: step)
    qed
  qed
qed

lemma probe_eq_None:
  assumes "h < HASH_SIZE"
  shows "probe k stop g h = None \<longleftrightarrow> (\<forall>d < k. \<not> stops stop g (slot_at h d))"
proof
  assume none: "probe k stop g h = None"
  show "\<forall>d < k. \<not> stops stop g (slot_at h d)"
  proof (intro allI impI notI)
    fix d assume d: "d < k" "stops stop g (slot_at h d)"
    define m where "m = (LEAST d. stops stop g (slot_at h d))"
    have "stops stop g (slot_at h m)" "\<forall>e < m. \<not> stops stop g (slot_at h e)" "m < k"
      using d by (auto simp: m_def intro: LeastI dest: not_less_Least)
         (meson Least_le le_less_trans)
    then show False using none probe_eq_Some [OF assms, of k stop g "slot_at h m"] by auto
  qed
next
  assume "\<forall>d < k. \<not> stops stop g (slot_at h d)"
  then show "probe k stop g h = None"
    using probe_eq_Some [OF assms, of k stop g] by (metis option.exhaust)
qed

lemma slot_at_surj:
  assumes "s < HASH_SIZE" and "h < HASH_SIZE"
  shows "\<exists>d < HASH_SIZE. slot_at h d = s"
proof -
  have "slot_at h ((s + HASH_SIZE - h) mod HASH_SIZE) = s"
    using assms by (simp add: slot_at_def mod_simps)
  then show ?thesis by (metis mod_less_divisor zero_less_numeral)
qed

text \<open>With the table size as fuel, \<open>None\<close> means that the loop never ends.\<close>

lemma probe_none_forever:
  assumes "h < HASH_SIZE" and "probe HASH_SIZE stop g h = None"
  shows "probe k stop g h = None"
proof -
  have "\<not> stops stop g (slot_at h d)" for d
  proof -
    obtain d' where "d' < HASH_SIZE" "slot_at h d' = slot_at h d"
      using slot_at_surj [OF slot_at_less assms(1)] by blast
    then show ?thesis using assms(2) probe_eq_None [OF assms(1)] by metis
  qed
  then show ?thesis by (simp add: probe_eq_None assms(1))
qed

lemma probe_ends_if_free:
  assumes "h < HASH_SIZE" and "s < HASH_SIZE" and "g ! s = None"
  shows "\<exists>s'. probe HASH_SIZE stop g h = Some s' \<and> s' < HASH_SIZE"
proof -
  obtain d where "d < HASH_SIZE" "slot_at h d = s" using slot_at_surj assms by blast
  moreover have "stops stop g s" using assms by (simp add: stops_def)
  ultimately have "probe HASH_SIZE stop g h \<noteq> None"
    using probe_eq_None [OF assms(1), of HASH_SIZE stop g] by auto
  then obtain s' where s': "probe HASH_SIZE stop g h = Some s'" by auto
  then have "s' < HASH_SIZE"
    using probe_eq_Some [OF assms(1), of HASH_SIZE stop g s'] by auto
  with s' show ?thesis by auto
qed

lemma probe_empty_slot:
  "h < HASH_SIZE \<Longrightarrow> probe k (\<lambda>_. False) g h = Some s \<Longrightarrow> g ! s = None"
  by (auto simp: probe_eq_Some stops_def split: option.splits)

subsection \<open>Reachable entries\<close>

text \<open>Index \<open>i\<close> is reached from home slot \<open>h\<close>: it sits at the end of a gap-free run of slots.\<close>

definition reaches :: "slots \<Rightarrow> nat \<Rightarrow> nat \<Rightarrow> bool" where
  "reaches g h i \<longleftrightarrow>
     (\<exists>d < HASH_SIZE. g ! slot_at h d = Some i \<and> (\<forall>e < d. g ! slot_at h e \<noteq> None))"

locale hash_slots =
  fixes hash :: "'k \<Rightarrow> nat"
  assumes hash_bound: "hash k < HASH_SIZE"
begin

lemma insert_reaches:
  assumes "probe HASH_SIZE (\<lambda>_. False) g (hash k) = Some s" and "length g = HASH_SIZE"
  shows "reaches (g[s := Some i]) (hash k) i"
proof -
  obtain d where d: "d < HASH_SIZE" "s = slot_at (hash k) d"
    "\<forall>e < d. \<not> stops (\<lambda>_. False) g (slot_at (hash k) e)"
    using assms(1) by (auto simp: probe_eq_Some [OF hash_bound])
  then have "\<forall>e < d. g[s := Some i] ! slot_at (hash k) e \<noteq> None"
    by (auto simp: stops_def nth_list_update assms(2) split: option.splits)
  then show ?thesis using d assms(2) by (auto simp: reaches_def)
qed

lemma insert_keeps_reaches:
  assumes "probe HASH_SIZE (\<lambda>_. False) g (hash k) = Some s" and "length g = HASH_SIZE"
    and "reaches g h j"
  shows "reaches (g[s := Some i]) h j"
proof -
  have "g ! s = None" using probe_empty_slot [OF hash_bound assms(1)] .
  then have "g ! t \<noteq> None \<Longrightarrow> g[s := Some i] ! t = g ! t" for t
    by (cases "t = s") auto
  then show ?thesis using assms(3) unfolding reaches_def by (metis option.distinct(1))
qed

lemma lookup_finds:
  assumes "reaches g (hash k) i" and "stop i"
  shows "\<exists>s j. probe HASH_SIZE stop g (hash k) = Some s \<and> g ! s = Some j \<and> stop j"
proof -
  obtain d where d: "d < HASH_SIZE" "g ! slot_at (hash k) d = Some i"
    "\<forall>e < d. g ! slot_at (hash k) e \<noteq> None"
    using assms(1) by (auto simp: reaches_def)
  define m where "m = (LEAST d. stops stop g (slot_at (hash k) d))"
  have stopd: "stops stop g (slot_at (hash k) d)" using d assms(2) by (simp add: stops_def)
  then have m: "stops stop g (slot_at (hash k) m)" "m \<le> d"
    "\<forall>e < m. \<not> stops stop g (slot_at (hash k) e)"
    by (auto simp: m_def intro: LeastI Least_le dest: not_less_Least)
  then have "probe HASH_SIZE stop g (hash k) = Some (slot_at (hash k) m)"
    unfolding probe_eq_Some [OF hash_bound] using d(1) by (intro exI [of _ m]) auto
  moreover have "g ! slot_at (hash k) m \<noteq> None"
    using d m(2) by (metis le_neq_implies_less option.distinct(1))
  ultimately show ?thesis using m(1) by (auto simp: stops_def split: option.splits)
qed

lemma lookup_stops_at:
  assumes "probe k' stop g (hash k) = Some s"
  shows "s < HASH_SIZE \<and> (g ! s = None \<or> (\<exists>j. g ! s = Some j \<and> stop j))"
  using assms by (auto simp: probe_eq_Some [OF hash_bound] stops_def split: option.splits)

end

text \<open>A table with fewer occupied slots than its size has a free one.\<close>

definition occupied :: "slots \<Rightarrow> nat" where
  "occupied g = length (filter (\<lambda>x. x \<noteq> None) g)"

lemma occupied_free:
  assumes "occupied g < length g"
  shows "\<exists>s < length g. g ! s = None"
proof (rule ccontr)
  assume "\<not> ?thesis"
  then have "\<forall>x \<in> set g. x \<noteq> None" by (auto simp: in_set_conv_nth)
  then have "filter (\<lambda>x. x \<noteq> None) g = g" by (simp add: filter_id_conv)
  then show False using assms by (simp add: occupied_def)
qed

lemma occupied_insert:
  assumes "s < length g" and "g ! s = None"
  shows "occupied (g[s := Some i]) = Suc (occupied g)"
proof -
  have g: "g = take s g @ g ! s # drop (Suc s) g" using assms(1) by (rule id_take_nth_drop)
  have "occupied g = occupied (take s g @ None # drop (Suc s) g)"
    using g assms(2) by simp
  moreover have "g[s := Some i] = take s g @ Some i # drop (Suc s) g"
    using assms(1) by (rule upd_conv_take_nth_drop)
  ultimately show ?thesis by (simp add: occupied_def)
qed

lemma occupied_empty_slots [simp]: "occupied empty_slots = 0"
  by (simp add: occupied_def empty_slots_def)

lemma occupied_clear_le: "occupied (g[s := None]) \<le> occupied g"
proof (cases "s < length g")
  case True
  have "g = take s g @ g ! s # drop (Suc s) g" using True by (rule id_take_nth_drop)
  then have "occupied g = occupied (take s g @ g ! s # drop (Suc s) g)" by simp
  moreover have "g[s := None] = take s g @ None # drop (Suc s) g"
    using True by (rule upd_conv_take_nth_drop)
  ultimately show ?thesis by (simp add: occupied_def)
qed (simp add: list_update_beyond)

lemma occupied_full: "occupied g = length g \<Longrightarrow> s < length g \<Longrightarrow> g ! s \<noteq> None"
proof
  assume full: "occupied g = length g" and s: "s < length g" "g ! s = None"
  have "Suc (occupied g) = occupied (g[s := Some 0])" using occupied_insert [OF s] by simp
  also have "\<dots> \<le> length (g[s := Some 0])" unfolding occupied_def by (rule length_filter_le)
  finally show False using full by simp
qed

subsection \<open>Evaluating the hash and the probe\<close>

text \<open>The slot number needs only the low 8 bits of the hash.\<close>

definition step8 :: "nat \<Rightarrow> char \<Rightarrow> nat" where
  "step8 h c = (33 * h + char_code c) mod 256"

lemma hash_mask_step: "hash_mask (djb2_step h c) = step8 (hash_mask h) c"
proof -
  have "djb2_step h c = 33 * h + of_nat (char_code c)"
    by (simp add: djb2_step_def push_bit_eq_mult algebra_simps)
  then have "take_bit 8 (djb2_step h c) = take_bit 8 (33 * h + of_nat (char_code c))" by simp
  moreover have "unat (take_bit 8 (w :: 32 word)) = unat w mod 256" for w
    by (simp only: unsigned_take_bit_eq take_bit_nat_def) simp
  ultimately have "hash_mask (djb2_step h c) = unat (33 * h + of_nat (char_code c)) mod 256"
    by (simp add: hash_mask_def)
  also have "\<dots> = (33 * unat h + char_code c) mod 2 ^ 32 mod 256"
    using char_code_less [of c] by (simp add: unat_word_ariths unat_of_nat mod_simps)
  also have "\<dots> = (33 * unat h + char_code c) mod 256"
    by (simp add: mod_mod_cancel)
  also have "\<dots> = step8 (unat h mod 256) c"
    by (metis mod_add_left_eq mod_mult_right_eq step8_def)
  finally show ?thesis by (simp only: hash_mask_def unsigned_take_bit_eq take_bit_nat_def) simp
qed

lemma hash_mask_djb2: "hash_mask (djb2 h s) = foldl step8 (hash_mask h) s"
  by (induction s arbitrary: h) (simp_all add: djb2_def hash_mask_step)

lemma hash_mask_5381: "hash_mask 5381 = 5"
  by code_simp

lemma probe_256:
  "probe 256 stop g h = (case g ! h of None \<Rightarrow> Some h
      | Some i \<Rightarrow> if stop i then Some h else probe 255 stop g (next_slot h))"
  "probe 255 stop g h = (case g ! h of None \<Rightarrow> Some h
      | Some i \<Rightarrow> if stop i then Some h else probe 254 stop g (next_slot h))"
  using probe.simps(2) [of 255 stop g h] probe.simps(2) [of 254 stop g h]
  by (simp_all cong: option.case_cong)

lemmas slot_eval = probe_256 next_slot_def nth_list_update

end
