(* ===== verification/Route_Table.thy ===== *)
theory Route_Table
  imports Hash_Probe
begin

text \<open>
  The routing table of \<open>src/route_table.c\<close>: exact routes found through the djb2 hash table,
  prefix routes by a scan in registration order.  \<open>exact_count\<close> and \<open>prefix_count\<close> are the
  lengths of the two lists; the file-level array \<open>g_hash\<close> is the field \<open>rt_hash\<close> (only one
  table is live at a time).  NULL arguments are not modelled.  A string field of size \<open>n\<close>
  holds the first \<open>n - 1\<close> characters of what is stored.
\<close>

datatype match_type = MATCH_EXACT | MATCH_PREFIX

datatype handler_type =
    HANDLER_NONE | HANDLER_HELLO | HANDLER_HELP | HANDLER_SLEEP
  | HANDLER_USER_LIST | HANDLER_USER_BY_NAME | HANDLER_USER_FIND_INDEX | HANDLER_USER_COMPARE
  | HANDLER_USER_COMPARE_VERBOSE | HANDLER_USER_SIMPLE_FIND | HANDLER_USER_ADD
  | HANDLER_USER_DELETE | HANDLER_DELETE_FORM | HANDLER_SEARCH
  | HANDLER_INDEX | HANDLER_BLOG | HANDLER_STATIC | HANDLER_LOGIN | HANDLER_LOGOUT

record route_entry =
  re_path :: string
  re_match :: match_type
  re_method :: string
  re_handler :: handler_type
  re_realm :: string
  re_role :: string

record route_table =
  rt_exact :: "route_entry list"
  rt_prefix :: "route_entry list"
  rt_hash :: slots

record find_result =
  fr_entry :: "route_entry option"
  fr_captured :: string
  fr_is_405 :: bool
  fr_allow :: string

abbreviation MAX_ROUTES :: nat where "MAX_ROUTES \<equiv> 128"

subsection \<open>Handler names\<close>

definition g_handler_registry :: "(string \<times> handler_type) list" where
  "g_handler_registry =
    [(''hello'', HANDLER_HELLO), (''help'', HANDLER_HELP), (''sleep'', HANDLER_SLEEP),
     (''user_list'', HANDLER_USER_LIST), (''user_resource'', HANDLER_USER_BY_NAME),
     (''user_by_name'', HANDLER_USER_BY_NAME), (''user_find_index'', HANDLER_USER_FIND_INDEX),
     (''user_compare'', HANDLER_USER_COMPARE),
     (''user_compare_verbose'', HANDLER_USER_COMPARE_VERBOSE),
     (''user_simple_find'', HANDLER_USER_SIMPLE_FIND), (''user_add'', HANDLER_USER_ADD),
     (''user_delete'', HANDLER_USER_DELETE), (''delete_form'', HANDLER_DELETE_FORM),
     (''search'', HANDLER_SEARCH), (''index'', HANDLER_INDEX), (''blog'', HANDLER_BLOG),
     (''static'', HANDLER_STATIC), (''login'', HANDLER_LOGIN), (''logout'', HANDLER_LOGOUT)]"

definition route_table_lookup_handler :: "string \<Rightarrow> handler_type" where
  "route_table_lookup_handler name =
     (case map_of g_handler_registry name of None \<Rightarrow> HANDLER_NONE | Some h \<Rightarrow> h)"

definition route_table_handler_name :: "handler_type \<Rightarrow> string" where
  "route_table_handler_name h =
     (case find (\<lambda>(n, t). t = h) g_handler_registry of None \<Rightarrow> ''unknown'' | Some (n, t) \<Rightarrow> n)"

subsection \<open>The hash table\<close>

definition hash_key :: "string \<Rightarrow> string \<Rightarrow> nat" where
  "hash_key meth path = hash_mask (djb2 (djb2_step (djb2 5381 meth) CHR '':'') path)"

interpretation route_hash: hash_slots "\<lambda>(meth, path). hash_key meth path"
  by unfold_locales (auto simp: hash_key_def)

definition entry_home :: "route_entry \<Rightarrow> nat" where
  "entry_home e = hash_key (re_method e) (re_path e)"

definition hash_insert :: "route_entry list \<Rightarrow> nat \<Rightarrow> slots \<Rightarrow> slots run" where
  "hash_insert es i g =
     (case probe HASH_SIZE (\<lambda>_. False) g (entry_home (es ! i)) of
        None \<Rightarrow> Loops | Some s \<Rightarrow> Ret (g[s := Some i]))"

fun hash_insert_from :: "route_entry list \<Rightarrow> nat \<Rightarrow> nat \<Rightarrow> slots \<Rightarrow> slots run" where
  \<comment> \<open>\<open>for (; i < exact_count; i++) hash_insert(rt, i)\<close>, with \<open>n\<close> iterations to go\<close>
  "hash_insert_from es i 0 g = Ret g"
| "hash_insert_from es i (Suc n) g = bind_run (hash_insert es i g) (hash_insert_from es (Suc i) n)"

definition hash_rebuild :: "route_entry list \<Rightarrow> slots run" where
  "hash_rebuild es = hash_insert_from es 0 (length es) empty_slots"

definition hash_lookup :: "route_table \<Rightarrow> string \<Rightarrow> string \<Rightarrow> (nat option \<times> bool) run" where
  \<comment> \<open>the index found, and \<open>*different_method\<close>\<close>
  "hash_lookup rt meth path =
     (case probe HASH_SIZE (\<lambda>i. re_path (rt_exact rt ! i) = path) (rt_hash rt)
             (hash_key meth path) of
        None \<Rightarrow> Loops
      | Some s \<Rightarrow>
          (case rt_hash rt ! s of
             None \<Rightarrow> Ret (None, False)
           | Some i \<Rightarrow> if re_method (rt_exact rt ! i) = meth then Ret (Some i, False)
                       else Ret (None, True)))"

subsection \<open>Registration\<close>

definition route_table_init :: route_table where
  "route_table_init = \<lparr>rt_exact = [], rt_prefix = [], rt_hash = empty_slots\<rparr>"

definition mk_entry ::
    "string \<Rightarrow> string \<Rightarrow> match_type \<Rightarrow> handler_type \<Rightarrow> string \<Rightarrow> string \<Rightarrow> route_entry" where
  "mk_entry meth path mt h realm role =
     \<lparr>re_path = copy_text 256 path, re_match = mt, re_method = copy_text 16 meth,
      re_handler = h, re_realm = copy_text 64 realm, re_role = copy_text 32 role\<rparr>"

definition same_route :: "string \<Rightarrow> string \<Rightarrow> route_entry \<Rightarrow> bool" where
  "same_route meth path e \<longleftrightarrow> re_path e = path \<and> re_method e = meth"

definition route_table_add ::
    "route_table \<Rightarrow> string \<Rightarrow> string \<Rightarrow> match_type \<Rightarrow> handler_type \<Rightarrow> string \<Rightarrow> string
      \<Rightarrow> route_table option run" where
  \<comment> \<open>\<open>Ret None\<close>: the code returns -1 and leaves the table as it was\<close>
  "route_table_add rt meth path mt h realm role =
     (case mt of
        MATCH_EXACT \<Rightarrow>
          (if length (rt_exact rt) \<ge> MAX_ROUTES then Ret None
           else if list_ex (same_route meth path) (rt_exact rt) then Ret None
           else let es = rt_exact rt @ [mk_entry meth path mt h realm role]
                in bind_run (hash_rebuild es)
                     (\<lambda>g. Ret (Some (rt\<lparr>rt_exact := es, rt_hash := g\<rparr>))))
      | MATCH_PREFIX \<Rightarrow>
          (if length (rt_prefix rt) \<ge> MAX_ROUTES then Ret None
           else if list_ex (same_route meth path) (rt_prefix rt) then Ret None
           else Ret (Some (rt\<lparr>rt_prefix :=
                  rt_prefix rt @ [mk_entry meth path mt h realm role]\<rparr>))))"

subsection \<open>Matching\<close>

fun allow_loop ::
    "nat \<Rightarrow> string \<Rightarrow> match_type \<Rightarrow> route_entry list \<Rightarrow> string list \<Rightarrow> string \<Rightarrow> string" where
  \<comment> \<open>\<open>offset\<close> is the length of what \<open>snprintf\<close> was asked to write so far\<close>
  "allow_loop n path mt [] seen out = out"
| "allow_loop n path mt (e # es) seen out =
     (if re_match e \<noteq> mt \<or> re_path e \<noteq> path \<or> re_method e \<in> set seen
      then allow_loop n path mt es seen out
      else let seen' = (if length seen < 16 then seen @ [re_method e] else seen);
               out' = out @ (if out \<noteq> [] then '', '' else []) @ re_method e
           in if n \<le> length out' then out' else allow_loop n path mt es seen' out')"

definition build_allow_for_path :: "route_table \<Rightarrow> string \<Rightarrow> match_type \<Rightarrow> nat \<Rightarrow> string" where
  "build_allow_for_path rt path mt bufsize =
     take (bufsize - 1)
       (allow_loop bufsize path mt
          (case mt of MATCH_EXACT \<Rightarrow> rt_exact rt | MATCH_PREFIX \<Rightarrow> rt_prefix rt) [] [])"

definition path_matches_prefix :: "string \<Rightarrow> string \<Rightarrow> string \<Rightarrow> nat \<Rightarrow> bool \<times> string" where
  \<comment> \<open>the result, and what \<open>captured\<close> holds afterwards (\<open>old\<close> before the call)\<close>
  "path_matches_prefix pattern path old cap_size =
     (if pattern = [] then (False, old)
      else if \<not> starts_with path pattern then (False, [])
      else (True, take (cap_size - 1) (drop (length pattern) path)))"

fun scan_prefix ::
    "route_table \<Rightarrow> string \<Rightarrow> string \<Rightarrow> route_entry list \<Rightarrow> find_result \<Rightarrow> find_result" where
  "scan_prefix rt meth path [] r = r"
| "scan_prefix rt meth path (e # es) r =
     (let (ok, cap) = path_matches_prefix (re_path e) path (fr_captured r) 256;
          r1 = r\<lparr>fr_captured := cap\<rparr>
      in if \<not> ok then scan_prefix rt meth path es r1
         else if re_method e = meth then r1\<lparr>fr_entry := Some e, fr_is_405 := False\<rparr>
         else if \<not> fr_is_405 r1
         then scan_prefix rt meth path es
                (r1\<lparr>fr_is_405 := True, fr_allow := build_allow_for_path rt (re_path e) MATCH_PREFIX 256\<rparr>)
         else scan_prefix rt meth path es r1)"

definition no_result :: find_result where
  "no_result = \<lparr>fr_entry = None, fr_captured = [], fr_is_405 = False, fr_allow = []\<rparr>"

definition route_table_find :: "route_table \<Rightarrow> string \<Rightarrow> string \<Rightarrow> find_result run" where
  "route_table_find rt meth path =
     bind_run (hash_lookup rt meth path)
       (\<lambda>(i, diff). Ret
         (case i of
            Some i \<Rightarrow> no_result\<lparr>fr_entry := Some (rt_exact rt ! i)\<rparr>
          | None \<Rightarrow>
              if diff
              then no_result\<lparr>fr_is_405 := True,
                             fr_allow := build_allow_for_path rt path MATCH_EXACT 256\<rparr>
              else scan_prefix rt meth path (rt_prefix rt) no_result))"

subsection \<open>Validation\<close>

fun count_errors :: "route_entry list \<Rightarrow> nat" where
  "count_errors [] = 0"
| "count_errors (e # es) =
     (if re_handler e = HANDLER_NONE then 1 else 0)
     + length (filter (same_route (re_method e) (re_path e)) es) + count_errors es"

definition route_table_validate :: "route_table \<Rightarrow> int" where
  "route_table_validate rt =
     (if 0 < count_errors (rt_exact rt) + count_errors (rt_prefix rt) then -1 else 0)"

subsection \<open>The table invariant\<close>

definition rt_wf :: "route_table \<Rightarrow> bool" where
  "rt_wf rt \<longleftrightarrow> length (rt_exact rt) \<le> MAX_ROUTES \<and> length (rt_prefix rt) \<le> MAX_ROUTES
     \<and> length (rt_hash rt) = HASH_SIZE \<and> occupied (rt_hash rt) = length (rt_exact rt)
     \<and> (\<forall>i < length (rt_exact rt). reaches (rt_hash rt) (entry_home (rt_exact rt ! i)) i)
     \<and> (\<forall>s < HASH_SIZE. \<forall>i. rt_hash rt ! s = Some i \<longrightarrow> i < length (rt_exact rt))
     \<and> (\<forall>e \<in> set (rt_exact rt). re_match e = MATCH_EXACT)
     \<and> (\<forall>e \<in> set (rt_prefix rt). re_match e = MATCH_PREFIX)"

text \<open>What holds of the hash table while the entries from \<open>i\<close> on are still to be inserted.\<close>

definition hash_upto :: "route_entry list \<Rightarrow> nat \<Rightarrow> slots \<Rightarrow> bool" where
  "hash_upto es i g \<longleftrightarrow> length g = HASH_SIZE \<and> occupied g = i
     \<and> (\<forall>j < i. reaches g (entry_home (es ! j)) j)
     \<and> (\<forall>s < HASH_SIZE. \<forall>j. g ! s = Some j \<longrightarrow> j < i)"

lemma hash_upto_0: "hash_upto es 0 empty_slots"
  by (simp add: hash_upto_def)

lemma entry_home_less [simp]: "entry_home e < HASH_SIZE"
  by (simp add: entry_home_def hash_key_def)

lemma hash_insert_step:
  assumes "hash_upto es i g" and "i < HASH_SIZE"
  shows "\<exists>g'. hash_insert es i g = Ret g' \<and> hash_upto es (Suc i) g'"
proof -
  let ?h = "entry_home (es ! i)"
  have len: "length g = HASH_SIZE" and occ: "occupied g = i"
    using assms(1) by (auto simp: hash_upto_def)
  then obtain f where f: "f < HASH_SIZE" "g ! f = None"
    using occupied_free [of g] assms(2) by auto
  obtain s where s: "probe HASH_SIZE (\<lambda>_. False) g ?h = Some s" and "s < HASH_SIZE"
    using probe_ends_if_free [OF entry_home_less f] by blast
  have free: "g ! s = None" by (rule probe_empty_slot [OF entry_home_less s])
  let ?k = "(re_method (es ! i), re_path (es ! i))"
  have s': "probe HASH_SIZE (\<lambda>_. False) g ((\<lambda>(m, p). hash_key m p) ?k) = Some s"
    using s by (simp add: entry_home_def)
  have "reaches (g[s := Some i]) (entry_home (es ! i)) i"
    using route_hash.insert_reaches [OF s' len] by (simp add: entry_home_def)
  moreover have "reaches (g[s := Some i]) (entry_home (es ! j)) j" if "j < i" for j
    using route_hash.insert_keeps_reaches [OF s' len] assms(1) that by (auto simp: hash_upto_def)
  moreover have "occupied (g[s := Some i]) = Suc i"
    using occupied_insert [of s g i] free \<open>s < HASH_SIZE\<close> len occ by simp
  moreover have "j < Suc i" if "t < HASH_SIZE" "g[s := Some i] ! t = Some j" for t j
    using assms(1) len that by (cases "t = s") (auto simp: hash_upto_def less_Suc_eq)
  ultimately have "hash_upto es (Suc i) (g[s := Some i])"
    using len by (auto simp: hash_upto_def less_Suc_eq)
  then show ?thesis using s by (simp add: hash_insert_def)
qed

lemma hash_insert_from_step:
  "hash_upto es i g \<Longrightarrow> i + n \<le> HASH_SIZE \<Longrightarrow>
     \<exists>g'. hash_insert_from es i n g = Ret g' \<and> hash_upto es (i + n) g'"
proof (induction n arbitrary: i g)
  case 0
  then show ?case by simp
next
  case (Suc n)
  then obtain g1 where g1: "hash_insert es i g = Ret g1" "hash_upto es (Suc i) g1"
    using hash_insert_step [of es i g] by auto
  then show ?case using Suc.IH [OF g1(2)] Suc.prems(2) by simp
qed

lemma hash_rebuild_wf:
  assumes "length es \<le> HASH_SIZE"
  shows "\<exists>g. hash_rebuild es = Ret g \<and> hash_upto es (length es) g"
  using hash_insert_from_step [OF hash_upto_0, of "length es" es] assms
  by (simp add: hash_rebuild_def)

lemma rt_wf_init: "rt_wf route_table_init"
  by (simp add: rt_wf_def route_table_init_def)

lemma rt_wf_add:
  assumes "rt_wf rt"
  shows "\<exists>r. route_table_add rt meth path mt h realm role = Ret r
    \<and> (\<forall>rt'. r = Some rt' \<longrightarrow> rt_wf rt')"
proof (cases mt)
  case MATCH_EXACT
  let ?es = "rt_exact rt @ [mk_entry meth path mt h realm role]"
  have "re_match (mk_entry meth path mt h realm role) = MATCH_EXACT"
    by (simp add: mk_entry_def MATCH_EXACT)
  moreover obtain g where "hash_rebuild ?es = Ret g" "hash_upto ?es (length ?es) g"
    if "length (rt_exact rt) < MAX_ROUTES"
    using hash_rebuild_wf [of ?es] by fastforce
  ultimately show ?thesis
    using assms MATCH_EXACT
    by (cases "length (rt_exact rt) < MAX_ROUTES")
       (auto simp: route_table_add_def rt_wf_def hash_upto_def Let_def)
next
  case MATCH_PREFIX
  have "re_match (mk_entry meth path mt h realm role) = MATCH_PREFIX"
    by (simp add: mk_entry_def MATCH_PREFIX)
  then show ?thesis
    using assms MATCH_PREFIX by (auto simp: route_table_add_def rt_wf_def)
qed

subsection \<open>Lookup against the specification\<close>

text \<open>
  The specification of the prefix scan: the first pattern in registration order that is a
  prefix of the path and has the method, and the first pattern that is a prefix at all.
\<close>

definition prefix_matches :: "string \<Rightarrow> route_entry \<Rightarrow> bool" where
  "prefix_matches path e \<longleftrightarrow> re_path e \<noteq> [] \<and> prefix (re_path e) path"

definition first_prefix :: "string \<Rightarrow> string \<Rightarrow> route_entry list \<Rightarrow> route_entry option" where
  "first_prefix meth path es = find (\<lambda>e. prefix_matches path e \<and> re_method e = meth) es"

definition captured_tail :: "string \<Rightarrow> route_entry \<Rightarrow> string" where
  "captured_tail path e = take 255 (drop (length (re_path e)) path)"

lemma path_matches_prefix_iff:
  "fst (path_matches_prefix (re_path e) path old n) \<longleftrightarrow> prefix_matches path e"
  by (simp add: path_matches_prefix_def prefix_matches_def starts_with_prefix)

lemma path_matches_prefix_cap:
  "prefix_matches path e \<Longrightarrow> snd (path_matches_prefix (re_path e) path old 256) = captured_tail path e"
  by (simp add: path_matches_prefix_def prefix_matches_def starts_with_prefix captured_tail_def)

lemma scan_prefix_step:
  "scan_prefix rt meth path (e # es) r =
     (let cap = snd (path_matches_prefix (re_path e) path (fr_captured r) 256);
          r1 = r\<lparr>fr_captured := cap\<rparr>
      in if \<not> prefix_matches path e then scan_prefix rt meth path es r1
         else if re_method e = meth then r1\<lparr>fr_entry := Some e, fr_is_405 := False\<rparr>
         else if \<not> fr_is_405 r1
         then scan_prefix rt meth path es
                (r1\<lparr>fr_is_405 := True, fr_allow := build_allow_for_path rt (re_path e) MATCH_PREFIX 256\<rparr>)
         else scan_prefix rt meth path es r1)"
  using path_matches_prefix_iff [of e path "fr_captured r" 256]
  by (cases "path_matches_prefix (re_path e) path (fr_captured r) 256") (simp add: Let_def)

declare scan_prefix.simps(2) [simp del]

lemma scan_prefix_Some:
  assumes "first_prefix meth path es = Some e"
  shows "fr_entry (scan_prefix rt meth path es r) = Some e"
    and "fr_is_405 (scan_prefix rt meth path es r) = False"
    and "fr_captured (scan_prefix rt meth path es r) = captured_tail path e"
  using assms
  by (induction es arbitrary: r)
     (auto simp: first_prefix_def scan_prefix_step Let_def path_matches_prefix_cap split: if_splits)

lemma scan_prefix_None:
  assumes "first_prefix meth path es = None"
  shows "fr_entry (scan_prefix rt meth path es r) = fr_entry r"
    and "fr_is_405 (scan_prefix rt meth path es r)
           \<longleftrightarrow> fr_is_405 r \<or> list_ex (prefix_matches path) es"
  using assms
  by (induction es arbitrary: r)
     (auto simp: first_prefix_def scan_prefix_step Let_def split: if_splits)

lemma scan_prefix_allow:
  assumes "first_prefix meth path es = None"
  shows "fr_allow (scan_prefix rt meth path es r) =
    (if fr_is_405 r then fr_allow r
     else case find (prefix_matches path) es of
            None \<Rightarrow> fr_allow r
          | Some e \<Rightarrow> build_allow_for_path rt (re_path e) MATCH_PREFIX 256)"
  using assms
  by (induction es arbitrary: r)
     (auto simp: first_prefix_def scan_prefix_step Let_def split: if_splits option.split)

lemma hash_lookup_ends:
  assumes "rt_wf rt"
  shows "\<exists>i d. hash_lookup rt meth path = Ret (i, d)
    \<and> (\<forall>j. i = Some j \<longrightarrow> j < length (rt_exact rt) \<and> re_path (rt_exact rt ! j) = path
            \<and> re_method (rt_exact rt ! j) = meth)
    \<and> (d \<longrightarrow> i = None \<and> (\<exists>e \<in> set (rt_exact rt). re_path e = path \<and> re_method e \<noteq> meth))"
proof -
  let ?stop = "\<lambda>i. re_path (rt_exact rt ! i) = path"
  have len: "length (rt_hash rt) = HASH_SIZE" and "occupied (rt_hash rt) < length (rt_hash rt)"
    using assms by (auto simp: rt_wf_def)
  then obtain f where f: "f < HASH_SIZE" "rt_hash rt ! f = None"
    using occupied_free [of "rt_hash rt"] by auto
  have hb: "hash_key meth path < HASH_SIZE" by (simp add: hash_key_def)
  obtain s where s: "probe HASH_SIZE ?stop (rt_hash rt) (hash_key meth path) = Some s"
      and "s < HASH_SIZE"
    using probe_ends_if_free [OF hb f, of ?stop] by auto
  show ?thesis
  proof (cases "rt_hash rt ! s")
    case None
    then have "hash_lookup rt meth path = Ret (None, False)" using s by (simp add: hash_lookup_def)
    then show ?thesis by auto
  next
    case (Some j)
    have "?stop j"
      using route_hash.lookup_stops_at [of HASH_SIZE ?stop "rt_hash rt" "(meth, path)" s] s Some
      by simp
    moreover have "j < length (rt_exact rt)"
      using assms Some \<open>s < HASH_SIZE\<close> by (simp add: rt_wf_def)
    moreover have "hash_lookup rt meth path = (if re_method (rt_exact rt ! j) = meth
        then Ret (Some j, False) else Ret (None, True))"
      using s Some by (simp add: hash_lookup_def)
    ultimately show ?thesis
    proof (cases "re_method (rt_exact rt ! j) = meth")
      case True
      with \<open>hash_lookup rt meth path = _\<close> have "hash_lookup rt meth path = Ret (Some j, False)" by simp
      then show ?thesis using \<open>?stop j\<close> \<open>j < length (rt_exact rt)\<close> True by blast
    next
      case False
      with \<open>hash_lookup rt meth path = _\<close> have "hash_lookup rt meth path = Ret (None, True)" by simp
      moreover have "rt_exact rt ! j \<in> set (rt_exact rt)" using \<open>j < length (rt_exact rt)\<close> by simp
      ultimately show ?thesis using \<open>?stop j\<close> False by blast
    qed
  qed
qed


lemma route_table_find_ends: "rt_wf rt \<Longrightarrow> \<exists>r. route_table_find rt meth path = Ret r"
  using hash_lookup_ends [of rt meth path] by (auto simp: route_table_find_def)

subsection \<open>The Allow header\<close>

fun comma_join :: "string list \<Rightarrow> string" where
  "comma_join [] = []"
| "comma_join [m] = m"
| "comma_join (m # ms) = m @ '', '' @ comma_join ms"

definition methods_for :: "route_entry list \<Rightarrow> string \<Rightarrow> string list" where
  "methods_for es path = map re_method (filter (\<lambda>e. re_path e = path) es)"

definition key_of :: "route_entry \<Rightarrow> string \<times> string" where
  "key_of e = (re_path e, re_method e)"

fun join_onto :: "string \<Rightarrow> string list \<Rightarrow> string" where
  "join_onto out [] = out"
| "join_onto out (m # ms) = join_onto (out @ (if out \<noteq> [] then '', '' else []) @ m) ms"

lemma join_onto_prefix: "prefix out (join_onto out ms)"
proof (induction ms arbitrary: out)
  case (Cons m ms)
  have "prefix out (out @ (if out \<noteq> [] then '', '' else []) @ m)" by simp
  also have "prefix \<dots> (join_onto out (m # ms))" using Cons.IH by simp
  finally show ?case .
qed simp

lemma comma_join_merge: "comma_join ((a @ '', '' @ b) # ms) = a @ '', '' @ comma_join (b # ms)"
  by (cases ms) auto

lemma join_onto_comma: "out \<noteq> [] \<Longrightarrow> join_onto out ms = comma_join (out # ms)"
proof (induction ms arbitrary: out)
  case (Cons m ms)
  then have "join_onto out (m # ms) = comma_join ((out @ '', '' @ m) # ms)" by simp
  also have "\<dots> = comma_join (out # m # ms)" by (simp only: comma_join_merge comma_join.simps)
  finally show ?case .
qed simp

lemma join_onto_Nil: "[] \<notin> set ms \<Longrightarrow> join_onto [] ms = comma_join ms"
  by (cases ms) (auto simp: join_onto_comma)

lemma take_join_onto: "n \<le> length out \<Longrightarrow> take (n - 1) (join_onto out ms) = take (n - 1) out"
  using join_onto_prefix [of out ms] by (auto elim!: prefixE)

lemma methods_for_Cons:
  "methods_for (e # es) path = (if re_path e = path then [re_method e] else []) @ methods_for es path"
  by (simp add: methods_for_def)

lemma take_allow_loop:
  assumes "\<forall>e \<in> set es. re_match e = mt" and "distinct (methods_for es path)"
    and "set seen \<inter> set (methods_for es path) = {}"
  shows "take (n - 1) (allow_loop n path mt es seen out) = take (n - 1) (join_onto out (methods_for es path))"
  using assms
proof (induction n path mt es seen out rule: allow_loop.induct)
  case (1 n path mt seen out)
  then show ?case by (simp add: methods_for_def)
next
  case (2 n path mt e es seen out)
  show ?case
  proof (cases "re_path e = path")
    case False
    then show ?thesis using 2 by (simp add: methods_for_Cons)
  next
    case True
    let ?out = "out @ (if out \<noteq> [] then '', '' else []) @ re_method e"
    let ?seen = "if length seen < 16 then seen @ [re_method e] else seen"
    have new: "re_method e \<notin> set seen" using True "2.prems" by (auto simp: methods_for_Cons)
    show ?thesis
    proof (cases "n \<le> length ?out")
      case big: True
      then show ?thesis
        using True new "2.prems" take_join_onto [OF big] by (simp add: methods_for_Cons Let_def)
    next
      case False
      have "set ?seen \<inter> set (methods_for es path) = {}"
        using True "2.prems" by (auto simp: methods_for_Cons)
      then show ?thesis
        using True False new "2.prems" "2.IH"(2) by (simp add: methods_for_Cons Let_def)
    qed
  qed
qed

lemma distinct_methods_for:
  "distinct (map key_of es) \<Longrightarrow> distinct (methods_for es path)"
  by (auto simp: methods_for_def distinct_map inj_on_def key_of_def)

lemma build_allow_methods:
  assumes "distinct (map key_of es)" and "\<forall>e \<in> set es. re_match e = mt \<and> re_method e \<noteq> []"
    and "es = (case mt of MATCH_EXACT \<Rightarrow> rt_exact rt | MATCH_PREFIX \<Rightarrow> rt_prefix rt)"
  shows "build_allow_for_path rt path mt n = take (n - 1) (comma_join (methods_for es path))"
proof -
  have "[] \<notin> set (methods_for es path)" using assms(2) by (auto simp: methods_for_def)
  then show ?thesis
    using take_allow_loop [of es mt path "[]" n "[]"] distinct_methods_for [OF assms(1)] assms
    by (auto simp: build_allow_for_path_def join_onto_Nil)
qed

lemma first_prefix_None_method:
  assumes "first_prefix meth path es = None" and "prefix_matches path e"
  shows "meth \<notin> set (methods_for es (re_path e))"
proof
  assume "meth \<in> set (methods_for es (re_path e))"
  then obtain x where x: "x \<in> set es" "re_path x = re_path e" "re_method x = meth"
    by (auto simp: methods_for_def)
  then have "prefix_matches path x" using assms(2) by (simp add: prefix_matches_def)
  with assms(1) x show False by (auto simp: first_prefix_def find_None_iff)
qed

subsection \<open>Properties\<close>

text \<open>
  C31: registration always terminates and keeps the table well formed: the counts stay within
  \<open>MAX_ROUTES\<close>, every exact route can be reached by probing from the hash of its method and
  path, and the hash table holds exactly the exact routes.
\<close>
theorem route_table_add_keeps_wf:
  assumes "rt_wf rt"
  shows "\<exists>r. route_table_add rt meth path mt h realm role = Ret r
    \<and> (\<forall>rt'. r = Some rt' \<longrightarrow> rt_wf rt' \<and>
         length (rt_exact rt') + length (rt_prefix rt') = Suc (length (rt_exact rt) + length (rt_prefix rt)))"
proof -
  obtain r where r: "route_table_add rt meth path mt h realm role = Ret r"
      and wf: "\<forall>rt'. r = Some rt' \<longrightarrow> rt_wf rt'"
    using rt_wf_add [OF assms] by blast
  have "length (rt_exact rt') + length (rt_prefix rt') = Suc (length (rt_exact rt) + length (rt_prefix rt))"
    if "r = Some rt'" for rt'
    using r that
    by (cases mt) (auto simp: route_table_add_def Let_def bind_run_Ret_iff split: if_splits)
  with r wf show ?thesis by blast
qed

lemma route_table_add_keeps_wf_witness:
  "rt_wf route_table_init \<and> (\<exists>r. route_table_add route_table_init ''GET'' ''/hello'' MATCH_EXACT
      HANDLER_HELLO [] [] = Ret r)"
  using rt_wf_init route_table_add_keeps_wf [OF rt_wf_init] by blast

lemma find_sound:
  assumes "rt_wf rt"
  shows "\<exists>r. route_table_find rt meth path = Ret r \<and>
    (\<forall>e. fr_entry r = Some e \<longrightarrow> re_method e = meth \<and> \<not> fr_is_405 r \<and>
       (e \<in> set (rt_exact rt) \<and> re_path e = path \<and> fr_captured r = []
        \<or> e \<in> set (rt_prefix rt) \<and> (\<exists>tail. path = re_path e @ tail \<and> fr_captured r = take 255 tail)))"
proof -
  obtain i d where l: "hash_lookup rt meth path = Ret (i, d)"
    "\<forall>j. i = Some j \<longrightarrow> j < length (rt_exact rt) \<and> re_path (rt_exact rt ! j) = path
       \<and> re_method (rt_exact rt ! j) = meth"
    using hash_lookup_ends [OF assms] by blast
  show ?thesis
  proof (cases "first_prefix meth path (rt_prefix rt)")
    case None
    then show ?thesis
      using l scan_prefix_None(1) [OF None, of rt no_result]
      by (cases i) (auto simp: route_table_find_def no_result_def)
  next
    case (Some e)
    then have e: "e \<in> set (rt_prefix rt)" "prefix_matches path e" "re_method e = meth"
      by (auto simp: first_prefix_def find_Some_iff)
    then obtain tail where "path = re_path e @ tail" by (auto simp: prefix_matches_def elim: prefixE)
    then have "captured_tail path e = take 255 tail" by (simp add: captured_tail_def)
    with e \<open>path = re_path e @ tail\<close> show ?thesis
      using l scan_prefix_Some [OF Some, of rt no_result]
      by (cases i) (auto simp: route_table_find_def no_result_def)
  qed
qed

text \<open>
  C32: lookup is sound and always terminates: an entry it returns has the method of the request
  and either is an exact route for the very path (nothing captured) or a prefix route whose
  pattern begins the path, the captured text being the rest of the path cut to 255 bytes.
\<close>
theorem route_table_find_sound:
  assumes "rt_wf rt"
  shows "\<exists>r. route_table_find rt meth path = Ret r \<and>
    (\<forall>e. fr_entry r = Some e \<longrightarrow> re_method e = meth \<and> \<not> fr_is_405 r \<and>
       (e \<in> set (rt_exact rt) \<and> re_path e = path \<and> fr_captured r = []
        \<or> e \<in> set (rt_prefix rt) \<and> (\<exists>tail. path = re_path e @ tail \<and> fr_captured r = take 255 tail)))"
  by (rule find_sound) (rule assms)

lemma route_table_find_sound_witness:
  "rt_wf route_table_init \<and> (\<exists>r. route_table_find route_table_init ''GET'' ''/x'' = Ret r)"
  using rt_wf_init route_table_find_sound [OF rt_wf_init] by blast


definition sleep_table :: route_table where
  "sleep_table = \<lparr>rt_exact = [], rt_prefix = [mk_entry ''GET'' ''/sleep/'' MATCH_PREFIX HANDLER_SLEEP [] []],
     rt_hash = empty_slots\<rparr>"

lemma sleep_table_wf: "rt_wf sleep_table"
  by (simp add: rt_wf_def sleep_table_def mk_entry_def)

lemma sleep_table_eqs:
  "rt_exact sleep_table = []"
  "rt_prefix sleep_table = [\<lparr>re_path = ''/sleep/'', re_match = MATCH_PREFIX, re_method = ''GET'',
      re_handler = HANDLER_SLEEP, re_realm = [], re_role = []\<rparr>]"
  by (simp_all add: sleep_table_def mk_entry_def copy_text_def)


text \<open>
  A 405 answer names no entry, and its \<open>Allow\<close> header lists, separated by commas and cut
  to the 255 characters of the buffer, exactly the methods registered for one pattern: the
  path itself (exact routes), or the first registered prefix of it, and then the method of
  the request is not among them.
\<close>
theorem route_table_find_405:
  assumes "rt_wf rt" and "distinct (map key_of (rt_exact rt))" and "distinct (map key_of (rt_prefix rt))"
    and "\<forall>e \<in> set (rt_exact rt) \<union> set (rt_prefix rt). re_method e \<noteq> []"
    and "route_table_find rt meth path = Ret r" and "fr_is_405 r"
  shows "fr_entry r = None \<and>
    ((\<exists>e \<in> set (rt_exact rt). re_path e = path \<and> re_method e \<noteq> meth \<and>
        fr_allow r = take 255 (comma_join (methods_for (rt_exact rt) path)))
     \<or> (\<exists>e. find (prefix_matches path) (rt_prefix rt) = Some e \<and>
        meth \<notin> set (methods_for (rt_prefix rt) (re_path e)) \<and>
        fr_allow r = take 255 (comma_join (methods_for (rt_prefix rt) (re_path e)))))"
proof -
  obtain i d where l: "hash_lookup rt meth path = Ret (i, d)"
    "d \<longrightarrow> i = None \<and> (\<exists>e \<in> set (rt_exact rt). re_path e = path \<and> re_method e \<noteq> meth)"
    using hash_lookup_ends [OF assms(1)] by blast
  have "\<forall>e \<in> set (rt_exact rt). re_match e = MATCH_EXACT \<and> re_method e \<noteq> []"
    "\<forall>e \<in> set (rt_prefix rt). re_match e = MATCH_PREFIX \<and> re_method e \<noteq> []"
    using assms(1,4) by (auto simp: rt_wf_def)
  then have ex: "build_allow_for_path rt p MATCH_EXACT 256 = take 255 (comma_join (methods_for (rt_exact rt) p))"
    and pr: "build_allow_for_path rt p MATCH_PREFIX 256 = take 255 (comma_join (methods_for (rt_prefix rt) p))" for p
    using build_allow_methods assms(2,3) by fastforce+
  show ?thesis
  proof (cases d)
    case True
    then have "r = no_result\<lparr>fr_is_405 := True, fr_allow := build_allow_for_path rt path MATCH_EXACT 256\<rparr>"
      using l assms(5) by (simp add: route_table_find_def)
    then show ?thesis using l True ex by (auto simp: no_result_def)
  next
    case False
    have "i = None" using l assms(5,6) False by (cases i) (auto simp: route_table_find_def no_result_def)
    then have r: "r = scan_prefix rt meth path (rt_prefix rt) no_result"
      using l(1) assms(5) False by (simp add: route_table_find_def)
    then have none: "first_prefix meth path (rt_prefix rt) = None"
      using assms(6) scan_prefix_Some(2) by fastforce
    then have "list_ex (prefix_matches path) (rt_prefix rt)"
      using assms(6) r scan_prefix_None(2) [OF none] by (simp add: no_result_def)
    then obtain e where e: "find (prefix_matches path) (rt_prefix rt) = Some e"
      by (cases "find (prefix_matches path) (rt_prefix rt)") (auto simp: find_None_iff list_ex_iff)
    then have "prefix_matches path e" by (auto simp: find_Some_iff)
    then have "meth \<notin> set (methods_for (rt_prefix rt) (re_path e))"
      using first_prefix_None_method [OF none] by simp
    then show ?thesis
      using e r none scan_prefix_None(1) [OF none] scan_prefix_allow [OF none] pr
      by (simp add: no_result_def)
  qed
qed

lemma sleep_table_post:
  "route_table_find sleep_table ''POST'' ''/sleep/5'' = Ret
     \<lparr>fr_entry = None, fr_captured = ''5'', fr_is_405 = True, fr_allow = ''GET''\<rparr>"
proof -
  have "hash_lookup sleep_table ''POST'' ''/sleep/5'' = Ret (None, False)"
    using hash_lookup_ends [OF sleep_table_wf, of "''POST''" "''/sleep/5''"]
    by (auto simp: sleep_table_eqs)
  then show ?thesis
    by (simp add: route_table_find_def sleep_table_eqs scan_prefix.simps(2) path_matches_prefix_def
        starts_with_def no_result_def build_allow_for_path_def)
qed

lemma route_table_find_405_witness:
  "\<exists>e. find (prefix_matches ''/sleep/5'') (rt_prefix sleep_table) = Some e \<and>
     ''POST'' \<notin> set (methods_for (rt_prefix sleep_table) (re_path e)) \<and>
     ''GET'' = take 255 (comma_join (methods_for (rt_prefix sleep_table) (re_path e)))"
  using route_table_find_405 [OF sleep_table_wf _ _ _ sleep_table_post]
  by (auto simp: sleep_table_eqs)

lemma count_errors_0:
  "count_errors es = 0 \<longleftrightarrow> (\<forall>e \<in> set es. re_handler e \<noteq> HANDLER_NONE) \<and> distinct (map key_of es)"
proof (induction es)
  case (Cons a es)
  have "filter (same_route (re_method a) (re_path a)) es = [] \<longleftrightarrow> key_of a \<notin> key_of ` set es"
    by (auto simp: filter_empty_conv same_route_def key_of_def image_iff)
  then show ?case using Cons.IH by auto
qed simp

text \<open>
  Validation accepts a table exactly when every route has a known handler and no two exact
  routes, and no two prefix routes, share method and pattern.
\<close>
theorem route_table_validate_iff:
  "route_table_validate rt = 0 \<longleftrightarrow>
     HANDLER_NONE \<notin> re_handler ` (set (rt_exact rt) \<union> set (rt_prefix rt))
     \<and> distinct (map key_of (rt_exact rt)) \<and> distinct (map key_of (rt_prefix rt))"
proof -
  have "route_table_validate rt = 0 \<longleftrightarrow> count_errors (rt_exact rt) = 0 \<and> count_errors (rt_prefix rt) = 0"
    by (simp add: route_table_validate_def)
  moreover have "HANDLER_NONE \<notin> re_handler ` A \<longleftrightarrow> (\<forall>e \<in> A. re_handler e \<noteq> HANDLER_NONE)" for A
    by (metis image_iff)
  ultimately show ?thesis unfolding count_errors_0 by blast
qed

end
