(* ===== verification/Default_Routes.thy ===== *)
theory Default_Routes
  imports Route_Table
begin

text \<open>
  Tables built by a sequence of registrations, and the built-in table of
  \<open>route_table_populate_defaults\<close> (\<open>src/request_handler.c\<close>): its hash table is computed here
  slot by slot, so that lookups in it can be evaluated.
\<close>

type_synonym route_spec = "string \<times> string \<times> match_type \<times> handler_type"

definition entry_of :: "route_spec \<Rightarrow> route_entry" where
  "entry_of = (\<lambda>(meth, path, mt, h). mk_entry meth path mt h [] [])"

definition add_route :: "route_table \<Rightarrow> route_spec \<Rightarrow> route_table run" where
  \<comment> \<open>the callers ignore the return code, and a failed call changes nothing\<close>
  "add_route rt = (\<lambda>(meth, path, mt, h).
     bind_run (route_table_add rt meth path mt h [] [])
       (\<lambda>r. Ret (case r of None \<Rightarrow> rt | Some rt' \<Rightarrow> rt')))"

fun add_routes :: "route_table \<Rightarrow> route_spec list \<Rightarrow> route_table run" where
  "add_routes rt [] = Ret rt"
| "add_routes rt (s # ss) = bind_run (add_route rt s) (\<lambda>rt'. add_routes rt' ss)"

definition exact_defaults :: "route_spec list" where
  "exact_defaults =
    [(''GET'', ''/hello'', MATCH_EXACT, HANDLER_HELLO),
     (''GET'', ''/help'', MATCH_EXACT, HANDLER_HELP),
     (''GET'', ''/users'', MATCH_EXACT, HANDLER_USER_LIST),
     (''POST'', ''/users'', MATCH_EXACT, HANDLER_USER_ADD),
     (''GET'', ''/search'', MATCH_EXACT, HANDLER_SEARCH),
     (''POST'', ''/search'', MATCH_EXACT, HANDLER_SEARCH),
     (''GET'', ''/logout'', MATCH_EXACT, HANDLER_LOGOUT),
     (''POST'', ''/logout'', MATCH_EXACT, HANDLER_LOGOUT),
     (''POST'', ''/delete'', MATCH_EXACT, HANDLER_DELETE_FORM),
     (''GET'', ''/blog'', MATCH_EXACT, HANDLER_BLOG),
     (''HEAD'', ''/blog'', MATCH_EXACT, HANDLER_BLOG),
     (''GET'', ''/'', MATCH_EXACT, HANDLER_INDEX),
     (''HEAD'', ''/'', MATCH_EXACT, HANDLER_INDEX)]"

definition prefix_defaults :: "route_spec list" where
  "prefix_defaults =
    [(''GET'', ''/users/find-index/'', MATCH_PREFIX, HANDLER_USER_FIND_INDEX),
     (''GET'', ''/users/compare-verbose/'', MATCH_PREFIX, HANDLER_USER_COMPARE_VERBOSE),
     (''GET'', ''/users/compare/'', MATCH_PREFIX, HANDLER_USER_COMPARE),
     (''GET'', ''/users/'', MATCH_PREFIX, HANDLER_USER_BY_NAME),
     (''DELETE'', ''/users/'', MATCH_PREFIX, HANDLER_USER_DELETE),
     (''GET'', ''/user/'', MATCH_PREFIX, HANDLER_USER_SIMPLE_FIND),
     (''GET'', ''/sleep/'', MATCH_PREFIX, HANDLER_SLEEP),
     (''GET'', ''/blog/'', MATCH_PREFIX, HANDLER_BLOG),
     (''HEAD'', ''/blog/'', MATCH_PREFIX, HANDLER_BLOG),
     (''GET'', ''/'', MATCH_PREFIX, HANDLER_STATIC),
     (''HEAD'', ''/'', MATCH_PREFIX, HANDLER_STATIC)]"

definition route_table_populate_defaults :: "route_table \<Rightarrow> route_table run" where
  "route_table_populate_defaults rt = add_routes rt (exact_defaults @ prefix_defaults)"

lemma add_routes_append:
  "add_routes rt (xs @ ys) = bind_run (add_routes rt xs) (\<lambda>rt'. add_routes rt' ys)"
proof (induction xs arbitrary: rt)
  case (Cons x xs)
  then show ?case by (cases "add_route rt x") auto
qed simp

lemma add_routes_wf: "rt_wf rt \<Longrightarrow> \<exists>rt'. add_routes rt ss = Ret rt' \<and> rt_wf rt'"
proof (induction ss arbitrary: rt)
  case (Cons s ss)
  obtain meth path mt h where s: "s = (meth, path, mt, h)" by (cases s)
  obtain rt1 where "add_route rt s = Ret rt1" "rt_wf rt1"
    using rt_wf_add [OF Cons.prems, of meth path mt h "[]" "[]"] Cons.prems
    by (auto simp: add_route_def s split: option.split)
  then show ?case using Cons.IH [of rt1] by simp
qed simp

subsection \<open>Evaluating the hash\<close>

lemma hash_key_step8: "hash_key meth path = foldl step8 5 (meth @ CHR '':'' # path)"
proof -
  have "hash_mask 5381 = 5" by code_simp
  then show ?thesis by (simp add: hash_key_def hash_mask_djb2 hash_mask_step)
qed

lemmas hash_eval = hash_key_step8 step8_def char_code_def

fun place :: "nat list \<Rightarrow> nat \<Rightarrow> slots \<Rightarrow> slots run" where
  "place [] i g = Ret g"
| "place (h # hs) i g = (case probe HASH_SIZE (\<lambda>_. False) g h of
      None \<Rightarrow> Loops | Some s \<Rightarrow> place hs (i + 1) (g[s := Some i]))"

lemma hash_insert_from_place:
  "i + n = length es \<Longrightarrow> hash_insert_from es i n g = place (map entry_home (drop i es)) i g"
proof (induction n arbitrary: i g)
  case (Suc n)
  then have "drop i es = es ! i # drop (Suc i) es" by (simp add: Cons_nth_drop_Suc)
  then show ?case using Suc by (auto simp: hash_insert_def split: option.split)
qed simp

lemma hash_rebuild_place: "hash_rebuild es = place (map entry_home es) 0 empty_slots"
  by (simp add: hash_rebuild_def hash_insert_from_place)

subsection \<open>What a batch of registrations builds\<close>

definition fresh_specs :: "match_type \<Rightarrow> route_spec list \<Rightarrow> bool" where
  \<comment> \<open>new routes of one kind, that fit their fields\<close>
  "fresh_specs mt ss \<longleftrightarrow>
     (\<forall>(meth, path, mt', h) \<in> set ss. mt' = mt \<and> length meth < 16 \<and> length path < 256)
     \<and> distinct (map (\<lambda>(meth, path, mt', h). (path, meth)) ss)"

lemma entry_of_fresh:
  "fresh_specs mt ss \<Longrightarrow> (meth, path, mt', h) \<in> set ss \<Longrightarrow>
     re_path (entry_of (meth, path, mt', h)) = path \<and> re_method (entry_of (meth, path, mt', h)) = meth"
  by (auto simp: fresh_specs_def entry_of_def mk_entry_def copy_text_id)

lemma not_same_route:
  assumes "fresh_specs mt (xs @ (meth, path, mt', h) # ys)"
  shows "\<not> list_ex (same_route meth path) (map entry_of xs)"
proof
  assume "list_ex (same_route meth path) (map entry_of xs)"
  then obtain x where x: "x \<in> set xs" "same_route meth path (entry_of x)"
    by (auto simp: list_ex_iff)
  obtain m p t k where "x = (m, p, t, k)" by (cases x)
  then have "m = meth" "p = path"
    using x entry_of_fresh [OF assms, of m p t k] by (auto simp: same_route_def)
  then have "(path, meth) \<in> (\<lambda>(meth, path, mt', h). (path, meth)) ` set xs"
    using x(1) \<open>x = _\<close> by (intro rev_image_eqI [OF x(1)]) simp
  then show False using assms by (simp add: fresh_specs_def)
qed

lemma add_routes_exact:
  assumes "fresh_specs MATCH_EXACT (xs @ ys)" and "length xs + length ys \<le> MAX_ROUTES"
    and "hash_rebuild (map entry_of xs) = Ret g" and "hash_rebuild (map entry_of (xs @ ys)) = Ret g'"
  shows "add_routes \<lparr>rt_exact = map entry_of xs, rt_prefix = ps, rt_hash = g\<rparr> ys
    = Ret \<lparr>rt_exact = map entry_of (xs @ ys), rt_prefix = ps, rt_hash = g'\<rparr>"
  using assms
proof (induction ys arbitrary: xs g)
  case Nil
  then show ?case by simp
next
  case (Cons y ys)
  obtain meth path mt h where y: "y = (meth, path, mt, h)" by (cases y)
  have "mt = MATCH_EXACT" using Cons.prems(1) y by (auto simp: fresh_specs_def)
  obtain g1 where g1: "hash_rebuild (map entry_of (xs @ [y])) = Ret g1"
    using hash_rebuild_wf [of "map entry_of (xs @ [y])"] Cons.prems(2) by auto
  have "add_route \<lparr>rt_exact = map entry_of xs, rt_prefix = ps, rt_hash = g\<rparr> y
      = Ret \<lparr>rt_exact = map entry_of (xs @ [y]), rt_prefix = ps, rt_hash = g1\<rparr>"
    using not_same_route Cons.prems(1,2) g1
    by (simp add: add_route_def route_table_add_def y \<open>mt = _\<close> Let_def) (simp add: entry_of_def)
  then show ?case using Cons.IH [of "xs @ [y]" g1] Cons.prems g1 by simp
qed

lemma add_routes_prefix:
  assumes "fresh_specs MATCH_PREFIX (xs @ ys)" and "length xs + length ys \<le> MAX_ROUTES"
  shows "add_routes \<lparr>rt_exact = es, rt_prefix = map entry_of xs, rt_hash = g\<rparr> ys
    = Ret \<lparr>rt_exact = es, rt_prefix = map entry_of (xs @ ys), rt_hash = g\<rparr>"
  using assms
proof (induction ys arbitrary: xs)
  case Nil
  then show ?case by simp
next
  case (Cons y ys)
  obtain meth path mt h where y: "y = (meth, path, mt, h)" by (cases y)
  have "mt = MATCH_PREFIX" using Cons.prems(1) y by (auto simp: fresh_specs_def)
  then have "add_route \<lparr>rt_exact = es, rt_prefix = map entry_of xs, rt_hash = g\<rparr> y
      = Ret \<lparr>rt_exact = es, rt_prefix = map entry_of (xs @ [y]), rt_hash = g\<rparr>"
    using not_same_route Cons.prems(1,2)
    by (simp add: add_route_def route_table_add_def y) (simp add: entry_of_def)
  then show ?case using Cons.IH [of "xs @ [y]"] Cons.prems by simp
qed

definition default_slots :: slots where
  "default_slots = empty_slots
     [66 := Some 0, 119 := Some 1, 32 := Some 2, 38 := Some 3, 164 := Some 4, 106 := Some 5,
      40 := Some 6, 238 := Some 7, 7 := Some 8, 82 := Some 9, 165 := Some 10, 14 := Some 11,
      96 := Some 12]"

definition default_table :: route_table where
  "default_table = \<lparr>rt_exact = map entry_of exact_defaults, rt_prefix = map entry_of prefix_defaults,
     rt_hash = default_slots\<rparr>"

lemma fresh_defaults: "fresh_specs MATCH_EXACT exact_defaults" "fresh_specs MATCH_PREFIX prefix_defaults"
  by (simp_all add: fresh_specs_def exact_defaults_def prefix_defaults_def)

lemma home_mk_entry:
  "length meth < 16 \<Longrightarrow> length path < 256 \<Longrightarrow> entry_home (mk_entry meth path mt h r l) = hash_key meth path"
  by (simp add: entry_home_def mk_entry_def copy_text_id)

lemma default_homes:
  "map entry_home (map entry_of exact_defaults) =
     [66, 119, 32, 38, 164, 106, 40, 238, 7, 82, 164, 14, 96]"
  by (simp add: exact_defaults_def entry_of_def home_mk_entry hash_eval)

lemma populate_defaults_table:
  "route_table_populate_defaults route_table_init = Ret default_table"
proof -
  have "hash_rebuild (map entry_of exact_defaults) = Ret default_slots"
    unfolding hash_rebuild_place default_homes default_slots_def
    by (simp add: slot_eval del: One_nat_def)
  then have "add_routes route_table_init exact_defaults =
      Ret \<lparr>rt_exact = map entry_of exact_defaults, rt_prefix = [], rt_hash = default_slots\<rparr>"
    using add_routes_exact [of "[]" exact_defaults empty_slots default_slots "[]"] fresh_defaults(1)
    by (simp add: route_table_init_def hash_rebuild_def exact_defaults_def)
  then show ?thesis
    using add_routes_prefix [of "[]" prefix_defaults] fresh_defaults(2)
    by (simp add: route_table_populate_defaults_def add_routes_append default_table_def prefix_defaults_def)
qed

subsection \<open>Lookups in the built-in table\<close>

definition handled_by :: "route_table \<Rightarrow> string \<Rightarrow> string \<Rightarrow> handler_type \<Rightarrow> string \<Rightarrow> bool" where
  "handled_by rt meth path h cap =
     (case route_table_find rt meth path of
        Loops \<Rightarrow> False
      | Ret r \<Rightarrow> map_option re_handler (fr_entry r) = Some h \<and> fr_captured r = cap)"

lemma default_slots_nth:
  "s < 256 \<Longrightarrow> default_slots ! s =
     (case map_of [(66, 0), (119, 1), (32, 2), (38, 3), (164, 4), (106, 5), (40, 6), (238, 7),
        (7, 8), (82, 9), (165, 10), (14, 11), (96, 12)] s of None \<Rightarrow> None | Some i \<Rightarrow> Some i)"
  by (simp add: default_slots_def nth_list_update)

lemma default_exact_found:
  "list_all (\<lambda>(meth, path, mt, h). handled_by default_table meth path h []) exact_defaults"
  unfolding exact_defaults_def
  by (simp add: handled_by_def route_table_find_def hash_lookup_def hash_eval slot_eval
      default_slots_nth default_table_def exact_defaults_def entry_of_def mk_entry_def copy_text_def
      no_result_def nth_Cons' del: One_nat_def)

lemma default_table_wf: "rt_wf default_table"
  using add_routes_wf [OF rt_wf_init, of "exact_defaults @ prefix_defaults"] populate_defaults_table
  by (simp add: route_table_populate_defaults_def)

text \<open>A path that is no exact route is left to the prefix routes.\<close>

lemma find_by_prefix:
  assumes "rt_wf rt" and "\<forall>e \<in> set (rt_exact rt). re_path e \<noteq> path"
    and "first_prefix meth path (rt_prefix rt) = Some e"
  shows "handled_by rt meth path (re_handler e) (captured_tail path e)"
proof -
  have "hash_lookup rt meth path = Ret (None, False)"
    using hash_lookup_ends [OF assms(1), of meth path] assms(2) by (metis nth_mem option.exhaust)
  then show ?thesis
    using scan_prefix_Some [OF assms(3), of rt no_result]
    by (simp add: handled_by_def route_table_find_def)
qed

lemma no_prefix_slash:
  "CHR ''/'' \<notin> set t \<Longrightarrow> CHR ''/'' \<in> set p \<Longrightarrow> \<not> prefix p t"
  by (auto dest: set_mono_prefix)

lemma default_first_prefix:
  "CHR ''/'' \<notin> set tail \<Longrightarrow> list_all (\<lambda>(meth, path, mt, h).
      map_option (\<lambda>e. (re_handler e, re_path e)) (first_prefix meth (path @ tail) (rt_prefix default_table))
        = Some (h, path)) (take 9 prefix_defaults)"
  by (simp add: default_table_def prefix_defaults_def entry_of_def mk_entry_def copy_text_def
      first_prefix_def prefix_matches_def no_prefix_slash)

lemma default_not_exact:
  "list_all (\<lambda>(meth, path, mt, h). list_all (\<lambda>e. re_path e \<noteq> path @ tail) (rt_exact default_table))
     (take 9 prefix_defaults)"
  by (simp add: default_table_def exact_defaults_def prefix_defaults_def entry_of_def mk_entry_def
      copy_text_def)

lemma default_prefix_found:
  assumes "CHR ''/'' \<notin> set tail"
  shows "list_all (\<lambda>(meth, path, mt, h). handled_by default_table meth (path @ tail) h (take 255 tail))
    (take 9 prefix_defaults)"
proof -
  have "handled_by default_table meth (path @ tail) h (take 255 tail)"
    if s: "(meth, path, mt, h) \<in> set (take 9 prefix_defaults)" for meth path mt h
  proof -
    have "\<forall>e \<in> set (rt_exact default_table). re_path e \<noteq> path @ tail"
      using default_not_exact s by (fastforce simp: list_all_iff)
    moreover obtain e where "first_prefix meth (path @ tail) (rt_prefix default_table) = Some e"
      "re_handler e = h" "re_path e = path"
      using default_first_prefix [OF assms] s by (fastforce simp: list_all_iff)
    ultimately show ?thesis
      using find_by_prefix [OF default_table_wf, of "path @ tail" meth e]
      by (simp add: captured_tail_def)
  qed
  then show ?thesis by (auto simp: list_all_iff)
qed

text \<open>
  The built-in table serves every one of its routes: the registrations succeed, each of the
  13 exact routes is found by its own method and path, and each parameter route
  (\<open>/users/\<close>, \<open>/users/compare/\<close>, \<open>/sleep/\<close>, ...) serves every path that is its pattern followed by
  one segment, and hands that segment, cut to 255 bytes, to its own handler.
\<close>
theorem default_routes_served:
  assumes "CHR ''/'' \<notin> set tail"
  shows "\<exists>rt. route_table_populate_defaults route_table_init = Ret rt \<and> rt_wf rt
    \<and> list_all (\<lambda>(meth, path, mt, h). handled_by rt meth path h []) exact_defaults
    \<and> list_all (\<lambda>(meth, path, mt, h). handled_by rt meth (path @ tail) h (take 255 tail))
        (take 9 prefix_defaults)"
  using populate_defaults_table default_table_wf default_exact_found default_prefix_found [OF assms]
  by blast

lemma default_routes_served_witness:
  "\<exists>rt. route_table_populate_defaults route_table_init = Ret rt
    \<and> handled_by rt ''GET'' ''/users/compare/bob'' HANDLER_USER_COMPARE ''bob''"
  using default_routes_served [of "''bob''"] by (auto simp: prefix_defaults_def)

text \<open>
  A registered exact route can be shadowed by another method on the same path: the probe
  stops at the first entry with the path, whatever its method.  After \<open>GET /hj\<close>,
  \<open>HEAD /\<close> and \<open>DELETE /\<close> are registered (all successfully), a \<open>DELETE /\<close> request is answered
  405, with an \<open>Allow\<close> header that names \<open>DELETE\<close>.
\<close>
theorem route_table_find_shadowed:
  "\<exists>rt r. add_routes route_table_init
       [(''GET'', ''/hj'', MATCH_EXACT, HANDLER_HELLO), (''HEAD'', ''/'', MATCH_EXACT, HANDLER_INDEX),
        (''DELETE'', ''/'', MATCH_EXACT, HANDLER_DELETE_FORM)] = Ret rt
     \<and> (\<exists>e \<in> set (rt_exact rt). re_method e = ''DELETE'' \<and> re_path e = ''/'')
     \<and> route_table_find rt ''DELETE'' ''/'' = Ret r
     \<and> fr_entry r = None \<and> fr_is_405 r \<and> fr_allow r = ''HEAD, DELETE''"
  by (simp add: add_route_def route_table_add_def mk_entry_def route_table_init_def
      hash_rebuild_place entry_home_def slot_eval hash_eval same_route_def copy_text_def
      route_table_find_def hash_lookup_def no_result_def build_allow_for_path_def nth_Cons'
      del: One_nat_def)

end
