(* ===== verification/Session.thy ===== *)
theory Session
  imports Hash_Probe
begin

text \<open>
  The session store of \<open>src/session.c\<close>: 1024 session records and the hash table of 256 slots
  that finds them by id.  \<open>sess_state\<close> holds \<open>g_sessions[]\<close> and \<open>g_hash[]\<close>; what the code reads
  from \<open>/dev/urandom\<close> (or computes from the clock when that cannot be opened) and every reading
  of \<open>time(NULL)\<close> are arguments, the time as an integer.
\<close>

record session =
  se_id :: string
  se_user :: string
  se_role :: string
  se_created :: int
  se_expires :: int
  se_used :: bool

record sess_state =
  ss_sessions :: "session list"
  ss_hash :: slots

abbreviation MAX_SESSIONS :: nat where "MAX_SESSIONS \<equiv> 1024"
abbreviation SESSION_TTL :: int where "SESSION_TTL \<equiv> 3600"

definition hash_id :: "string \<Rightarrow> nat" where
  "hash_id s = hash_mask (djb2 5381 s)"

interpretation session_hash: hash_slots hash_id
  by unfold_locales (simp add: hash_id_def)

subsection \<open>Tokens\<close>

definition hex_digits :: string where
  "hex_digits = ''0123456789abcdef''"

fun hex_encode :: "byte list \<Rightarrow> string" where
  "hex_encode [] = []"
| "hex_encode (b # bs) =
     hex_digits ! unat (drop_bit 4 b) # hex_digits ! unat (take_bit 4 b) # hex_encode bs"

fun fallback_bytes :: "nat \<Rightarrow> 32 word \<Rightarrow> byte list" where
  \<comment> \<open>the linear congruential generator used when \<open>/dev/urandom\<close> cannot be opened\<close>
  "fallback_bytes 0 seed = []"
| "fallback_bytes (Suc n) seed =
     (let seed' = seed * 1103515245 + 12345
      in ucast (drop_bit 16 seed') # fallback_bytes n seed')"

definition random_bytes :: "byte list option \<Rightarrow> 32 word \<Rightarrow> byte list" where
  \<comment> \<open>the bytes read, or \<open>None\<close> when the device cannot be opened; \<open>seed\<close> is time xor pid\<close>
  "random_bytes dev seed = (case dev of Some bs \<Rightarrow> take 32 bs | None \<Rightarrow> fallback_bytes 32 seed)"

subsection \<open>Operations\<close>

definition no_session :: session where
  "no_session = \<lparr>se_id = [], se_user = [], se_role = [], se_created = 0, se_expires = 0, se_used = False\<rparr>"

definition session_init :: sess_state where
  "session_init = \<lparr>ss_sessions = replicate MAX_SESSIONS no_session, ss_hash = empty_slots\<rparr>"

definition owns :: "session list \<Rightarrow> string \<Rightarrow> nat \<Rightarrow> bool" where
  "owns ss sid i \<longleftrightarrow> se_used (ss ! i) \<and> se_id (ss ! i) = sid"

definition release :: "nat \<Rightarrow> sess_state \<Rightarrow> sess_state" where
  \<comment> \<open>\<open>s->used = 0\<close>\<close>
  "release i st = st\<lparr>ss_sessions := (ss_sessions st)[i := (ss_sessions st ! i)\<lparr>se_used := False\<rparr>]\<rparr>"

definition session_destroy :: "string \<Rightarrow> sess_state \<Rightarrow> sess_state run" where
  "session_destroy sid st =
     (case probe HASH_SIZE (owns (ss_sessions st) sid) (ss_hash st) (hash_id sid) of
        None \<Rightarrow> Loops
      | Some h \<Rightarrow>
          (case ss_hash st ! h of
             None \<Rightarrow> Ret st
           | Some i \<Rightarrow> Ret ((release i st)\<lparr>ss_hash := (ss_hash st)[h := None]\<rparr>)))"

definition cleanup_one :: "int \<Rightarrow> nat \<Rightarrow> sess_state \<Rightarrow> sess_state run" where
  "cleanup_one now i st =
     (let s = ss_sessions st ! i
      in if se_used s \<and> now > se_expires s
         then (case probe HASH_SIZE (\<lambda>j. j = i) (ss_hash st) (hash_id (se_id s)) of
                 None \<Rightarrow> Loops
               | Some h \<Rightarrow>
                   Ret (release i
                     (if ss_hash st ! h = Some i then st\<lparr>ss_hash := (ss_hash st)[h := None]\<rparr> else st)))
         else Ret st)"

fun cleanup_from :: "int \<Rightarrow> nat \<Rightarrow> nat \<Rightarrow> sess_state \<Rightarrow> sess_state run" where
  \<comment> \<open>the loop from index \<open>i\<close>, with \<open>n\<close> iterations to go\<close>
  "cleanup_from now i 0 st = Ret st"
| "cleanup_from now i (Suc n) st = bind_run (cleanup_one now i st) (cleanup_from now (Suc i) n)"

definition session_cleanup_expired :: "int \<Rightarrow> sess_state \<Rightarrow> sess_state run" where
  "session_cleanup_expired now st = cleanup_from now 0 MAX_SESSIONS st"

fun first_free :: "session list \<Rightarrow> nat option" where
  "first_free [] = None"
| "first_free (s # ss) = (if \<not> se_used s then Some 0 else map_option Suc (first_free ss))"

definition new_session :: "string \<Rightarrow> string \<Rightarrow> string \<Rightarrow> int \<Rightarrow> session" where
  "new_session token user role now =
     \<lparr>se_id = copy_text 65 token, se_user = copy_text 64 user, se_role = copy_text 32 role,
      se_created = now, se_expires = now + SESSION_TTL, se_used = True\<rparr>"

definition session_fill ::
    "string \<Rightarrow> string \<Rightarrow> string \<Rightarrow> int \<Rightarrow> nat \<Rightarrow> sess_state \<Rightarrow> (string option \<times> sess_state) run" where
  "session_fill token user role now slot st =
     (let ss = (ss_sessions st)[slot := new_session token user role now]
      in case probe HASH_SIZE (\<lambda>_. False) (ss_hash st) (hash_id token) of
           None \<Rightarrow> Loops
         | Some h \<Rightarrow> Ret (Some (se_id (ss ! slot)),
                         st\<lparr>ss_sessions := ss, ss_hash := (ss_hash st)[h := Some slot]\<rparr>))"

definition session_create ::
    "byte list \<Rightarrow> string \<Rightarrow> string \<Rightarrow> int \<Rightarrow> int \<Rightarrow> int \<Rightarrow> sess_state
      \<Rightarrow> (string option \<times> sess_state) run" where
  \<comment> \<open>the clock is read at the first cleanup, the second one, and to stamp the session\<close>
  "session_create rnd user role t1 t2 t3 st =
     bind_run (session_cleanup_expired t1 st) (\<lambda>st1.
       case first_free (ss_sessions st1) of
         Some slot \<Rightarrow> session_fill (hex_encode rnd) user role t3 slot st1
       | None \<Rightarrow>
           bind_run (session_cleanup_expired t2 st1) (\<lambda>st2.
             case first_free (ss_sessions st2) of
               Some slot \<Rightarrow> session_fill (hex_encode rnd) user role t3 slot st2
             | None \<Rightarrow> Ret (None, st2)))"

definition session_lookup :: "string \<Rightarrow> int \<Rightarrow> sess_state \<Rightarrow> (session option \<times> sess_state) run" where
  "session_lookup sid now st =
     (if sid = [] then Ret (None, st)
      else case probe HASH_SIZE (owns (ss_sessions st) sid) (ss_hash st) (hash_id sid) of
             None \<Rightarrow> Loops
           | Some h \<Rightarrow>
               (case ss_hash st ! h of
                  None \<Rightarrow> Ret (None, st)
                | Some i \<Rightarrow>
                    if now > se_expires (ss_sessions st ! i)
                    then bind_run (session_destroy sid st) (\<lambda>st'. Ret (None, st'))
                    else Ret (Some (ss_sessions st ! i), st)))"

subsection \<open>Invariant\<close>

definition sess_wf :: "sess_state \<Rightarrow> bool" where
  "sess_wf st \<longleftrightarrow> length (ss_sessions st) = MAX_SESSIONS \<and> length (ss_hash st) = HASH_SIZE
     \<and> (\<forall>h < HASH_SIZE. \<forall>i. ss_hash st ! h = Some i \<longrightarrow> i < MAX_SESSIONS)"

definition ids_unique :: "sess_state \<Rightarrow> bool" where
  "ids_unique st \<longleftrightarrow> (\<forall>i < MAX_SESSIONS. \<forall>j < MAX_SESSIONS.
     se_used (ss_sessions st ! i) \<and> owns (ss_sessions st) (se_id (ss_sessions st ! i)) j \<longrightarrow> i = j)"

definition has_free :: "sess_state \<Rightarrow> bool" where
  "has_free st \<longleftrightarrow> occupied (ss_hash st) < HASH_SIZE"

lemma sess_wf_init: "sess_wf session_init \<and> has_free session_init \<and> ids_unique session_init"
  by (simp add: sess_wf_def session_init_def has_free_def ids_unique_def no_session_def)

lemma free_probe_ends:
  assumes "sess_wf st" and "has_free st"
  shows "\<exists>h. probe HASH_SIZE stop (ss_hash st) (hash_id sid) = Some h \<and> h < HASH_SIZE"
proof -
  obtain f where f: "f < HASH_SIZE" "ss_hash st ! f = None"
    using assms occupied_free [of "ss_hash st"] by (auto simp: sess_wf_def has_free_def)
  have "hash_id sid < HASH_SIZE" by (rule session_hash.hash_bound)
  from probe_ends_if_free [OF this f] show ?thesis .
qed

lemma release_simps [simp]:
  "ss_hash (release i st) = ss_hash st"
  "length (ss_sessions (release i st)) = length (ss_sessions st)"
  by (simp_all add: release_def)

lemma sess_wf_clear: "sess_wf st \<Longrightarrow> sess_wf (st\<lparr>ss_hash := (ss_hash st)[h := None]\<rparr>)"
  unfolding sess_wf_def
  by (simp, intro allI impI) (metis nth_list_update_eq nth_list_update_neq option.distinct(1))

lemma sess_wf_release: "sess_wf (release i st) \<longleftrightarrow> sess_wf st"
  by (simp add: sess_wf_def)

lemma release_clear:
  "(release i st)\<lparr>ss_hash := g\<rparr> = release i (st\<lparr>ss_hash := g\<rparr>)"
  by (simp add: release_def)

lemma session_destroy_wf:
  assumes "session_destroy sid st = Ret st'" and "sess_wf st"
  shows "sess_wf st'" and "occupied (ss_hash st') \<le> occupied (ss_hash st)"
  using assms sess_wf_clear [OF assms(2)]
  by (auto simp: session_destroy_def sess_wf_release release_clear occupied_clear_le
      split: option.splits)

lemma session_destroy_ends: "sess_wf st \<Longrightarrow> has_free st \<Longrightarrow> \<exists>st'. session_destroy sid st = Ret st'"
  using free_probe_ends [of st "owns (ss_sessions st) sid" sid]
  by (auto simp: session_destroy_def split: option.split)

lemma cleanup_one_ends:
  assumes "sess_wf st" and "has_free st"
  shows "\<exists>st'. cleanup_one now i st = Ret st' \<and> sess_wf st' \<and> has_free st'"
proof -
  obtain h where "probe HASH_SIZE (\<lambda>j. j = i) (ss_hash st) (hash_id (se_id (ss_sessions st ! i))) = Some h"
    using free_probe_ends [OF assms] by blast
  moreover have "occupied ((ss_hash st)[h := None]) < HASH_SIZE"
    using occupied_clear_le [of "ss_hash st" h] assms(2) by (simp add: has_free_def)
  moreover have "sess_wf (st\<lparr>ss_hash := (ss_hash st)[h := None]\<rparr>)"
    by (rule sess_wf_clear [OF assms(1)])
  ultimately show ?thesis
    using assms by (auto simp: cleanup_one_def Let_def sess_wf_release has_free_def)
qed

lemma cleanup_from_ends:
  "sess_wf st \<Longrightarrow> has_free st \<Longrightarrow> \<exists>st'. cleanup_from now i n st = Ret st' \<and> sess_wf st' \<and> has_free st'"
proof (induction n arbitrary: i st)
  case (Suc n)
  then obtain st1 where "cleanup_one now i st = Ret st1" "sess_wf st1" "has_free st1"
    using cleanup_one_ends by blast
  then show ?case using Suc.IH [of st1 "Suc i"] by simp
qed simp

lemma session_cleanup_ends:
  "sess_wf st \<Longrightarrow> has_free st \<Longrightarrow>
     \<exists>st'. session_cleanup_expired now st = Ret st' \<and> sess_wf st' \<and> has_free st'"
  by (simp add: session_cleanup_expired_def cleanup_from_ends)


text \<open>Clean-up and destruction only ever release sessions.\<close>

definition only_releases :: "sess_state \<Rightarrow> sess_state \<Rightarrow> bool" where
  "only_releases st st' \<longleftrightarrow> length (ss_sessions st') = length (ss_sessions st) \<and>
     (\<forall>i < length (ss_sessions st). ss_sessions st' ! i = ss_sessions st ! i
        \<or> ss_sessions st' ! i = (ss_sessions st ! i)\<lparr>se_used := False\<rparr>)"

lemma only_releases_refl [simp]: "only_releases st st"
  by (simp add: only_releases_def)

lemma released_twice: "s\<lparr>se_used := False\<rparr>\<lparr>se_used := False\<rparr> = s\<lparr>se_used := False\<rparr>"
  by simp

lemma only_releases_trans: "only_releases st st1 \<Longrightarrow> only_releases st1 st2 \<Longrightarrow> only_releases st st2"
  unfolding only_releases_def by (metis (no_types, lifting) released_twice)

lemma only_releases_release: "only_releases st (release i (st\<lparr>ss_hash := g\<rparr>))"
  unfolding only_releases_def release_def by (simp, metis nth_list_update_eq nth_list_update_neq)

lemma cleanup_one_releases: "cleanup_one now i st = Ret st' \<Longrightarrow> only_releases st st'"
  using only_releases_release [of st i] only_releases_release [of st i "ss_hash st"]
  by (auto simp: cleanup_one_def Let_def split: option.splits if_splits)

lemma cleanup_from_releases: "cleanup_from now i n st = Ret st' \<Longrightarrow> only_releases st st'"
proof (induction n arbitrary: i st)
  case (Suc n)
  then show ?case
    using cleanup_one_releases only_releases_trans by (auto simp: bind_run_Ret_iff) blast
qed simp

lemma only_releases_owns:
  "only_releases st st' \<Longrightarrow> i < length (ss_sessions st) \<Longrightarrow> owns (ss_sessions st') sid i
    \<Longrightarrow> owns (ss_sessions st) sid i"
  unfolding only_releases_def owns_def by force

lemma first_free_Some:
  "first_free ss = Some i \<Longrightarrow> i < length ss \<and> \<not> se_used (ss ! i)"
  by (induction ss arbitrary: i) (auto split: if_splits)

lemma first_free_None: "first_free ss = None \<longleftrightarrow> (\<forall>s \<in> set ss. se_used s)"
  by (induction ss) auto


subsection \<open>Creating a session\<close>

lemma session_fill_ends:
  "sess_wf st \<Longrightarrow> has_free st \<Longrightarrow> \<exists>sid st'. session_fill token user role now slot st = Ret (Some sid, st')"
  using free_probe_ends [of st "\<lambda>_. False" token] by (auto simp: session_fill_def Let_def)

lemma session_create_cases:
  assumes "sess_wf st" and "has_free st"
    and "session_create rnd user role t1 t2 t3 st = Ret (Some sid, st')"
  shows "\<exists>slot st1. only_releases st st1 \<and> sess_wf st1 \<and> has_free st1 \<and> slot < MAX_SESSIONS
    \<and> \<not> se_used (ss_sessions st1 ! slot)
    \<and> session_fill (hex_encode rnd) user role t3 slot st1 = Ret (Some sid, st')"
proof -
  obtain st1 where st1: "session_cleanup_expired t1 st = Ret st1" "sess_wf st1" "has_free st1"
    using session_cleanup_ends [OF assms(1,2)] by blast
  then have r1: "only_releases st st1"
    unfolding session_cleanup_expired_def by (blast intro: cleanup_from_releases)
  show ?thesis
  proof (cases "first_free (ss_sessions st1)")
    case (Some slot)
    then have "session_fill (hex_encode rnd) user role t3 slot st1 = Ret (Some sid, st')"
      using assms(3) st1(1) by (simp add: session_create_def)
    then show ?thesis using st1 r1 first_free_Some [OF Some] by (auto simp: sess_wf_def)
  next
    case None
    obtain st2 where st2: "session_cleanup_expired t2 st1 = Ret st2" "sess_wf st2" "has_free st2"
      using session_cleanup_ends [OF st1(2,3)] by blast
    then have r2: "only_releases st st2"
      using r1 only_releases_trans
      unfolding session_cleanup_expired_def by (blast intro: cleanup_from_releases)
    obtain slot where slot: "first_free (ss_sessions st2) = Some slot"
        "session_fill (hex_encode rnd) user role t3 slot st2 = Ret (Some sid, st')"
      using assms(3) st1(1) st2(1) None by (auto simp: session_create_def split: option.splits)
    then show ?thesis using st2 r2 first_free_Some [OF slot(1)] by (auto simp: sess_wf_def)
  qed
qed

lemma session_create_ends:
  assumes "sess_wf st" and "has_free st"
  shows "\<exists>r st'. session_create rnd user role t1 t2 t3 st = Ret (r, st')"
proof -
  obtain st1 where st1: "session_cleanup_expired t1 st = Ret st1" "sess_wf st1" "has_free st1"
    using session_cleanup_ends [OF assms] by blast
  obtain st2 where st2: "session_cleanup_expired t2 st1 = Ret st2" "sess_wf st2" "has_free st2"
    using session_cleanup_ends [OF st1(2,3)] by blast
  show ?thesis
    using session_fill_ends [OF st1(2,3)] session_fill_ends [OF st2(2,3)]
    by (cases "first_free (ss_sessions st1)"; cases "first_free (ss_sessions st2)")
       (fastforce simp: session_create_def st1(1) st2(1))+
qed

lemma session_fill_wf:
  assumes "session_fill token user role now slot st = Ret (sid, st')" and "sess_wf st"
    and "slot < MAX_SESSIONS"
  shows "sess_wf st'"
proof -
  obtain h where h: "st' = st\<lparr>ss_sessions := (ss_sessions st)[slot := new_session token user role now],
      ss_hash := (ss_hash st)[h := Some slot]\<rparr>"
    using assms(1) by (auto simp: session_fill_def Let_def split: option.splits)
  have "i < MAX_SESSIONS" if "t < HASH_SIZE" "(ss_hash st)[h := Some slot] ! t = Some i" for t i
    using that assms(2,3) by (cases "t = h") (auto simp: sess_wf_def)
  then show ?thesis using assms(2) by (auto simp: h sess_wf_def)
qed

lemma length_hex_encode [simp]: "length (hex_encode bs) = 2 * length bs"
  by (induction bs) auto

lemma session_fill_lookup:
  assumes "sess_wf st" and "slot < MAX_SESSIONS" and "length token < 65" and "token \<noteq> []"
    and fresh: "\<forall>i < MAX_SESSIONS. \<not> owns (ss_sessions st) token i"
    and fill: "session_fill token user role t slot st = Ret (sid, st')" and "now \<le> t + SESSION_TTL"
  shows "sid = Some token \<and> session_lookup token now st' = Ret (Some (new_session token user role t), st')"
proof -
  let ?s = "new_session token user role t"
  let ?ss = "(ss_sessions st)[slot := ?s]"
  have len: "length (ss_sessions st) = MAX_SESSIONS" "length (ss_hash st) = HASH_SIZE"
    using assms(1) by (auto simp: sess_wf_def)
  have id: "se_id ?s = token" "se_used ?s" using assms(3) by (simp_all add: new_session_def copy_text_id)
  obtain h where h: "probe HASH_SIZE (\<lambda>_. False) (ss_hash st) (hash_id token) = Some h"
    and st': "sid = Some token" "st' = st\<lparr>ss_sessions := ?ss, ss_hash := (ss_hash st)[h := Some slot]\<rparr>"
    using fill id assms(2) len by (auto simp: session_fill_def Let_def split: option.splits)
  have "reaches (ss_hash st') (hash_id token) slot"
    using session_hash.insert_reaches [OF h len(2)] st' by simp
  moreover have own: "owns (ss_sessions st') token j \<longleftrightarrow> j = slot" if "j < MAX_SESSIONS" for j
    using that fresh id len assms(2) st' by (auto simp: owns_def nth_list_update)
  ultimately obtain k j where k: "probe HASH_SIZE (owns (ss_sessions st') token) (ss_hash st') (hash_id token) = Some k"
      "ss_hash st' ! k = Some j" "owns (ss_sessions st') token j"
    using session_hash.lookup_finds [of "ss_hash st'" token slot] assms(2) by blast
  have "k < HASH_SIZE" using session_hash.lookup_stops_at [OF k(1)] by simp
  then have "j < MAX_SESSIONS"
    using session_fill_wf [OF fill assms(1,2)] k(2) by (auto simp: sess_wf_def)
  then have "j = slot" using own k(3) by blast
  moreover have "ss_sessions st' ! slot = ?s" using st' len assms(2) by simp
  moreover have "\<not> now > se_expires ?s" using assms(7) by (simp add: new_session_def)
  ultimately show ?thesis using st'(1) k(1,2) assms(4) by (simp add: session_lookup_def)
qed

lemma created_session:
  assumes "sess_wf st" and "has_free st" and "length rnd = 32"
    and "\<forall>i < MAX_SESSIONS. \<not> owns (ss_sessions st) (hex_encode rnd) i"
    and "session_create rnd user role t1 t2 t3 st = Ret (Some sid, st')"
    and "now \<le> t3 + SESSION_TTL"
  shows "sid = hex_encode rnd \<and> sess_wf st' \<and>
    (\<exists>s. session_lookup sid now st' = Ret (Some s, st') \<and> se_user s = take 63 user
       \<and> se_role s = take 31 role \<and> se_expires s = t3 + SESSION_TTL)"
proof -
  obtain slot st1 where c: "only_releases st st1" "sess_wf st1" "slot < MAX_SESSIONS"
      "session_fill (hex_encode rnd) user role t3 slot st1 = Ret (Some sid, st')"
    using session_create_cases [OF assms(1,2,5)] by blast
  have fresh: "\<forall>i < MAX_SESSIONS. \<not> owns (ss_sessions st1) (hex_encode rnd) i"
    using assms(1,4) only_releases_owns [OF c(1)] by (auto simp: sess_wf_def)
  have "length (hex_encode rnd) < 65" "hex_encode rnd \<noteq> []"
    using assms(3) by (simp, cases rnd) auto
  from session_fill_lookup [OF c(2,3) this fresh c(4) assms(6)] session_fill_wf [OF c(4,2,3)]
  show ?thesis by (auto simp: new_session_def copy_text_def)
qed

text \<open>
  C12: a session that was created can be looked up: while the hash table has a free slot,
  creation ends, and when it gives a token that no live session has, looking that token up
  within the hour finds the session, with the user name and the role cut to their fields.
\<close>
theorem session_create_lookup:
  assumes "sess_wf st" and "has_free st" and "length rnd = 32"
    and "\<forall>i < MAX_SESSIONS. \<not> owns (ss_sessions st) (hex_encode rnd) i"
    and "session_create rnd user role t1 t2 t3 st = Ret (Some sid, st')"
    and "now \<le> t3 + SESSION_TTL"
  shows "sid = hex_encode rnd \<and> sess_wf st' \<and>
    (\<exists>s. session_lookup sid now st' = Ret (Some s, st') \<and> se_user s = take 63 user
       \<and> se_role s = take 31 role \<and> se_expires s = t3 + SESSION_TTL)"
  using assms by (rule created_session)


lemma no_owner_init: "i < MAX_SESSIONS \<Longrightarrow> \<not> owns (ss_sessions session_init) sid i"
  by (simp add: owns_def session_init_def no_session_def)

lemma create_at_init:
  assumes "length rnd = 32"
  shows "\<exists>st'. session_create rnd user role t1 t2 t3 session_init = Ret (Some (hex_encode rnd), st')"
proof -
  have c: "session_cleanup_expired t session_init = Ret session_init" for t
  proof -
    have "cleanup_from t i n session_init = Ret session_init" if "i + n \<le> MAX_SESSIONS" for i n
      using that
    proof (induction n arbitrary: i)
      case (Suc n)
      then show ?case by (simp add: cleanup_one_def session_init_def no_session_def)
    qed simp
    then show ?thesis by (simp add: session_cleanup_expired_def)
  qed
  have f: "first_free (ss_sessions session_init) = Some 0"
    by (simp add: session_init_def no_session_def numeral_eq_Suc)
  have "sess_wf session_init" "has_free session_init" using sess_wf_init by auto
  from session_fill_ends [OF this] obtain sid st' where
    fill: "session_fill (hex_encode rnd) user role t3 0 session_init = Ret (Some sid, st')" by blast
  have "hex_encode rnd \<noteq> []" "length (hex_encode rnd) < 65" using assms by (cases rnd, auto)+
  then have "sid = hex_encode rnd"
    using session_fill_lookup [OF _ _ _ _ _ fill, of t3] sess_wf_init no_owner_init by simp
  then show ?thesis using c f fill by (simp add: session_create_def)
qed

lemma session_create_lookup_witness:
  "\<exists>st' s. session_create (replicate 32 0) ''root'' ''admin'' 7 7 7 session_init
       = Ret (Some (hex_encode (replicate 32 0)), st')
     \<and> session_lookup (hex_encode (replicate 32 0)) 3607 st' = Ret (Some s, st')
     \<and> se_user s = ''root'' \<and> se_role s = ''admin''"
proof -
  obtain st' where st': "session_create (replicate 32 0) ''root'' ''admin'' 7 7 7 session_init
       = Ret (Some (hex_encode (replicate 32 0)), st')"
    using create_at_init [of "replicate 32 0" "''root''" "''admin''" 7 7 7] by auto
  show ?thesis
    using session_create_lookup [OF _ _ _ _ st', of 3607] sess_wf_init no_owner_init st' by auto
qed

subsection \<open>Tokens\<close>

definition unhex :: "char \<Rightarrow> nat" where
  "unhex c = (if isdigit_c c then char_code c - 48 else char_code c - 87)"

lemma unhex_digits: "i < 16 \<Longrightarrow> unhex (hex_digits ! i) = i"
proof -
  have "list_all (\<lambda>i. unhex (hex_digits ! i) = i) [0..<16]" by code_simp
  then show "i < 16 \<Longrightarrow> unhex (hex_digits ! i) = i" by (simp add: list_all_iff)
qed

lemma nibbles_less: "unat (drop_bit 4 (b :: byte)) < 16" "unat (take_bit 4 (b :: byte)) < 16"
proof -
  have "unat b < 256" using unsigned_less [of b] by simp
  then have "unat b div 16 < 16" by linarith
  then show "unat (drop_bit 4 b) < 16" by (simp only: unat_drop_bit_eq drop_bit_nat_def) simp
  have "unat (take_bit 4 b) = take_bit 4 (unat b)" by (rule unsigned_take_bit_eq)
  then show "unat (take_bit 4 b) < 16" using take_bit_nat_less_exp [of 4 "unat b"] by simp
qed

lemma hex_digit_in: "i < 16 \<Longrightarrow> hex_digits ! i \<in> set hex_digits"
  by (rule nth_mem) (simp add: hex_digits_def)

lemma nibbles_join: "push_bit 4 (drop_bit 4 (b :: byte)) + take_bit 4 b = b"
  by (metis add.commute bits_ident)

lemma hex_byte_inject:
  assumes "hex_digits ! unat (drop_bit 4 b) = hex_digits ! unat (drop_bit 4 c)"
    and "hex_digits ! unat (take_bit 4 b) = hex_digits ! unat (take_bit 4 (c :: byte))"
  shows "b = c"
proof -
  have "drop_bit 4 b = drop_bit 4 c" "take_bit 4 b = take_bit 4 c"
    using assms unhex_digits nibbles_less by (metis word_unat_eq_iff)+
  then show ?thesis by (metis nibbles_join)
qed

lemma hex_encode_inject: "hex_encode bs = hex_encode cs \<longleftrightarrow> bs = cs"
proof
  show "hex_encode bs = hex_encode cs \<Longrightarrow> bs = cs"
    by (induction bs arbitrary: cs; case_tac cs) (auto dest: hex_byte_inject)
qed simp

text \<open>
  Tokens are injective in the random bytes: two sessions get the same id only if they drew
  the same bytes, and an id is two characters out of \<open>0123456789abcdef\<close> per byte, so that
  none can be cut by the 65-byte field or contain a cookie separator.
\<close>
theorem hex_encode_injective:
  "inj hex_encode \<and> (\<forall>bs. length (hex_encode bs) = 2 * length bs
     \<and> list_all (\<lambda>c. c \<in> set hex_digits) (hex_encode bs))"
proof -
  have "list_all (\<lambda>c. c \<in> set hex_digits) (hex_encode bs)" for bs
    by (induction bs) (simp_all add: hex_digit_in nibbles_less)
  then show ?thesis by (auto simp: inj_def hex_encode_inject)
qed


subsection \<open>Lookup and destruction\<close>

lemma lookup_sound:
  assumes "sess_wf st" and "has_free st"
  shows "\<exists>r st'. session_lookup sid now st = Ret (r, st') \<and> sess_wf st' \<and> has_free st'
    \<and> (\<forall>s. r = Some s \<longrightarrow> st' = st \<and> s \<in> set (ss_sessions st)
         \<and> se_used s \<and> se_id s = sid \<and> now \<le> se_expires s)"
proof (cases "sid = []")
  case True
  then show ?thesis using assms by (auto simp: session_lookup_def)
next
  case False
  obtain h where h: "probe HASH_SIZE (owns (ss_sessions st) sid) (ss_hash st) (hash_id sid) = Some h"
      "h < HASH_SIZE"
    using free_probe_ends [OF assms] by blast
  obtain st1 where d: "session_destroy sid st = Ret st1" using session_destroy_ends [OF assms] by blast
  have wf1: "sess_wf st1" "has_free st1"
    using session_destroy_wf [OF d assms(1)] assms(2) by (auto simp: has_free_def)
  show ?thesis
  proof (cases "ss_hash st ! h")
    case None
    then show ?thesis using h False assms by (simp add: session_lookup_def)
  next
    case (Some i)
    have "i < MAX_SESSIONS" using Some h(2) assms(1) by (auto simp: sess_wf_def)
    moreover have "owns (ss_sessions st) sid i"
      using session_hash.lookup_stops_at [OF h(1)] Some by auto
    ultimately show ?thesis
      using Some h False assms d wf1 nth_mem [of i "ss_sessions st"]
      by (cases "now > se_expires (ss_sessions st ! i)")
         (auto simp: session_lookup_def owns_def sess_wf_def)
  qed
qed

text \<open>
  C13: lookup always ends while the hash table has a free slot, and what it finds is a live
  session with exactly the id asked for that has not expired; an expired session is never
  returned.
\<close>
theorem session_lookup_sound:
  assumes "sess_wf st" and "has_free st"
  shows "\<exists>r st'. session_lookup sid now st = Ret (r, st') \<and> sess_wf st' \<and> has_free st'
    \<and> (\<forall>s. r = Some s \<longrightarrow> st' = st \<and> s \<in> set (ss_sessions st)
         \<and> se_used s \<and> se_id s = sid \<and> now \<le> se_expires s)"
  using assms by (rule lookup_sound)

lemma session_lookup_sound_witness:
  "\<exists>r st'. session_lookup ''ff'' 3 session_init = Ret (r, st')"
  using session_lookup_sound [of session_init] sess_wf_init by blast

lemma lookup_no_owner:
  assumes "sess_wf st" and "has_free st" and "\<forall>i < MAX_SESSIONS. \<not> owns (ss_sessions st) sid i"
  shows "session_lookup sid now st = Ret (None, st)"
proof -
  obtain h where h: "probe HASH_SIZE (owns (ss_sessions st) sid) (ss_hash st) (hash_id sid) = Some h"
      "h < HASH_SIZE"
    using free_probe_ends [OF assms(1,2)] by blast
  have "ss_hash st ! h = None"
    using session_hash.lookup_stops_at [OF h(1)] assms(1,3) by (auto simp: sess_wf_def)
  then show ?thesis using h(1) by (simp add: session_lookup_def)
qed

text \<open>
  After a session is destroyed its id finds nothing, at any time: logging out ends the
  session for good.
\<close>
theorem session_destroy_lookup:
  assumes "sess_wf st" and "has_free st" and "ids_unique st"
  shows "\<exists>st'. session_destroy sid st = Ret st' \<and> sess_wf st'
    \<and> (\<forall>now. session_lookup sid now st' = Ret (None, st'))"
proof -
  obtain h where h: "probe HASH_SIZE (owns (ss_sessions st) sid) (ss_hash st) (hash_id sid) = Some h"
      "h < HASH_SIZE"
    using free_probe_ends [OF assms(1,2)] by blast
  obtain st' where d: "session_destroy sid st = Ret st'" using session_destroy_ends [OF assms(1,2)] by blast
  have wf: "sess_wf st'" "has_free st'"
    using session_destroy_wf [OF d assms(1)] assms(2) by (auto simp: has_free_def)
  show ?thesis
  proof (cases "ss_hash st ! h")
    case None
    then have "st' = st" using d h(1) by (simp add: session_destroy_def)
    then show ?thesis using d wf h(1) None by (simp add: session_lookup_def)
  next
    case (Some i)
    have i: "i < MAX_SESSIONS" "owns (ss_sessions st) sid i"
      using Some h(2) assms(1) session_hash.lookup_stops_at [OF h(1)] by (auto simp: sess_wf_def)
    then have only: "j = i" if "j < MAX_SESSIONS" "owns (ss_sessions st) sid j" for j
      using that assms(3) by (auto simp: ids_unique_def owns_def)
    have "st' = (release i st)\<lparr>ss_hash := (ss_hash st)[h := None]\<rparr>"
      using d h(1) Some by (simp add: session_destroy_def)
    then have "\<not> owns (ss_sessions st') sid j" if "j < MAX_SESSIONS" for j
      using that only [OF that] assms(1)
      by (cases "j = i") (auto simp: release_def owns_def sess_wf_def)
    then show ?thesis using d wf lookup_no_owner by blast
  qed
qed

lemma session_destroy_lookup_witness:
  "\<exists>st'. session_destroy ''ff'' session_init = Ret st' \<and> session_lookup ''ff'' 9 st' = Ret (None, st')"
  using session_destroy_lookup [of session_init "''ff''"] sess_wf_init by blast

subsection \<open>Filling the table\<close>

text \<open>The state after \<open>n\<close> logins, none of which has expired by the time \<open>lo + SESSION_TTL\<close>.\<close>

definition filled :: "nat \<Rightarrow> int \<Rightarrow> sess_state \<Rightarrow> bool" where
  "filled n lo st \<longleftrightarrow> sess_wf st \<and> occupied (ss_hash st) = n
     \<and> (\<forall>i < MAX_SESSIONS. se_used (ss_sessions st ! i) \<longleftrightarrow> i < n)
     \<and> (\<forall>i < n. lo + SESSION_TTL \<le> se_expires (ss_sessions st ! i))"

definition during :: "int \<Rightarrow> int \<Rightarrow> bool" where
  "during lo t \<longleftrightarrow> lo \<le> t \<and> t \<le> lo + SESSION_TTL"

lemma filled_init: "filled 0 lo session_init"
  using sess_wf_init by (simp add: filled_def session_init_def no_session_def)

lemma first_free_eq:
  "i < length ss \<Longrightarrow> \<not> se_used (ss ! i) \<Longrightarrow> \<forall>j < i. se_used (ss ! j) \<Longrightarrow> first_free ss = Some i"
proof (induction ss arbitrary: i)
  case (Cons s ss)
  then show ?case by (cases i) (auto simp: All_less_Suc2)
qed simp

lemma filled_no_cleanup:
  assumes "filled n lo st" and "during lo t"
  shows "session_cleanup_expired t st = Ret st"
proof -
  have "cleanup_from t i m st = Ret st" if "i + m \<le> MAX_SESSIONS" for i m
    using that
  proof (induction m arbitrary: i)
    case (Suc m)
    then have "\<not> (se_used (ss_sessions st ! i) \<and> t > se_expires (ss_sessions st ! i))"
      using assms by (force simp: filled_def during_def)
    then have "cleanup_one t i st = Ret st" by (auto simp: cleanup_one_def Let_def)
    then show ?case using Suc by simp
  qed simp
  then show ?thesis by (simp add: session_cleanup_expired_def)
qed

lemma filled_create:
  assumes "filled n lo st" and "n \<le> HASH_SIZE" and "during lo t1"
  shows "session_create rnd user role t1 t2 t3 st = session_fill (hex_encode rnd) user role t3 n st"
proof -
  have "first_free (ss_sessions st) = Some n"
    using assms(1,2) by (intro first_free_eq) (auto simp: filled_def sess_wf_def)
  then show ?thesis using filled_no_cleanup [OF assms(1,3)] by (simp add: session_create_def)
qed

lemma filled_step:
  assumes "filled n lo st" and "n < HASH_SIZE" and "during lo t"
  shows "\<exists>sid st'. session_fill token user role t n st = Ret (Some sid, st') \<and> filled (Suc n) lo st'"
proof -
  let ?s = "new_session token user role t"
  have wf: "sess_wf st" "has_free st" using assms by (auto simp: filled_def has_free_def)
  obtain h where h: "probe HASH_SIZE (\<lambda>_. False) (ss_hash st) (hash_id token) = Some h" "h < HASH_SIZE"
    using free_probe_ends [OF wf] by blast
  define st' where "st' = st\<lparr>ss_sessions := (ss_sessions st)[n := ?s], ss_hash := (ss_hash st)[h := Some n]\<rparr>"
  have fill: "session_fill token user role t n st = Ret (Some (se_id ((ss_sessions st)[n := ?s] ! n)), st')"
    using h(1) by (simp add: session_fill_def Let_def st'_def)
  have "occupied (ss_hash st') = Suc n"
    using occupied_insert [of h "ss_hash st" n] probe_empty_slot [OF session_hash.hash_bound h(1)]
      assms(1) h(2) by (simp add: st'_def filled_def sess_wf_def)
  moreover have "sess_wf st'" using session_fill_wf [OF fill wf(1)] assms(2) by simp
  ultimately have "filled (Suc n) lo st'"
    using assms by (auto simp: st'_def filled_def sess_wf_def nth_list_update new_session_def during_def
        less_Suc_eq)
  with fill show ?thesis by blast
qed

text \<open>A sequence of logins: the random bytes, the user, the role and the clock of each.\<close>

fun session_creates :: "(byte list \<times> string \<times> string \<times> int) list \<Rightarrow> sess_state \<Rightarrow> sess_state run" where
  "session_creates [] st = Ret st"
| "session_creates ((rnd, user, role, t) # cs) st =
     bind_run (session_create rnd user role t t t st) (\<lambda>(r, st'). session_creates cs st')"

lemma session_creates_filled:
  assumes "filled n lo st" and "n + length cs \<le> HASH_SIZE" and "\<forall>(rnd, user, role, t) \<in> set cs. during lo t"
  shows "\<exists>st'. session_creates cs st = Ret st' \<and> filled (n + length cs) lo st'"
  using assms
proof (induction cs arbitrary: n st)
  case (Cons c cs)
  obtain rnd user role t where c: "c = (rnd, user, role, t)" by (cases c)
  have t: "during lo t" "n < HASH_SIZE" using Cons.prems c by auto
  obtain sid st1 where s: "session_fill (hex_encode rnd) user role t n st = Ret (Some sid, st1)" "filled (Suc n) lo st1"
    using filled_step [OF Cons.prems(1) t(2,1)] by blast
  have "session_creates (c # cs) st = session_creates cs st1"
    using filled_create [OF Cons.prems(1) _ t(1)] t(2) s(1) by (simp add: c)
  then show ?case using Cons.IH [OF s(2)] Cons.prems by simp
qed simp

lemma full_probe_loops:
  assumes "filled HASH_SIZE lo st" and "\<forall>i < MAX_SESSIONS. \<not> stop i"
  shows "probe HASH_SIZE stop (ss_hash st) (hash_id token) = None"
proof -
  have "\<not> stops stop (ss_hash st) s" if "s < HASH_SIZE" for s
    using that assms occupied_full [of "ss_hash st" s]
    by (auto simp: filled_def sess_wf_def stops_def split: option.split)
  then show ?thesis by (simp add: probe_eq_None [OF session_hash.hash_bound])
qed

text \<open>
  C40: the store promises 1024 sessions, but 256 logins within one hour are enough to hang the
  server: every login up to the 256th succeeds, and then the next login, and any lookup of an
  id that is not in the table, goes round the full hash table forever.
\<close>
theorem session_table_full_hangs:
  assumes "length cs = HASH_SIZE" and "\<forall>(rnd, user, role, t) \<in> set cs. during lo t" and "during lo t"
  shows "\<exists>st. session_creates cs session_init = Ret st
    \<and> session_create rnd user role t t t st = Loops
    \<and> (\<forall>sid. sid \<noteq> [] \<and> (\<forall>i < MAX_SESSIONS. \<not> owns (ss_sessions st) sid i)
         \<longrightarrow> session_lookup sid t st = Loops)"
proof -
  obtain st where st: "session_creates cs session_init = Ret st" "filled HASH_SIZE lo st"
    using session_creates_filled [OF filled_init, of cs lo] assms by auto
  have "session_create rnd user role t t t st = Loops"
    using filled_create [OF st(2) _ assms(3)] full_probe_loops [OF st(2)]
    by (simp add: session_fill_def)
  moreover have "session_lookup sid t st = Loops"
    if "sid \<noteq> []" "\<forall>i < MAX_SESSIONS. \<not> owns (ss_sessions st) sid i" for sid
    using that full_probe_loops [OF st(2)] by (simp add: session_lookup_def)
  ultimately show ?thesis using st(1) by blast
qed

lemma session_table_full_hangs_witness:
  "\<exists>st. session_creates (replicate 256 (replicate 32 1, ''u'', ''user'', 5)) session_init = Ret st
     \<and> session_create (replicate 32 2) ''u'' ''user'' 6 6 6 st = Loops"
  using session_table_full_hangs [of "replicate 256 (replicate 32 1, ''u'', ''user'', 5)" 5 6
      "replicate 32 2" "''u''" "''user''"]
  by (auto simp: during_def)

text \<open>
  Destroying a session can lose another one: when two ids hash to the same slot, the
  second is stored behind the first, and destroying the first empties the slot at which the
  probe for the second begins, so that a user who is still logged in is not found any more.
\<close>
theorem session_destroy_loses_other:
  assumes "length a = 32" and "length b = 32" and "a \<noteq> b"
    and "hash_id (hex_encode a) = hash_id (hex_encode b)"
  shows "\<exists>sa sb st1 st2 st3.
    session_create a ua ra t t t session_init = Ret (Some sa, st1)
    \<and> session_create b ub rb t t t st1 = Ret (Some sb, st2)
    \<and> session_destroy sa st2 = Ret st3
    \<and> (\<exists>i < MAX_SESSIONS. owns (ss_sessions st3) sb i \<and> t \<le> se_expires (ss_sessions st3 ! i))
    \<and> session_lookup sb t st3 = Ret (None, st3)"
proof -
  let ?a = "hex_encode a" and ?b = "hex_encode b"
  let ?h = "hash_id ?a"
  have ab: "?a \<noteq> ?b" using hex_encode_inject assms(3) by blast
  have hb: "?h < HASH_SIZE" by (rule session_hash.hash_bound)
  have ids: "se_id (new_session ?a ua ra t) = ?a" "se_id (new_session ?b ub rb t) = ?b"
    using assms(1,2) by (simp_all add: new_session_def copy_text_id)
  define st1 where "st1 = session_init\<lparr>ss_sessions := (ss_sessions session_init)[0 := new_session ?a ua ra t],
    ss_hash := empty_slots[?h := Some 0]\<rparr>"
  define st2 where "st2 = st1\<lparr>ss_sessions := (ss_sessions st1)[1 := new_session ?b ub rb t],
    ss_hash := empty_slots[?h := Some 0, next_slot ?h := Some 1]\<rparr>"
  define st3 where "st3 = (release 0 st2)\<lparr>ss_hash := empty_slots[?h := None, next_slot ?h := Some 1]\<rparr>"
  have t: "during t t" by (simp add: during_def)
  have nh: "next_slot ?h \<noteq> ?h" using hb by (auto simp: next_slot_def mod_Suc)
  have c1: "session_create a ua ra t t t session_init = Ret (Some ?a, st1)"
    using filled_create [OF filled_init _ t] hb ids
    by (simp add: session_fill_def Let_def probe_256 st1_def session_init_def)
  then have "filled 1 t st1"
    using filled_create [OF filled_init _ t, of a ua ra t] filled_step [OF filled_init _ t, of ?a ua ra]
    by auto
  from filled_create [OF this _ t] have c2: "session_create b ub rb t t t st1 = Ret (Some ?b, st2)"
    using hb nh ids assms(4)
    by (simp add: session_fill_def Let_def probe_256 st1_def st2_def session_init_def)
  have "owns (ss_sessions st2) ?a 0" using ids
    by (simp add: owns_def st2_def st1_def session_init_def new_session_def)
  then have c3: "session_destroy ?a st2 = Ret st3"
    using hb nh by (simp add: session_destroy_def probe_256 st2_def st3_def list_update_swap)
  have "owns (ss_sessions st3) ?b 1 \<and> t \<le> se_expires (ss_sessions st3 ! 1)"
    using ids by (simp add: owns_def st3_def st2_def st1_def session_init_def release_def new_session_def)
  moreover have "session_lookup ?b t st3 = Ret (None, st3)"
    using assms(4) hb nh by (simp add: session_lookup_def probe_256 st3_def)
  ultimately show ?thesis using c1 c2 c3 by (metis one_less_numeral_iff semiring_norm(76))
qed

lemma session_destroy_loses_other_witness:
  "\<exists>sa sb st1 st2 st3.
    session_create (8 # replicate 31 0) ''ann'' ''user'' 0 0 0 session_init = Ret (Some sa, st1)
    \<and> session_create (128 # replicate 31 0) ''bob'' ''user'' 0 0 0 st1 = Ret (Some sb, st2)
    \<and> session_destroy sa st2 = Ret st3 \<and> session_lookup sb 0 st3 = Ret (None, st3)"
proof -
  have "hash_id (hex_encode (8 # replicate 31 0)) = hash_id (hex_encode (128 # replicate 31 0))"
    by (simp add: hash_id_def hash_mask_djb2 hash_mask_5381 step8_def hex_digits_def char_code_def)
  then show ?thesis
    using session_destroy_loses_other [of "8 # replicate 31 0" "128 # replicate 31 0"
        "''ann''" "''user''" 0 "''bob''" "''user''"] by auto
qed

end
