(* ===== verification/Http_Parser.thy ===== *)
theory Http_Parser
  imports Prelude
begin

text \<open>
  The HTTP/1.x request parser and the response builders of \<open>src/http_parser.c\<close> and
  \<open>src/http_response.c\<close>.  \<open>http_request\<close> is \<open>http_request_t\<close>: \<open>header_count\<close> is the length
  of the header list and \<open>body_len\<close> the length of \<open>hr_body\<close>.  A raw request is a string of
  exactly \<open>raw_len\<close> bytes, followed in memory by a NUL; functions that treat it as a C string
  see \<open>cstr raw\<close>.  The file system is a map from paths to contents and the text of the
  \<open>Date\<close> header is an argument; a return code of -1 is \<open>None\<close>.  NULL arguments are not modelled.
\<close>

record http_request =
  hr_method :: string
  hr_uri :: string
  hr_major :: int
  hr_minor :: int
  hr_headers :: "(string \<times> string) list"
  hr_content_length :: int
  hr_keep_alive :: bool
  hr_body :: string
  hr_body_expected :: int

abbreviation HTTP_MAX_HEADERS :: nat where "HTTP_MAX_HEADERS \<equiv> 32"
abbreviation HTTP_MAX_BODY :: nat where "HTTP_MAX_BODY \<equiv> 4096"

definition is_blank :: "char \<Rightarrow> bool" where
  "is_blank c \<longleftrightarrow> c = SPC \<or> c = TAB"

definition http_request_init :: http_request where
  "http_request_init = \<lparr>hr_method = [], hr_uri = [], hr_major = 1, hr_minor = 1, hr_headers = [],
     hr_content_length = -1, hr_keep_alive = True, hr_body = [], hr_body_expected = 0\<rparr>"

subsection \<open>Request line\<close>

definition parse_version :: "string \<Rightarrow> http_request \<Rightarrow> http_request" where
  "parse_version p req =
     (let p = skip_spaces p
      in if starts_with p ''HTTP/''
         then (let p = drop 5 p;
                   req1 = req\<lparr>hr_major := atoi p\<rparr>
               in case strchr p CHR ''.'' of
                    None \<Rightarrow> req1
                  | Some q \<Rightarrow> req1\<lparr>hr_minor := atoi (tl q)\<rparr>)
         else req)"

definition http_parse_request_line :: "string \<Rightarrow> http_request \<Rightarrow> http_request option" where
  "http_parse_request_line line req =
     (let line = cut_at CR line
      in case strchr line SPC of
           None \<Rightarrow> None
         | Some p \<Rightarrow>
             (let req1 = req\<lparr>hr_method := copy_text 16 (cut_at SPC line)\<rparr>;
                  save = skip_spaces (tl p);
                  req2 = req1\<lparr>hr_uri := copy_text 1024 (cut_at SPC save)\<rparr>
              in case strchr save SPC of
                   None \<Rightarrow> Some req2
                 | Some p \<Rightarrow> Some (if tl p = [] then req2 else parse_version (tl p) req2)))"

subsection \<open>Headers\<close>

fun to_crlf :: "string \<Rightarrow> string" where
  \<comment> \<open>\<open>while (p < end - 1 && !(p[0] is CR and p[1] is LF)) p++;\<close>: what is left\<close>
  "to_crlf (c # d # s) = (if c = CR \<and> d = LF then c # d # s else to_crlf (d # s))"
| "to_crlf s = s"

lemma length_to_crlf: "length (to_crlf s) \<le> length s"
  by (induction s rule: to_crlf.induct) auto

definition http_get_header :: "http_request \<Rightarrow> string \<Rightarrow> string option" where
  "http_get_header req name =
     map_option snd (find (\<lambda>(n, v). strcasecmp_safe n name = 0) (hr_headers req))"

definition note_length :: "string \<times> string \<Rightarrow> http_request \<Rightarrow> http_request" where
  "note_length = (\<lambda>(name, value) req.
     if strcasecmp_safe name ''content-length'' = 0
     then req\<lparr>hr_content_length := (if atoi value < 0 then 0 else atoi value)\<rparr> else req)"

definition note_connection :: "string \<times> string \<Rightarrow> http_request \<Rightarrow> http_request" where
  "note_connection = (\<lambda>(name, value) req.
     if strcasecmp_safe name ''connection'' = 0
     then if strcasecmp_safe value ''close'' = 0 then req\<lparr>hr_keep_alive := False\<rparr>
          else if strcasecmp_safe value ''keep-alive'' = 0 then req\<lparr>hr_keep_alive := True\<rparr>
          else req
     else req)"

definition split_header :: "string \<Rightarrow> (string \<times> string) option" where
  \<comment> \<open>name and value of a header line, trimmed and cut to their fields\<close>
  "split_header line =
     map_option (\<lambda>colon.
       (copy_text 64 (rtrim_keep1 is_blank (skip_blanks (cut_at CHR '':'' line))),
        copy_text 256 (rtrim_keep1 (\<lambda>c. is_blank c \<or> c = CR) (skip_blanks (tl colon)))))
     (strchr line CHR '':'')"

definition parse_header_line :: "string \<Rightarrow> http_request \<Rightarrow> http_request" where
  \<comment> \<open>\<open>line\<close> is what \<open>memcpy\<close> put into \<open>char line[512]\<close>\<close>
  "parse_header_line raw_line req =
     (case split_header (cstr (take 511 raw_line)) of
        None \<Rightarrow> req
      | Some h \<Rightarrow>
          if length (hr_headers req) < HTTP_MAX_HEADERS
          then note_connection h (note_length h (req\<lparr>hr_headers := hr_headers req @ [h]\<rparr>))
          else req)"

function headers_loop :: "string \<Rightarrow> http_request \<Rightarrow> http_request" where
  "headers_loop s req =
     (if length s < 2 \<or> starts_with s crlf then req
      else let r = to_crlf s
           in if length r < 2 then req
              else headers_loop (drop 2 r) (parse_header_line (take (length s - length r) s) req))"
  by pat_completeness auto
termination
proof (relation "measure (length \<circ> fst)", simp)
  fix s r :: string and req :: http_request
  assume "r = to_crlf s" "\<not> length r < 2"
  then show "((drop 2 r, parse_header_line (take (length s - length r) s) req), s, req) \<in> measure (length \<circ> fst)"
    using length_to_crlf [of s] by simp
qed

declare headers_loop.simps [simp del]

definition negotiate :: "http_request \<Rightarrow> http_request" where
  "negotiate req =
     (if hr_major req = 1 \<and> hr_minor req = 0
      then (case http_get_header req ''connection'' of
              None \<Rightarrow> req\<lparr>hr_keep_alive := False\<rparr>
            | Some conn \<Rightarrow> if strcasecmp_safe conn ''keep-alive'' \<noteq> 0
                           then req\<lparr>hr_keep_alive := False\<rparr> else req)
      else req)"

definition http_parse_headers :: "string \<Rightarrow> http_request \<Rightarrow> http_request" where
  "http_parse_headers raw req =
     (let r = to_crlf raw;
          p = (if 2 \<le> length r then drop 2 r else r)
      in negotiate (headers_loop p req))"

subsection \<open>Body\<close>

definition is_crlf_char :: "char \<Rightarrow> bool" where
  "is_crlf_char c \<longleftrightarrow> c = CR \<or> c = LF"

definition http_parse_body :: "string \<Rightarrow> http_request \<Rightarrow> int \<times> http_request" where
  "http_parse_body raw req =
     (case strstr (cstr raw) (crlf @ crlf) of
        None \<Rightarrow> (0, req)
      | Some p \<Rightarrow>
          (let start = length (cstr raw) - length p + 4;
               available = length raw - start
           in if available = 0 then (0, req)
              else let (expected, n1) =
                         (if hr_content_length req > 0
                          then (hr_content_length req, min available (nat (hr_content_length req)))
                          else (hr_body_expected req, available));
                       to_copy = min n1 (HTTP_MAX_BODY - 1)
                   in (int to_copy,
                       req\<lparr>hr_body_expected := expected,
                           hr_body := rstrip is_crlf_char (take to_copy (drop start raw))\<rparr>)))"

definition http_parse_request :: "string \<Rightarrow> http_request option" where
  "http_parse_request raw =
     (if raw = [] then None
      else case (case strstr (cstr raw) crlf of
                   Some t \<Rightarrow> Some t | None \<Rightarrow> strchr (cstr raw) LF) of
             None \<Rightarrow> None
           | Some t \<Rightarrow>
               (let line = take 511 (take (length (cstr raw) - length t) raw)
                in case http_parse_request_line line http_request_init of
                     None \<Rightarrow> None
                   | Some req \<Rightarrow> Some (snd (http_parse_body raw (http_parse_headers raw req)))))"

subsection \<open>Static files\<close>

definition content_types :: "(string \<times> string) list" where
  "content_types =
    [(''.html'', ''text/html; charset=utf-8''), (''.htm'', ''text/html; charset=utf-8''),
     (''.css'', ''text/css; charset=utf-8''), (''.js'', ''application/javascript''),
     (''.json'', ''application/json''), (''.png'', ''image/png''), (''.jpg'', ''image/jpeg''),
     (''.jpeg'', ''image/jpeg''), (''.gif'', ''image/gif''), (''.svg'', ''image/svg+xml''),
     (''.ico'', ''image/x-icon''), (''.xml'', ''application/xml''), (''.pdf'', ''application/pdf'')]"

definition text_plain :: string where
  "text_plain = ''text/plain; charset=utf-8''"

definition http_content_type_from_path :: "string \<Rightarrow> string" where
  "http_content_type_from_path path =
     (case strrchr path CHR ''.'' of
        None \<Rightarrow> text_plain
      | Some ext \<Rightarrow>
          (case find (\<lambda>(e, t). strcasecmp_safe ext e = 0) content_types of
             None \<Rightarrow> text_plain | Some (e, t) \<Rightarrow> t))"

definition file_path :: "string \<Rightarrow> string \<Rightarrow> string" where
  "file_path www_root uri =
     snprintf_to 512
       (if uri = ''/'' then www_root @ ''/index.html''
        else www_root @ ''/'' @ dropWhile (\<lambda>c. c = CHR ''/'') uri)"

definition http_serve_file ::
    "(string \<Rightarrow> string option) \<Rightarrow> string \<Rightarrow> string \<Rightarrow> nat \<Rightarrow> string option \<times> string" where
  \<comment> \<open>the contents, or \<open>None\<close> for -1, and \<open>*content_type\<close>\<close>
  "http_serve_file fs www_root uri buf_size =
     (let filepath = file_path www_root uri
      in ((case fs filepath of
             None \<Rightarrow> None
           | Some data \<Rightarrow> if data = [] \<or> length data \<ge> buf_size then None else Some data),
          http_content_type_from_path filepath))"

definition http_is_safe_path :: "string \<Rightarrow> bool" where
  "http_is_safe_path uri \<longleftrightarrow>
     strstr uri ''..'' = None \<and> \<not> (uri \<noteq> [] \<and> hd uri = CHR ''~'') \<and> strchr uri CHR 0x5C = None"

subsection \<open>Responses\<close>

definition response_head :: "int \<Rightarrow> string \<Rightarrow> string \<Rightarrow> string \<Rightarrow> nat \<Rightarrow> bool \<Rightarrow> string" where
  "response_head status status_text date content_type body_len keep_alive =
     ''HTTP/1.1 '' @ dec_int status @ '' '' @ status_text @ crlf
     @ ''Server: MiniWeb/1.4'' @ crlf
     @ ''Date: '' @ date @ crlf
     @ ''Content-Type: '' @ content_type @ crlf
     @ ''Content-Length: '' @ dec_nat body_len @ crlf
     @ ''Connection: '' @ (if keep_alive then ''Keep-Alive'' else ''close'') @ crlf
     @ crlf"

definition emit_response :: "string \<Rightarrow> string \<Rightarrow> nat \<Rightarrow> string option" where
  \<comment> \<open>the header and the body into \<open>output\<close> of \<open>size\<close> (here \<open>outsize\<close>) bytes\<close>
  "emit_response head body outsize =
     (if length head \<ge> outsize then None
      else if length body \<ge> outsize - length head then None
      else Some (head @ body))"

definition http_build_response ::
    "string \<Rightarrow> int \<Rightarrow> string \<Rightarrow> string \<Rightarrow> string \<Rightarrow> bool \<Rightarrow> nat \<Rightarrow> string option" where
  "http_build_response date status status_text content_type body keep_alive outsize =
     (if outsize = 0 then None
      else emit_response
             (response_head status status_text date content_type (length body) keep_alive) body outsize)"

definition redirect_body :: "int \<Rightarrow> string \<Rightarrow> string" where
  \<open>redirect_body status location =
     ''<!DOCTYPE html>'' @ [LF]
     @ ''<html>'' @ [LF]
     @ ''<head><title>'' @ dec_int status @ '' Redirect</title></head>'' @ [LF]
     @ ''<body>'' @ [LF]
     @ ''<h1>'' @ dec_int status @ '' Moved</h1>'' @ [LF]
     @ ''<p>The document has moved to <a href="'' @ location @ ''">'' @ location @ ''</a>.</p>'' @ [LF]
     @ ''</body>'' @ [LF]
     @ ''</html>'' @ [LF]\<close>

definition redirect_head :: "int \<Rightarrow> string \<Rightarrow> nat \<Rightarrow> string \<Rightarrow> string" where
  "redirect_head status date body_len location =
     ''HTTP/1.1 '' @ dec_int status @ '' '' @ (if status = 301 then ''MOVED PERMANENTLY'' else ''FOUND'') @ crlf
     @ ''Server: MiniWeb/1.4'' @ crlf
     @ ''Date: '' @ date @ crlf
     @ ''Content-Type: text/html; charset=utf-8'' @ crlf
     @ ''Content-Length: '' @ dec_nat body_len @ crlf
     @ ''Location: '' @ location @ crlf
     @ ''Connection: Keep-Alive'' @ crlf
     @ crlf"

definition http_build_redirect :: "string \<Rightarrow> int \<Rightarrow> string \<Rightarrow> nat \<Rightarrow> string option" where
  \<comment> \<open>\<open>None\<close> also when the page does not fit \<open>char body[512]\<close>, where the code would copy
      past that buffer\<close>
  "http_build_redirect date status location outsize =
     (let body = redirect_body status location
      in if outsize = 0 \<or> length body \<ge> 512 then None
         else emit_response (redirect_head status date (length body) location) body outsize)"

definition build_hello_response :: "nat \<Rightarrow> string option" where
  "build_hello_response outsize =
     (let out = ''HTTP/1.1 200 OK'' @ crlf @ ''Content-Type: text/html'' @ crlf
                @ ''Content-Length: 12'' @ crlf @ crlf @ ''Hello, Web!'' @ [LF]
      in if outsize = 0 \<or> length out \<ge> outsize then None else Some out)"


subsection \<open>Lines\<close>

definition text_line :: "string \<Rightarrow> bool" where
  \<comment> \<open>a line that can be sent as a header line\<close>
  "text_line l \<longleftrightarrow> l \<noteq> [] \<and> CR \<notin> set l \<and> NUL \<notin> set l"

definition as_lines :: "string list \<Rightarrow> string" where
  "as_lines ls = concat (map (\<lambda>l. l @ crlf) ls)"

lemma as_lines_simps [simp]: "as_lines [] = []" "as_lines (l # ls) = l @ crlf @ as_lines ls"
  by (simp_all add: as_lines_def)

lemma as_lines_append: "as_lines (ls @ ms) = as_lines ls @ as_lines ms"
  by (simp add: as_lines_def)

lemma to_crlf_line: "CR \<notin> set l \<Longrightarrow> to_crlf (l @ CR # LF # t) = CR # LF # t"
proof (induction l)
  case (Cons c l)
  then show ?case by (cases l) auto
qed simp

lemma starts_with_crlf_Cons [simp]: "starts_with (c # s) crlf \<longleftrightarrow> c = CR \<and> (\<exists>t. s = LF # t)"
  by (cases s) (auto simp: starts_with_def)

lemma headers_loop_line:
  assumes "text_line l"
  shows "headers_loop (l @ crlf @ t) req = headers_loop t (parse_header_line l req)"
proof -
  obtain c l' where "l = c # l'" "c \<noteq> CR" using assms by (cases l) (auto simp: text_line_def)
  then have "\<not> starts_with (l @ crlf @ t) crlf" by simp
  moreover have "to_crlf (l @ crlf @ t) = CR # LF # t"
    using to_crlf_line assms by (simp add: text_line_def)
  ultimately show ?thesis by (subst headers_loop.simps) simp
qed

lemma headers_loop_lines:
  "\<forall>l \<in> set ls. text_line l \<Longrightarrow>
     headers_loop (as_lines ls @ crlf @ t) req = fold parse_header_line ls req"
proof (induction ls arbitrary: req)
  case Nil
  then show ?case by (subst headers_loop.simps) simp
next
  case (Cons l ls)
  then show ?case using headers_loop_line [of l "as_lines ls @ crlf @ t" req] by simp
qed

lemma http_parse_headers_lines:
  assumes "CR \<notin> set first" and "\<forall>l \<in> set ls. text_line l"
  shows "http_parse_headers (first @ crlf @ as_lines ls @ crlf @ t) req
    = negotiate (fold parse_header_line ls req)"
  using headers_loop_lines [OF assms(2), of t req] to_crlf_line [OF assms(1)]
  by (simp add: http_parse_headers_def Let_def)

text \<open>No line of text holds the empty line, so the first one ends the header.\<close>

lemma no_CR_no_blank_line:
  assumes "starts_with s (crlf @ crlf)" shows "\<exists>t. s = crlf @ crlf @ t"
  using assms by (auto simp: starts_with_prefix elim: prefixE)

lemma strstr_blank_line_skip:
  assumes "CR \<notin> set l"
  shows "strstr (l @ t) (crlf @ crlf) = strstr t (crlf @ crlf)"
  using assms
proof (induction l)
  case (Cons c l)
  then have "\<not> starts_with ((c # l) @ t) (crlf @ crlf)"
    using no_CR_no_blank_line [of "(c # l) @ t"] by auto
  then show ?case using Cons by (subst strstr.simps) simp
qed simp

lemma strstr_blank_line:
  assumes "CR \<notin> set first" and "\<forall>l \<in> set ls. text_line l"
  shows "strstr (first @ crlf @ as_lines ls @ crlf @ t) (crlf @ crlf) = Some (crlf @ crlf @ t)"
  using assms
proof (induction ls arbitrary: first)
  case Nil
  have "strstr (crlf @ crlf @ t) (crlf @ crlf) = Some (crlf @ crlf @ t)"
    by (subst strstr.simps) (simp add: starts_with_def)
  then show ?case using Nil strstr_blank_line_skip [of first "crlf @ crlf @ t"] by simp
next
  case (Cons l ls)
  let ?t = "l @ crlf @ as_lines ls @ crlf @ t"
  obtain c l' where l: "l = c # l'" "c \<noteq> CR"
    using Cons.prems(2) by (cases l) (auto simp: text_line_def)
  have "strstr (CR # LF # ?t) (crlf @ crlf) = strstr (LF # ?t) (crlf @ crlf)"
    using l by (subst strstr.simps) (simp add: starts_with_def)
  also have "\<dots> = strstr ?t (crlf @ crlf)"
    by (subst strstr.simps) (simp add: starts_with_def)
  finally have "strstr (crlf @ ?t) (crlf @ crlf) = strstr ?t (crlf @ crlf)" by simp
  then show ?case
    using Cons strstr_blank_line_skip [of first "crlf @ ?t"] by (simp add: text_line_def)
qed

subsection \<open>Header lines\<close>

definition header_line :: "string \<times> string \<Rightarrow> string" where
  "header_line = (\<lambda>(n, v). n @ '': '' @ v)"

text \<open>A header that survives being sent: what the fields can hold, with nothing to trim.\<close>

definition clean_header :: "string \<times> string \<Rightarrow> bool" where
  "clean_header = (\<lambda>(n, v). n \<noteq> [] \<and> length n < 64 \<and> length v < 256
     \<and> CHR '':'' \<notin> set n \<and> CR \<notin> set n \<union> set v \<and> NUL \<notin> set n \<union> set v
     \<and> \<not> is_blank (hd n) \<and> \<not> is_blank (last n)
     \<and> (v \<noteq> [] \<longrightarrow> \<not> is_blank (hd v) \<and> \<not> is_blank (last v)))"

lemma text_header_line: "clean_header h \<Longrightarrow> text_line (header_line h)"
  by (auto simp: clean_header_def header_line_def text_line_def split: prod.splits)

lemma split_header_line:
  assumes "clean_header (n, v)"
  shows "split_header (header_line (n, v)) = Some (n, v)"
proof -
  have "strchr (n @ '':'' @ '' '' @ v) CHR '':'' = Some ('':'' @ '' '' @ v)"
    using assms strchr_append [of "CHR '':''" n "'' '' @ v"] by (simp add: clean_header_def)
  moreover have "cut_at CHR '':'' (n @ '':'' @ '' '' @ v) = n"
    using assms cut_at_append [of "CHR '':''" n "'' '' @ v"] by (simp add: clean_header_def)
  moreover have "skip_blanks ('' '' @ v) = v"
    using assms skip_blanks_id [of v] by (auto simp: clean_header_def is_blank_def skip_blanks_def)
  moreover have "v \<noteq> [] \<longrightarrow> last v \<noteq> CR"
    using assms by (metis (no_types, lifting) UnI2 case_prod_conv clean_header_def last_in_set)
  then have "rtrim_keep1 (\<lambda>c. is_blank c \<or> c = CR) v = v"
    using assms by (intro rtrim_keep1_id) (auto simp: clean_header_def)
  ultimately show ?thesis
    using assms
    by (auto simp: split_header_def header_line_def clean_header_def is_blank_def
        skip_blanks_id rtrim_keep1_id copy_text_id)
qed

definition add_header :: "string \<times> string \<Rightarrow> http_request \<Rightarrow> http_request" where
  "add_header h req =
     (if length (hr_headers req) < HTTP_MAX_HEADERS
      then note_connection h (note_length h (req\<lparr>hr_headers := hr_headers req @ [h]\<rparr>)) else req)"

lemma parse_clean_header:
  assumes "clean_header h"
  shows "parse_header_line (header_line h) req = add_header h req"
proof -
  obtain n v where h: "h = (n, v)" by (cases h)
  have "length (header_line h) \<le> 511" using assms by (simp add: h header_line_def clean_header_def)
  moreover have "NUL \<notin> set (header_line h)" using text_header_line [OF assms] by (simp add: text_line_def)
  ultimately have "cstr (take 511 (header_line h)) = header_line h" by (simp add: cstr_id)
  then show ?thesis
    using split_header_line [of n v] assms by (simp add: parse_header_line_def add_header_def h)
qed

lemma fold_clean_headers:
  "\<forall>h \<in> set hs. clean_header h \<Longrightarrow>
     fold parse_header_line (map header_line hs) req = fold add_header hs req"
  by (induction hs arbitrary: req) (auto simp: parse_clean_header)

lemma add_header_simps [simp]:
  "hr_method (add_header h req) = hr_method req" "hr_uri (add_header h req) = hr_uri req"
  "hr_major (add_header h req) = hr_major req" "hr_minor (add_header h req) = hr_minor req"
  "hr_body (add_header h req) = hr_body req"
  "hr_headers (add_header h req) =
     (if length (hr_headers req) < HTTP_MAX_HEADERS then hr_headers req @ [h] else hr_headers req)"
  by (auto simp: add_header_def note_connection_def note_length_def split: prod.splits)

lemma fold_add_header_headers:
  "length (hr_headers req) + length hs \<le> HTTP_MAX_HEADERS \<Longrightarrow>
     hr_headers (fold add_header hs req) = hr_headers req @ hs"
  by (induction hs arbitrary: req) auto

lemma fold_add_header_same:
  "hr_method (fold add_header hs req) = hr_method req \<and> hr_uri (fold add_header hs req) = hr_uri req
   \<and> hr_major (fold add_header hs req) = hr_major req \<and> hr_minor (fold add_header hs req) = hr_minor req
   \<and> hr_body (fold add_header hs req) = hr_body req"
  by (induction hs arbitrary: req) auto

lemma negotiate_simps [simp]:
  "hr_headers (negotiate req) = hr_headers req" "hr_method (negotiate req) = hr_method req"
  "hr_uri (negotiate req) = hr_uri req" "hr_major (negotiate req) = hr_major req"
  "hr_minor (negotiate req) = hr_minor req" "hr_content_length (negotiate req) = hr_content_length req"
  "hr_body (negotiate req) = hr_body req" "hr_body_expected (negotiate req) = hr_body_expected req"
  by (auto simp: negotiate_def split: option.split)


subsection \<open>Properties of the response builders\<close>

definition response_lines :: "string \<Rightarrow> string \<Rightarrow> nat \<Rightarrow> bool \<Rightarrow> (string \<times> string) list" where
  "response_lines date content_type body_len keep_alive =
     [(''Server'', ''MiniWeb/1.4''), (''Date'', date), (''Content-Type'', content_type),
      (''Content-Length'', dec_nat body_len),
      (''Connection'', if keep_alive then ''Keep-Alive'' else ''close'')]"

lemma response_head_lines:
  "response_head status status_text date content_type body_len keep_alive =
     (''HTTP/1.1 '' @ dec_int status @ '' '' @ status_text) @ crlf
     @ as_lines (map header_line (response_lines date content_type body_len keep_alive)) @ crlf"
  by (simp add: response_head_def response_lines_def header_line_def)

lemma dec_nat_chars: "c \<in> set (dec_nat n) \<Longrightarrow> c \<noteq> NUL \<and> c \<noteq> CR \<and> c \<noteq> LF \<and> c \<noteq> SPC \<and> c \<noteq> TAB \<and> c \<noteq> CHR '':''"
  using set_dec_nat [of c n] isdigit_not_space [of c] by (auto simp: isdigit_c_def char_code_def)

lemma CR_dec_int: "CR \<notin> set (dec_int i)"
  using dec_nat_chars by (auto simp: dec_int_def)

lemma length_dec_nat: "n < 10 ^ k \<Longrightarrow> 0 < k \<Longrightarrow> length (dec_nat n) \<le> k"
proof (induction k arbitrary: n)
  case (Suc k)
  show ?case
  proof (cases "n < 10")
    case True
    then show ?thesis by (subst dec_nat.simps) simp
  next
    case False
    then have "0 < k" "n div 10 < 10 ^ k" using Suc.prems by (cases k, auto)
    then show ?thesis using Suc.IH [of "n div 10"] False by (subst dec_nat.simps) simp
  qed
qed simp

lemma clean_dec_nat: "n < 10 ^ 9 \<Longrightarrow> clean_header (''Content-Length'', dec_nat n)"
proof -
  assume "n < 10 ^ 9"
  then have "length (dec_nat n) \<le> 9" by (intro length_dec_nat) simp_all
  moreover have "\<not> is_blank (hd (dec_nat n))" "\<not> is_blank (last (dec_nat n))"
    using dec_nat_chars [of "hd (dec_nat n)" n] dec_nat_chars [of "last (dec_nat n)" n]
    by (simp_all add: is_blank_def)
  ultimately show "clean_header (''Content-Length'', dec_nat n)"
    using dec_nat_chars [of CR n] dec_nat_chars [of NUL n] by (auto simp: clean_header_def is_blank_def)
qed

lemma known_names:
  "strcasecmp_safe ''Server'' ''content-length'' \<noteq> 0" "strcasecmp_safe ''Date'' ''content-length'' \<noteq> 0"
  "strcasecmp_safe ''Content-Type'' ''content-length'' \<noteq> 0"
  "strcasecmp_safe ''Content-Length'' ''content-length'' = 0"
  "strcasecmp_safe ''Connection'' ''content-length'' \<noteq> 0"
  "strcasecmp_safe ''Server'' ''connection'' \<noteq> 0" "strcasecmp_safe ''Date'' ''connection'' \<noteq> 0"
  "strcasecmp_safe ''Content-Type'' ''connection'' \<noteq> 0"
  "strcasecmp_safe ''Content-Length'' ''connection'' \<noteq> 0"
  "strcasecmp_safe ''Connection'' ''connection'' = 0"
  "strcasecmp_safe ''Server'' ''content-type'' \<noteq> 0" "strcasecmp_safe ''Date'' ''content-type'' \<noteq> 0"
  "strcasecmp_safe ''Content-Type'' ''content-type'' = 0"
  "strcasecmp_safe ''close'' ''close'' = 0" "strcasecmp_safe ''Keep-Alive'' ''close'' \<noteq> 0"
  "strcasecmp_safe ''Keep-Alive'' ''keep-alive'' = 0"
  by code_simp+

text \<open>
  C11: a response the server builds fits its buffer and frames its body correctly: the bytes
  after the first empty line are exactly the body, and the server's own header parser reads
  the \<open>Content-Length\<close> back as the length of that body, the \<open>Content-Type\<close> as given, and the
  \<open>Connection\<close> header as the keep-alive decision.
\<close>
theorem http_build_response_framed:
  assumes "http_build_response date status status_text content_type body keep_alive bufsize = Some out"
    and "bufsize < 10 ^ 9" and "CR \<notin> set status_text"
    and "clean_header (''Date'', date)" and "clean_header (''Content-Type'', content_type)"
  shows "length out < bufsize \<and> strstr out (crlf @ crlf) = Some (crlf @ crlf @ body)
    \<and> (let r = http_parse_headers out http_request_init in
         http_get_header r ''content-type'' = Some content_type
         \<and> hr_content_length r = int (length body) \<and> hr_keep_alive r = keep_alive)"
proof -
  let ?hs = "response_lines date content_type (length body) keep_alive"
  let ?first = "''HTTP/1.1 '' @ dec_int status @ '' '' @ status_text"
  have out: "out = ?first @ crlf @ as_lines (map header_line ?hs) @ crlf @ body"
    and len: "length out < bufsize" and small: "length body < 10 ^ 9"
    using assms(1,2) by (auto simp: http_build_response_def emit_response_def response_head_lines split: if_splits)
  have clean: "\<forall>h \<in> set ?hs. clean_header h"
    using assms(4,5) clean_dec_nat [OF small]
    by (auto simp: response_lines_def) (auto simp: clean_header_def is_blank_def)
  then have sendable: "\<forall>l \<in> set (map header_line ?hs). text_line l" using text_header_line by auto
  have cr: "CR \<notin> set ?first" using assms(3) CR_dec_int by auto
  have "http_parse_headers out http_request_init = negotiate (fold add_header ?hs http_request_init)"
    unfolding out using http_parse_headers_lines [OF cr sendable] fold_clean_headers [OF clean] by simp
  moreover have "negotiate (fold add_header ?hs http_request_init) = fold add_header ?hs http_request_init"
    using fold_add_header_same [of ?hs http_request_init]
    by (simp add: negotiate_def http_request_init_def)
  moreover have "hr_content_length (fold add_header ?hs http_request_init) = int (length body)
      \<and> hr_keep_alive (fold add_header ?hs http_request_init) = keep_alive
      \<and> http_get_header (fold add_header ?hs http_request_init) ''content-type'' = Some content_type"
    using atoi_dec_nat [of "length body"] small
    by (simp add: response_lines_def add_header_def note_length_def note_connection_def
        http_request_init_def http_get_header_def known_names del: strcasecmp_safe.simps)
  ultimately show ?thesis
    using strstr_blank_line [OF cr sendable, of body] len by (simp add: out)
qed

lemma http_build_response_framed_witness:
  "\<exists>out. http_build_response ''now'' 200 ''OK'' ''text/html'' ''hi'' True 4096 = Some out
    \<and> strstr out (crlf @ crlf) = Some (crlf @ crlf @ ''hi'')"
proof -
  obtain out where out: "http_build_response ''now'' 200 ''OK'' ''text/html'' ''hi'' True 4096 = Some out"
    by (simp add: http_build_response_def emit_response_def response_head_def dec_int_def dec_nat.simps)
  show ?thesis
    using http_build_response_framed [OF out] out by (simp add: clean_header_def is_blank_def)
qed


subsection \<open>Properties of the request parser\<close>

definition print_request :: "string \<Rightarrow> string \<Rightarrow> nat \<Rightarrow> (string \<times> string) list \<Rightarrow> string \<Rightarrow> string" where
  "print_request meth uri minor hs body =
     (meth @ '' '' @ uri @ '' HTTP/1.'' @ dec_nat minor) @ crlf
     @ as_lines (map header_line hs) @ crlf @ body"

lemma strstr_crlf:
  "CR \<notin> set l \<Longrightarrow> strstr (l @ crlf @ t) crlf = Some (crlf @ t)"
proof (induction l)
  case Nil
  then show ?case by (subst strstr.simps) simp
next
  case (Cons c l)
  then show ?case by (subst strstr.simps) auto
qed

definition word_text :: "string \<Rightarrow> bool" where
  "word_text w \<longleftrightarrow> w \<noteq> [] \<and> SPC \<notin> set w \<and> CR \<notin> set w \<and> NUL \<notin> set w"

lemma parse_printed_line:
  assumes "word_text meth" and "length meth < 16" and "word_text uri" and "length uri < 1024" and "minor < 10"
  shows "http_parse_request_line (meth @ '' '' @ uri @ '' HTTP/1.'' @ dec_nat minor) req =
    Some (req\<lparr>hr_method := meth, hr_uri := uri, hr_major := 1, hr_minor := int minor\<rparr>)"
proof -
  let ?v = "''HTTP/1.'' @ dec_nat minor"
  have cr: "CR \<notin> set (meth @ SPC # uri @ SPC # ?v)"
    using assms dec_nat_chars [of CR minor] by (auto simp: word_text_def)
  have "hd uri \<noteq> SPC" "uri \<noteq> []" using assms(3) by (metis hd_in_set word_text_def)+
  then have uri: "skip_spaces (uri @ SPC # ?v) = uri @ SPC # ?v" by (simp add: skip_spaces_id)
  have "atoi (''1.'' @ dec_nat minor) = 1"
    by (simp add: atoi_def isspace_c_def char_code_def digits_value_def isdigit_c_def to_int32_def)
  moreover have "strchr (''1.'' @ dec_nat minor) CHR ''.'' = Some (CHR ''.'' # dec_nat minor)"
    using strchr_append [of "CHR ''.''" "''1''" "dec_nat minor"] by simp
  moreover have "atoi (dec_nat minor) = int minor" using assms(5) by (intro atoi_dec_nat) simp
  ultimately have "parse_version ?v req' = req'\<lparr>hr_major := 1, hr_minor := int minor\<rparr>" for req'
    by (simp add: parse_version_def skip_spaces_id starts_with_def)
  then show ?thesis
    using assms cr uri
    by (simp add: http_parse_request_line_def cut_at_id strchr_append cut_at_append word_text_def copy_text_id Let_def)
qed

lemma note_length_other:
  "strcasecmp_safe n ''content-length'' \<noteq> 0 \<Longrightarrow>
     hr_content_length (add_header (n, v) req) = hr_content_length req"
  by (auto simp: add_header_def note_length_def note_connection_def)

lemma fold_content_length:
  "\<forall>(n, v) \<in> set hs. strcasecmp_safe n ''content-length'' \<noteq> 0 \<Longrightarrow>
     hr_content_length (fold add_header hs req) = hr_content_length req"
  by (induction hs arbitrary: req) (auto simp: note_length_other)

lemma add_content_length:
  "n < 2 ^ 31 \<Longrightarrow> length (hr_headers req) < HTTP_MAX_HEADERS \<Longrightarrow>
     hr_content_length (add_header (''Content-Length'', dec_nat n) req) = int n"
  using atoi_dec_nat [of n] known_names(4)
  by (simp add: add_header_def note_length_def note_connection_def del: strcasecmp_safe.simps)

lemma cstr_append: "NUL \<notin> set s \<Longrightarrow> cstr (s @ t) = s @ cstr t"
  by (induction s) (auto simp: cstr_def)

lemma http_parse_request_split:
  assumes "CR \<notin> set l" and "NUL \<notin> set l" and "length l \<le> 511"
    and "http_parse_request_line l http_request_init = Some req"
  shows "http_parse_request (l @ crlf @ t) =
    Some (snd (http_parse_body (l @ crlf @ t) (http_parse_headers (l @ crlf @ t) req)))"
proof -
  have c: "cstr (l @ crlf @ t) = l @ crlf @ cstr t"
    using cstr_append [of "l @ crlf" t] assms(2) by simp
  have "strstr (cstr (l @ crlf @ t)) crlf = Some (crlf @ cstr t)"
    unfolding c by (rule strstr_crlf [OF assms(1)])
  moreover have "take 511 (take (length (cstr (l @ crlf @ t)) - length (crlf @ cstr t)) (l @ crlf @ t)) = l"
    unfolding c using assms(3) by simp
  ultimately show ?thesis
    using assms(4) by (simp only: http_parse_request_def Let_def option.case if_False append_is_Nil_conv
        list.distinct simp_thms)
qed

lemma http_parse_body_at:
  assumes "NUL \<notin> set h" and "4 \<le> length h"
    and "strstr (h @ cstr body) (crlf @ crlf) = Some (crlf @ crlf @ cstr body)"
    and "hr_content_length req = int (length body)" and "hr_body req = []"
    and "length body < HTTP_MAX_BODY" and "body = [] \<or> \<not> is_crlf_char (last body)"
  shows "snd (http_parse_body (h @ body) req) =
    req\<lparr>hr_body := body, hr_body_expected := if body = [] then hr_body_expected req else int (length body)\<rparr>"
proof -
  have c: "cstr (h @ body) = h @ cstr body" by (rule cstr_append [OF assms(1)])
  have start: "length (h @ cstr body) - length (crlf @ crlf @ cstr body) + 4 = length h"
    using assms(2) by simp
  show ?thesis
  proof (cases "body = []")
    case True
    then show ?thesis using assms(3,5) start unfolding http_parse_body_def c by simp
  next
    case False
    then have "rstrip is_crlf_char body = body" using assms(7) by (simp add: rstrip_id)
    then show ?thesis
      using assms(3,4,6) start False unfolding http_parse_body_def c by (simp add: Let_def)
  qed
qed

text \<open>
  C10: the request parser inverts the printing of a request: the method, the URI, the version,
  every header in order and the body of a well-formed request (tokens and headers that fit
  their fields, at most 31 headers beside \<open>Content-Length\<close>, a first line of at most 511 bytes,
  a body under 4 KiB that does not end in a line break) come back exactly; the body may hold
  any bytes, NUL included.
\<close>
theorem http_parse_request_roundtrip:
  assumes "word_text meth" and "length meth < 16" and "word_text uri" and "length uri < 480" and "minor < 10"
    and "\<forall>(n, v) \<in> set hs. clean_header (n, v) \<and> strcasecmp_safe n ''content-length'' \<noteq> 0"
    and "length hs < HTTP_MAX_HEADERS"
    and "length body < HTTP_MAX_BODY" and "body = [] \<or> \<not> is_crlf_char (last body)"
  shows "\<exists>r. http_parse_request
      (print_request meth uri minor (hs @ [(''Content-Length'', dec_nat (length body))]) body) = Some r
    \<and> hr_method r = meth \<and> hr_uri r = uri \<and> hr_major r = 1 \<and> hr_minor r = int minor
    \<and> hr_headers r = hs @ [(''Content-Length'', dec_nat (length body))]
    \<and> hr_content_length r = int (length body) \<and> hr_body r = body"
proof -
  let ?hs = "hs @ [(''Content-Length'', dec_nat (length body))]"
  let ?first = "meth @ '' '' @ uri @ '' HTTP/1.'' @ dec_nat minor"
  let ?head = "?first @ crlf @ as_lines (map header_line ?hs) @ crlf"
  let ?raw = "?head @ body"
  have clean: "\<forall>h \<in> set ?hs. clean_header h" using assms(6,8) clean_dec_nat [of "length body"] by auto
  then have sendable: "\<forall>l \<in> set (map header_line ?hs). text_line l" using text_header_line by auto
  have cr: "CR \<notin> set ?first" and nul: "NUL \<notin> set ?first"
    using assms(1,3) dec_nat_chars [of CR minor] dec_nat_chars [of NUL minor] by (auto simp: word_text_def)
  have "NUL \<notin> set (as_lines ls)" if "\<forall>l \<in> set ls. text_line l" for ls
    using that by (induction ls) (auto simp: text_line_def)
  from this [OF sendable] nul have "NUL \<notin> set ?head" by simp
  then have c: "cstr ?raw = ?head @ cstr body" by (rule cstr_append)
  have len1: "length (dec_nat minor) \<le> 1" using assms(5) by (intro length_dec_nat) simp_all
  then have len: "length ?first \<le> 511" using assms(2,4) by simp
  let ?req = "http_request_init\<lparr>hr_method := meth, hr_uri := uri, hr_major := 1, hr_minor := int minor\<rparr>"
  let ?r1 = "negotiate (fold add_header ?hs ?req)"
  have headers: "http_parse_headers ?raw ?req = ?r1"
    using http_parse_headers_lines [OF cr sendable, of body ?req] fold_clean_headers [OF clean] by simp
  have "http_parse_request_line ?first http_request_init = Some ?req"
    using parse_printed_line [OF assms(1,2,3) _ assms(5)] assms(4) by simp
  from http_parse_request_split [OF cr nul len this, of "as_lines (map header_line ?hs) @ crlf @ body"]
  have parse: "http_parse_request ?raw = Some (snd (http_parse_body ?raw ?r1))"
    using headers by simp
  have hs: "hr_headers ?r1 = ?hs" using fold_add_header_headers [of ?req ?hs] assms(7)
    by (simp add: http_request_init_def)
  have "length (hr_headers (fold add_header hs ?req)) < HTTP_MAX_HEADERS"
    using fold_add_header_headers [of ?req hs] assms(7) by (simp add: http_request_init_def)
  then have cl: "hr_content_length ?r1 = int (length body)"
    using add_content_length [of "length body"] assms(8) by simp
  have "strstr (cstr ?raw) (crlf @ crlf) = Some (crlf @ crlf @ cstr body)"
    using strstr_blank_line [OF cr sendable, of "cstr body"] c by simp
  then have body: "snd (http_parse_body ?raw ?r1) = ?r1\<lparr>hr_body := body,
      hr_body_expected := if body = [] then hr_body_expected ?r1 else int (length body)\<rparr>"
    using c fold_add_header_same [of ?hs ?req] \<open>NUL \<notin> set ?head\<close>
    by (intro http_parse_body_at [OF _ _ _ cl _ assms(8,9)]) (simp_all add: http_request_init_def)
  have raw: "print_request meth uri minor ?hs body = ?raw" by (simp add: print_request_def)
  have same: "hr_method ?r1 = meth \<and> hr_uri ?r1 = uri \<and> hr_major ?r1 = 1 \<and> hr_minor ?r1 = int minor"
    using fold_add_header_same [of ?hs ?req] by simp
  show ?thesis
    unfolding raw parse body using hs cl same by simp
qed

lemma http_parse_request_roundtrip_witness:
  "\<exists>r. http_parse_request (print_request ''POST'' ''/users'' 1
       [(''Host'', ''a.b''), (''Content-Length'', dec_nat (length ''x=y''))] ''x=y'') = Some r \<and> hr_body r = ''x=y''"
proof -
  have "strcasecmp_safe ''Host'' ''content-length'' \<noteq> 0" by code_simp
  then show ?thesis
    using http_parse_request_roundtrip [of "''POST''" "''/users''" 1 "[(''Host'', ''a.b'')]" "''x=y''"]
    by (auto simp: word_text_def clean_header_def is_blank_def is_crlf_char_def simp del: strcasecmp_safe.simps)
qed


text \<open>What the fixed-size fields of \<open>http_request_t\<close> can hold.\<close>

definition headers_fit :: "http_request \<Rightarrow> bool" where
  "headers_fit r \<longleftrightarrow> length (hr_method r) < 16 \<and> length (hr_uri r) < 1024
     \<and> length (hr_headers r) \<le> HTTP_MAX_HEADERS
     \<and> (\<forall>(n, v) \<in> set (hr_headers r). length n < 64 \<and> length v < 256)
     \<and> -1 \<le> hr_content_length r \<and> hr_content_length r < 2 ^ 31"

lemma headers_fit_init: "headers_fit http_request_init"
  by (simp add: headers_fit_def http_request_init_def)

lemma headers_fit_parse_version [simp]: "headers_fit (parse_version p r) = headers_fit r"
  by (simp add: headers_fit_def parse_version_def Let_def split: option.split)

lemma headers_fit_line:
  "headers_fit r \<Longrightarrow> http_parse_request_line l r = Some r' \<Longrightarrow> headers_fit r'"
  by (auto simp: http_parse_request_line_def Let_def copy_text_def split: option.splits if_splits)
     (auto simp: headers_fit_def)

lemma split_header_fits: "split_header l = Some (n, v) \<Longrightarrow> length n < 64 \<and> length v < 256"
  by (auto simp: split_header_def copy_text_def)

lemma headers_fit_header_line: "headers_fit r \<Longrightarrow> headers_fit (parse_header_line l r)"
  using to_int32_bounds
  by (auto simp: parse_header_line_def headers_fit_def note_length_def note_connection_def atoi_def Let_def
      dest!: split_header_fits split: option.split prod.split)

lemma headers_fit_loop: "headers_fit r \<Longrightarrow> headers_fit (headers_loop s r)"
proof (induction s r rule: headers_loop.induct)
  case (1 s r)
  then show ?case by (subst headers_loop.simps) (auto simp: Let_def headers_fit_header_line)
qed

lemma headers_fit_negotiate: "headers_fit r \<Longrightarrow> headers_fit (negotiate r)"
  by (simp add: headers_fit_def)

lemma http_parse_body_shape:
  assumes "hr_body req = []"
  shows "length (hr_body (snd (http_parse_body raw req))) < HTTP_MAX_BODY
    \<and> (0 < hr_content_length req \<longrightarrow>
        int (length (hr_body (snd (http_parse_body raw req)))) \<le> hr_content_length req)"
proof (cases "strstr (cstr raw) (crlf @ crlf)")
  case None
  then show ?thesis using assms by (simp add: http_parse_body_def)
next
  case (Some p)
  let ?start = "length (cstr raw) - length p + 4"
  let ?n = "min (if hr_content_length req > 0 then min (length raw - ?start) (nat (hr_content_length req))
    else length raw - ?start) 4095"
  have short: "length (rstrip is_crlf_char (take n t)) \<le> n" for n and t :: string
    using length_rstrip [of is_crlf_char "take n t"] by simp
  show ?thesis
  proof (cases "length raw - ?start = 0")
    case True
    then show ?thesis using Some assms by (simp add: http_parse_body_def Let_def)
  next
    case False
    then have "hr_body (snd (http_parse_body raw req)) = rstrip is_crlf_char (take ?n (drop ?start raw))"
      using Some by (simp add: http_parse_body_def Let_def)
    then have "length (hr_body (snd (http_parse_body raw req))) \<le> ?n"
      using short [of ?n "drop ?start raw"] by (simp only:)
    then show ?thesis by (auto split: if_splits)
  qed
qed

text \<open>
  Whatever the bytes of a request are, what the parser stores fits the fixed-size fields:
  the request line and at most 32 headers cut to their buffers, and at most 4095 body bytes,
  never more than a positive \<open>Content-Length\<close> allows.
\<close>
theorem http_parse_request_bounded:
  assumes "http_parse_request raw = Some r"
  shows "headers_fit r \<and> length (hr_body r) < HTTP_MAX_BODY
    \<and> (0 < hr_content_length r \<longrightarrow> int (length (hr_body r)) \<le> hr_content_length r)"
proof -
  obtain l req where l: "http_parse_request_line l http_request_init = Some req"
      and r: "r = snd (http_parse_body raw (http_parse_headers raw req))"
    using assms by (auto simp: http_parse_request_def Let_def split: if_splits option.splits)
  define q where "q = http_parse_headers raw req"
  have fit: "headers_fit q"
    unfolding q_def http_parse_headers_def Let_def
    by (intro headers_fit_negotiate headers_fit_loop headers_fit_line [OF headers_fit_init l])
  have "hr_body (headers_loop s x) = hr_body x" for s x
  proof (induction s x rule: headers_loop.induct)
    case (1 s r)
    have "hr_body (parse_header_line l r) = hr_body r" for l
      by (auto simp: parse_header_line_def note_length_def note_connection_def split: option.split prod.split)
    with 1 show ?case by (subst headers_loop.simps) (simp add: Let_def)
  qed
  moreover have "hr_body req = []"
    using l by (auto simp: http_parse_request_line_def Let_def http_request_init_def parse_version_def
        split: option.splits if_splits)
  ultimately have empty: "hr_body q = []" by (simp add: q_def http_parse_headers_def Let_def)
  have same: "hr_content_length r = hr_content_length q"
    unfolding r q_def [symmetric] by (auto simp: http_parse_body_def Let_def split: option.split)
  have "headers_fit r" using fit unfolding r q_def [symmetric]
    by (auto simp: http_parse_body_def Let_def headers_fit_def split: option.split)
  then show ?thesis
    using http_parse_body_shape [OF empty, of raw] same unfolding r q_def [symmetric] by simp
qed

lemma http_parse_request_bounded_witness:
  "\<exists>r. http_parse_request (''GET /'' @ crlf @ crlf) = Some r \<and> headers_fit r"
proof -
  have "http_parse_request_line ''GET /'' http_request_init \<noteq> None"
    by (simp add: http_parse_request_line_def strchr_def cut_at_def Let_def split: option.split)
  then obtain r where r: "http_parse_request (''GET /'' @ crlf @ crlf) = Some r"
    using http_parse_request_split [of "''GET /''" _ "crlf"] by auto
  from http_parse_request_bounded [OF this] r show ?thesis by blast
qed

subsection \<open>Keep-alive\<close>

definition is_connection :: "string \<times> string \<Rightarrow> bool" where
  "is_connection h \<longleftrightarrow> strcasecmp_safe (fst h) ''connection'' = 0"

lemma add_header_keep:
  assumes "length (hr_headers req) < HTTP_MAX_HEADERS"
  shows "hr_keep_alive (add_header h req) =
    (if is_connection h
     then (if strcasecmp_safe (snd h) ''close'' = 0 then False
           else if strcasecmp_safe (snd h) ''keep-alive'' = 0 then True else hr_keep_alive req)
     else hr_keep_alive req)"
  using assms by (auto simp: add_header_def note_connection_def note_length_def is_connection_def split: prod.split)

lemma fold_keep_none:
  "length (hr_headers req) + length hs \<le> HTTP_MAX_HEADERS \<Longrightarrow> filter is_connection hs = [] \<Longrightarrow>
     hr_keep_alive (fold add_header hs req) = hr_keep_alive req"
  by (induction hs arbitrary: req) (auto simp: add_header_keep split: if_splits)

lemma fold_keep_one:
  "length (hr_headers req) + length hs \<le> HTTP_MAX_HEADERS \<Longrightarrow> filter is_connection hs = [h] \<Longrightarrow>
     hr_keep_alive (fold add_header hs req) =
       (if strcasecmp_safe (snd h) ''close'' = 0 then False
        else if strcasecmp_safe (snd h) ''keep-alive'' = 0 then True else hr_keep_alive req)"
proof (induction hs arbitrary: req)
  case (Cons x hs)
  show ?case
  proof (cases "is_connection x")
    case True
    then have "x = h" "filter is_connection hs = []" using Cons.prems(2) by auto
    then show ?thesis
      using fold_keep_none [of "add_header x req" hs] Cons.prems(1) True by (simp add: add_header_keep)
  next
    case False
    then show ?thesis using Cons by (simp add: add_header_keep)
  qed
qed simp

lemma find_filter: "find P xs = (case filter P xs of [] \<Rightarrow> None | x # _ \<Rightarrow> Some x)"
  by (induction xs) auto

lemma close_not_keep_alive:
  "strcasecmp_safe v ''close'' = 0 \<Longrightarrow> strcasecmp_safe v ''keep-alive'' \<noteq> 0"
proof -
  have "tolower_c CHR ''c'' = CHR ''c''" "tolower_c CHR ''k'' = CHR ''k''" by code_simp+
  then show "strcasecmp_safe v ''close'' = 0 \<Longrightarrow> strcasecmp_safe v ''keep-alive'' \<noteq> 0"
    by (cases v) (auto split: if_splits)
qed

definition connection_value :: "(string \<times> string) list \<Rightarrow> string option" where
  "connection_value hs = (case filter is_connection hs of [] \<Rightarrow> None | h # _ \<Rightarrow> Some (snd h))"

text \<open>
  Keep-alive follows the rules of HTTP: an HTTP/1.0 request keeps the connection exactly
  when its \<open>Connection\<close> header says \<open>keep-alive\<close>, any other request unless it says \<open>close\<close>
  (names and values compared without regard to case, at most one such header).
\<close>
theorem http_parse_headers_keep_alive:
  assumes "CR \<notin> set first" and "\<forall>h \<in> set hs. clean_header h" and "length hs \<le> HTTP_MAX_HEADERS"
    and "length (filter is_connection hs) \<le> 1"
    and "hr_headers req = []" and "hr_keep_alive req"
  shows "hr_keep_alive (http_parse_headers (first @ crlf @ as_lines (map header_line hs) @ crlf @ t) req) \<longleftrightarrow>
    (if hr_major req = 1 \<and> hr_minor req = 0
     then (\<exists>v. connection_value hs = Some v \<and> strcasecmp_safe v ''keep-alive'' = 0)
     else \<not> (\<exists>v. connection_value hs = Some v \<and> strcasecmp_safe v ''close'' = 0))"
proof -
  let ?q = "fold add_header hs req"
  have "\<forall>l \<in> set (map header_line hs). text_line l" using assms(2) text_header_line by auto
  then have eq: "http_parse_headers (first @ crlf @ as_lines (map header_line hs) @ crlf @ t) req = negotiate ?q"
    using http_parse_headers_lines [OF assms(1)] fold_clean_headers [OF assms(2)] by simp
  have ver: "hr_major ?q = hr_major req" "hr_minor ?q = hr_minor req" using fold_add_header_same by auto
  have "hr_headers ?q = hs" using fold_add_header_headers [of req hs] assms(3,5) by simp
  then have get: "http_get_header ?q ''connection'' = connection_value hs"
  proof -
    have "(\<lambda>(n, v). strcasecmp_safe n ''connection'' = 0) = is_connection"
      by (auto simp: is_connection_def)
    then show ?thesis
      using find_filter [of is_connection hs] \<open>hr_headers ?q = hs\<close>
      by (simp add: http_get_header_def connection_value_def split: list.split)
  qed
  consider "filter is_connection hs = []" | h where "filter is_connection hs = [h]"
    using assms(4) by (cases "filter is_connection hs"; cases "tl (filter is_connection hs)") auto
  then show ?thesis
  proof cases
    case 1
    then show ?thesis
      using eq ver get fold_keep_none [of req hs] assms(3,5,6)
      by (simp add: negotiate_def connection_value_def)
  next
    case (2 h)
    then show ?thesis
      using eq ver get fold_keep_one [of req hs h] assms(3,5,6) close_not_keep_alive [of "snd h"]
      by (auto simp: negotiate_def connection_value_def)
  qed
qed

lemma http_parse_headers_keep_alive_witness:
  "hr_keep_alive (http_parse_headers (''GET / HTTP/1.1'' @ crlf
      @ as_lines (map header_line [(''Connection'', ''Keep-Alive'')]) @ crlf @ []) http_request_init)"
  using known_names
  by (subst http_parse_headers_keep_alive)
     (simp_all add: clean_header_def is_blank_def http_request_init_def connection_value_def is_connection_def
       del: strcasecmp_safe.simps)

subsection \<open>Static files\<close>

lemma strstr_None: "strstr s p = None \<longleftrightarrow> \<not> sublist p s"
proof (induction s)
  case Nil
  then show ?case by (subst strstr.simps) (simp add: starts_with_def)
next
  case (Cons c s)
  then show ?case by (subst strstr.simps) (simp add: starts_with_prefix sublist_Cons_right)
qed

lemma no_dots_append:
  assumes "\<not> sublist ''..'' a" and "\<not> sublist ''..'' b"
  shows "\<not> sublist ''..'' (a @ CHR ''/'' # b)"
  using assms
proof (induction a)
  case Nil
  then show ?case by (simp add: sublist_Cons_right)
next
  case (Cons c a)
  then have "\<not> prefix ''..'' (c # a)" "\<not> sublist ''..'' a" by (auto simp: sublist_Cons_right)
  then show ?case using Cons by (cases a) (auto simp: sublist_Cons_right)
qed

text \<open>
  C39: the traversal check is effective: when the document root has no \<open>..\<close>, a URI that passes
  \<open>http_is_safe_path\<close> is mapped by \<open>http_serve_file\<close> to a path that begins with the root and a
  slash (as far as the 511 bytes of the buffer go) and contains no \<open>..\<close> anywhere.
\<close>
theorem http_serve_file_confined:
  assumes "http_is_safe_path uri" and "\<not> sublist ''..'' root"
  shows "(\<exists>rel. file_path root uri = take 511 (root @ ''/'' @ rel)) \<and> \<not> sublist ''..'' (file_path root uri)"
proof -
  define rel where "rel = (if uri = ''/'' then ''index.html'' else dropWhile (\<lambda>c. c = CHR ''/'') uri)"
  have f: "file_path root uri = take 511 (root @ ''/'' @ rel)"
    by (simp add: file_path_def snprintf_to_def rel_def)
  have "\<not> sublist ''..'' uri" using assms(1) by (simp add: http_is_safe_path_def strstr_None)
  moreover have "suffix (dropWhile (\<lambda>c. c = CHR ''/'') uri) uri" by (rule suffix_dropWhile)
  ultimately have "\<not> sublist ''..'' (dropWhile (\<lambda>c. c = CHR ''/'') uri)"
    by (meson sublist_order.order_trans suffix_imp_sublist)
  moreover have "\<not> sublist ''..'' ''index.html''" by (simp add: sublist_Cons_right)
  ultimately have "\<not> sublist ''..'' rel" by (simp add: rel_def)
  then have "\<not> sublist ''..'' (root @ CHR ''/'' # rel)" by (rule no_dots_append [OF assms(2)])
  then have "\<not> sublist ''..'' (take 511 (root @ CHR ''/'' # rel))"
    by (meson prefix_imp_sublist sublist_order.order_trans take_is_prefix)
  then show ?thesis using f by auto
qed

lemma http_serve_file_confined_witness: "\<not> sublist ''..'' (file_path ''www'' ''/a/b.css'')"
proof -
  have "\<not> sublist ''..'' ''/a/b.css''" "\<not> sublist ''..'' ''www''"
    by (simp_all add: sublist_Cons_right)
  then show ?thesis
    using http_serve_file_confined [of "''/a/b.css''" "''www''"]
    by (simp add: http_is_safe_path_def strstr_None strchr_None)
qed

end
