(* ===== verification/User_Index.thy ===== *)
theory User_Index
  imports Prelude "HOL-Library.Tree"
begin

text \<open>
  The name index of \<open>src/user_index.c\<close>: a red-black tree of nodes in shared memory.  A node is
  named by its index in the tree pool; index 0 is the sentinel \<open>g_nil\<close>.  \<open>bst\<close> holds the
  wrapper \<open>BST\<close> (root and size) together with the pool, a function from indices to nodes;
  \<open>bn_user\<close> is the index of a user in the list pool (\<open>None\<close> for offset 0).  Operations are
  state transformers over that heap, written in the order the code updates the fields; a loop
  that follows pointers is a \<open>partial_function\<close>, so that \<open>None\<close> is the value of a loop that
  never ends.  \<open>nm\<close> gives the name stored in a list node.
\<close>

datatype color = RBT_RED | RBT_BLACK

record bst_node =
  bn_user :: "nat option"
  bn_left :: nat
  bn_right :: nat
  bn_parent :: nat
  bn_color :: color
  bn_used :: bool

record bst =
  bt_root :: nat
  bt_size :: int
  bt_node :: "nat \<Rightarrow> bst_node"

type_synonym names = "nat \<Rightarrow> string"

abbreviation g_nil :: nat where "g_nil \<equiv> 0"

abbreviation left_of :: "bst \<Rightarrow> nat \<Rightarrow> nat" where "left_of t x \<equiv> bn_left (bt_node t x)"
abbreviation right_of :: "bst \<Rightarrow> nat \<Rightarrow> nat" where "right_of t x \<equiv> bn_right (bt_node t x)"
abbreviation parent_of :: "bst \<Rightarrow> nat \<Rightarrow> nat" where "parent_of t x \<equiv> bn_parent (bt_node t x)"
abbreviation color_of :: "bst \<Rightarrow> nat \<Rightarrow> color" where "color_of t x \<equiv> bn_color (bt_node t x)"

definition upd :: "nat \<Rightarrow> (bst_node \<Rightarrow> bst_node) \<Rightarrow> bst \<Rightarrow> bst" where
  "upd x f t = t\<lparr>bt_node := (bt_node t)(x := f (bt_node t x))\<rparr>"

abbreviation set_left :: "nat \<Rightarrow> nat \<Rightarrow> bst \<Rightarrow> bst" where
  "set_left x v t \<equiv> upd x (\<lambda>n. n\<lparr>bn_left := v\<rparr>) t"
abbreviation set_right :: "nat \<Rightarrow> nat \<Rightarrow> bst \<Rightarrow> bst" where
  "set_right x v t \<equiv> upd x (\<lambda>n. n\<lparr>bn_right := v\<rparr>) t"
abbreviation set_parent :: "nat \<Rightarrow> nat \<Rightarrow> bst \<Rightarrow> bst" where
  "set_parent x v t \<equiv> upd x (\<lambda>n. n\<lparr>bn_parent := v\<rparr>) t"
abbreviation set_color :: "nat \<Rightarrow> color \<Rightarrow> bst \<Rightarrow> bst" where
  "set_color x c t \<equiv> upd x (\<lambda>n. n\<lparr>bn_color := c\<rparr>) t"

definition bst_init :: "bst \<Rightarrow> bst" where
  "bst_init t = t\<lparr>bt_root := g_nil, bt_size := 0\<rparr>"

subsection \<open>Rotations\<close>

definition relink :: "nat \<Rightarrow> nat \<Rightarrow> bst \<Rightarrow> bst" where
  \<comment> \<open>makes \<open>v\<close> the child of the parent of \<open>x\<close>, testing the left link first\<close>
  "relink x v t =
     (if parent_of t x = g_nil then t\<lparr>bt_root := v\<rparr>
      else if x = left_of t (parent_of t x) then set_left (parent_of t x) v t
      else set_right (parent_of t x) v t)"

definition relink_right :: "nat \<Rightarrow> nat \<Rightarrow> bst \<Rightarrow> bst" where
  \<comment> \<open>the same, testing the right link first\<close>
  "relink_right x v t =
     (if parent_of t x = g_nil then t\<lparr>bt_root := v\<rparr>
      else if x = right_of t (parent_of t x) then set_right (parent_of t x) v t
      else set_left (parent_of t x) v t)"

definition reparent :: "nat \<Rightarrow> nat \<Rightarrow> bst \<Rightarrow> bst" where
  \<comment> \<open>\<open>if (!IS_NIL(p)) p->parent_off = q\<close>\<close>
  "reparent p q t = (if p \<noteq> g_nil then set_parent p q t else t)"

definition rbt_left_rotate :: "nat \<Rightarrow> bst \<Rightarrow> bst" where
  "rbt_left_rotate x t =
     (let y = right_of t x;
          t = set_right x (left_of t y) t;
          t = reparent (left_of t y) x t;
          t = set_parent y (parent_of t x) t;
          t = relink x y t;
          t = set_left y x t
      in set_parent x y t)"

definition rbt_right_rotate :: "nat \<Rightarrow> bst \<Rightarrow> bst" where
  "rbt_right_rotate x t =
     (let y = left_of t x;
          t = set_left x (right_of t y) t;
          t = reparent (right_of t y) x t;
          t = set_parent y (parent_of t x) t;
          t = relink_right x y t;
          t = set_right y x t
      in set_parent x y t)"

subsection \<open>Insertion\<close>

definition fixup_step :: "bst \<Rightarrow> nat \<Rightarrow> bst \<times> nat" where
  \<comment> \<open>one iteration of the loop of \<open>rbt_insert_fixup\<close>: the tree and \<open>z\<close> afterwards\<close>
  "fixup_step t z =
     (let zp = parent_of t z; zpp = parent_of t zp
      in if zp = left_of t zpp
         then (let y = right_of t zpp
               in if color_of t y = RBT_RED
                  then (set_color zpp RBT_RED (set_color y RBT_BLACK (set_color zp RBT_BLACK t)), zpp)
                  else (let (t, z) = (if z = right_of t zp then (rbt_left_rotate zp t, zp) else (t, z));
                            zp = parent_of t z; zpp = parent_of t zp;
                            t = set_color zpp RBT_RED (set_color zp RBT_BLACK t)
                        in (rbt_right_rotate zpp t, z)))
         else (let y = left_of t zpp
               in if color_of t y = RBT_RED
                  then (set_color zpp RBT_RED (set_color y RBT_BLACK (set_color zp RBT_BLACK t)), zpp)
                  else (let (t, z) = (if z = left_of t zp then (rbt_right_rotate zp t, zp) else (t, z));
                            zp = parent_of t z; zpp = parent_of t zp;
                            t = set_color zpp RBT_RED (set_color zp RBT_BLACK t)
                        in (rbt_left_rotate zpp t, z))))"

partial_function (option) fixup_loop :: "bst \<Rightarrow> nat \<Rightarrow> bst option" where
  "fixup_loop t z =
     (if color_of t (parent_of t z) = RBT_RED
      then (let (t', z') = fixup_step t z in fixup_loop t' z') else Some t)"

definition rbt_insert_fixup :: "bst \<Rightarrow> nat \<Rightarrow> bst option" where
  "rbt_insert_fixup t z = map_option (\<lambda>t. set_color (bt_root t) RBT_BLACK t) (fixup_loop t z)"

definition goes_left :: "names \<Rightarrow> bst \<Rightarrow> string \<Rightarrow> nat \<Rightarrow> bool" where
  \<comment> \<open>\<open>xu && strcmp(user->data.name, xu->data.name) < 0\<close>\<close>
  "goes_left nm t name x = (case bn_user (bt_node t x) of None \<Rightarrow> False | Some u \<Rightarrow> strcmp name (nm u) < 0)"

partial_function (option) descend :: "names \<Rightarrow> bst \<Rightarrow> string \<Rightarrow> nat \<Rightarrow> nat \<Rightarrow> nat option" where
  \<comment> \<open>\<open>while (!IS_NIL(x)) { y = x; ... }\<close>: the final \<open>y\<close>\<close>
  "descend nm t name x y =
     (if x = g_nil then Some y
      else descend nm t name (if goes_left nm t name x then left_of t x else right_of t x) x)"

definition hang_node :: "names \<Rightarrow> string \<Rightarrow> nat \<Rightarrow> nat \<Rightarrow> bst \<Rightarrow> bst" where
  \<comment> \<open>makes \<open>z\<close> the root or a child of \<open>y\<close>\<close>
  "hang_node nm name z y t =
     (if y = g_nil then t\<lparr>bt_root := z\<rparr>
      else if goes_left nm t name y then set_left y z t else set_right y z t)"

definition bst_insert :: "names \<Rightarrow> string \<Rightarrow> nat \<Rightarrow> bst \<Rightarrow> bst option" where
  \<comment> \<open>\<open>z\<close> is the node allocated last, \<open>g_tree_pool[tree_next_free - 1]\<close>\<close>
  "bst_insert nm name z t =
     (let t = upd z (\<lambda>n. n\<lparr>bn_left := g_nil, bn_right := g_nil, bn_color := RBT_RED\<rparr>) t
      in Option.bind (descend nm t name (bt_root t) g_nil)
           (\<lambda>y. let t = set_parent z y t;
                    t = hang_node nm name z y t
                in rbt_insert_fixup (t\<lparr>bt_size := bt_size t + 1\<rparr>) z))"

subsection \<open>Search\<close>

partial_function (option) find_loop :: "names \<Rightarrow> bst \<Rightarrow> string \<Rightarrow> nat \<Rightarrow> nat \<Rightarrow> (nat option \<times> nat) option" where
  \<comment> \<open>the user found and the number of nodes visited\<close>
  "find_loop nm t name x s =
     (if x = g_nil then Some (None, s)
      else case bn_user (bt_node t x) of
             None \<Rightarrow> Some (None, s + 1)
           | Some u \<Rightarrow>
               if strcmp name (nm u) = 0 then Some (Some u, s + 1)
               else find_loop nm t name (if strcmp name (nm u) < 0 then left_of t x else right_of t x) (s + 1))"

definition bst_find :: "names \<Rightarrow> bst \<Rightarrow> string \<Rightarrow> nat option option" where
  "bst_find nm t name = map_option fst (find_loop nm t name (bt_root t) 0)"

definition bst_find_with_steps :: "names \<Rightarrow> bst \<Rightarrow> string \<Rightarrow> (nat option \<times> nat) option" where
  "bst_find_with_steps nm t name = find_loop nm t name (bt_root t) 0"

subsection \<open>Deletion\<close>

partial_function (option) rbt_minimum :: "bst \<Rightarrow> nat \<Rightarrow> nat option" where
  "rbt_minimum t x = (if left_of t x \<noteq> g_nil then rbt_minimum t (left_of t x) else Some x)"

definition rbt_transplant :: "nat \<Rightarrow> nat \<Rightarrow> bst \<Rightarrow> bst" where
  "rbt_transplant u v t =
     (let t = relink u v t in set_parent v (parent_of t u) t)"

definition delete_fix_left :: "bst \<Rightarrow> nat \<Rightarrow> bst \<times> nat" where
  \<comment> \<open>one iteration of \<open>rbt_delete_fixup\<close> when \<open>x\<close> is a left child\<close>
  "delete_fix_left t x =
     (let xp = parent_of t x; w = right_of t xp;
          (t, xp, w) =
            (if color_of t w = RBT_RED
             then (let t = rbt_left_rotate xp (set_color xp RBT_RED (set_color w RBT_BLACK t));
                       xp = parent_of t x
                   in (t, xp, right_of t xp))
             else (t, xp, w))
      in if color_of t (left_of t w) = RBT_BLACK \<and> color_of t (right_of t w) = RBT_BLACK
         then (set_color w RBT_RED t, xp)
         else (let (t, xp, w) =
                     (if color_of t (right_of t w) = RBT_BLACK
                      then (let t = rbt_right_rotate w (set_color w RBT_RED (set_color (left_of t w) RBT_BLACK t));
                                xp = parent_of t x
                            in (t, xp, right_of t xp))
                      else (t, xp, w));
                   t = set_color w (color_of t xp) t;
                   t = set_color xp RBT_BLACK t;
                   t = set_color (right_of t w) RBT_BLACK t;
                   t = rbt_left_rotate xp t
               in (t, bt_root t)))"

definition delete_fix_right :: "bst \<Rightarrow> nat \<Rightarrow> bst \<times> nat" where
  "delete_fix_right t x =
     (let xp = parent_of t x; w = left_of t xp;
          (t, xp, w) =
            (if color_of t w = RBT_RED
             then (let t = rbt_right_rotate xp (set_color xp RBT_RED (set_color w RBT_BLACK t));
                       xp = parent_of t x
                   in (t, xp, left_of t xp))
             else (t, xp, w))
      in if color_of t (right_of t w) = RBT_BLACK \<and> color_of t (left_of t w) = RBT_BLACK
         then (set_color w RBT_RED t, xp)
         else (let (t, xp, w) =
                     (if color_of t (left_of t w) = RBT_BLACK
                      then (let t = rbt_left_rotate w (set_color w RBT_RED (set_color (right_of t w) RBT_BLACK t));
                                xp = parent_of t x
                            in (t, xp, left_of t xp))
                      else (t, xp, w));
                   t = set_color w (color_of t xp) t;
                   t = set_color xp RBT_BLACK t;
                   t = set_color (left_of t w) RBT_BLACK t;
                   t = rbt_right_rotate xp t
               in (t, bt_root t)))"

definition delete_fix_step :: "bst \<Rightarrow> nat \<Rightarrow> bst \<times> nat" where
  "delete_fix_step t x =
     (if x = left_of t (parent_of t x) then delete_fix_left t x else delete_fix_right t x)"

partial_function (option) delete_fix_loop :: "bst \<Rightarrow> nat \<Rightarrow> (bst \<times> nat) option" where
  "delete_fix_loop t x =
     (if x \<noteq> bt_root t \<and> color_of t x = RBT_BLACK
      then (let (t', x') = delete_fix_step t x in delete_fix_loop t' x') else Some (t, x))"

definition rbt_delete_fixup :: "bst \<Rightarrow> nat \<Rightarrow> bst option" where
  "rbt_delete_fixup t x = map_option (\<lambda>(t, x). set_color x RBT_BLACK t) (delete_fix_loop t x)"

partial_function (option) find_node :: "names \<Rightarrow> bst \<Rightarrow> string \<Rightarrow> nat \<Rightarrow> nat option" where
  \<comment> \<open>the node to delete, or \<open>g_nil\<close>\<close>
  "find_node nm t name z =
     (if z = g_nil then Some z
      else case bn_user (bt_node t z) of
             None \<Rightarrow> Some z
           | Some u \<Rightarrow>
               if strcmp name (nm u) = 0 then Some z
               else find_node nm t name (if strcmp name (nm u) < 0 then left_of t z else right_of t z))"

definition unlink :: "nat \<Rightarrow> bst \<Rightarrow> (bst \<times> nat \<times> color) option" where
  \<comment> \<open>takes \<open>z\<close> out of the tree: the tree, \<open>x\<close> and \<open>y_orig_color\<close>\<close>
  "unlink z t =
     (if left_of t z = g_nil then
        (let x = right_of t z in Some (rbt_transplant z x t, x, color_of t z))
      else if right_of t z = g_nil then
        (let x = left_of t z in Some (rbt_transplant z x t, x, color_of t z))
      else Option.bind (rbt_minimum t (right_of t z))
        (\<lambda>y. let yc = color_of t y; x = right_of t y;
                 t = (if parent_of t y = z then set_parent x y t
                      else let t = rbt_transplant y x t;
                               t = set_right y (right_of t z) t
                           in set_parent (right_of t y) y t);
                 t = rbt_transplant z y t;
                 t = set_left y (left_of t z) t;
                 t = set_parent (left_of t y) y t;
                 t = set_color y (color_of t z) t
             in Some (t, x, yc)))"

definition bst_delete :: "names \<Rightarrow> string \<Rightarrow> bst \<Rightarrow> (int \<times> bst) option" where
  "bst_delete nm name t =
     Option.bind (find_node nm t name (bt_root t))
       (\<lambda>z. if z = g_nil then Some (-1, t)
            else Option.bind (unlink z t)
              (\<lambda>(t, x, yc).
                 let t = upd z (\<lambda>n. n\<lparr>bn_used := False\<rparr>) t
                 in Option.bind (if yc = RBT_BLACK then rbt_delete_fixup t x else Some t)
                      (\<lambda>t. Some (0, t\<lparr>bt_size := bt_size t - 1\<rparr>))))"

partial_function (option) predecessor_loop ::
    "names \<Rightarrow> bst \<Rightarrow> nat option \<Rightarrow> nat \<Rightarrow> nat \<Rightarrow> nat \<Rightarrow> (nat \<times> nat) option" where
  "predecessor_loop nm t nu x pre parent =
     (if x = g_nil then Some (pre, parent)
      else case (bn_user (bt_node t x), nu) of
             (Some u, Some v) \<Rightarrow>
               if strcmp (nm v) (nm u) \<le> 0 then predecessor_loop nm t nu (left_of t x) pre x
               else predecessor_loop nm t nu (right_of t x) x x
           | _ \<Rightarrow> Some (pre, parent))"

definition rbt_find_predecessor :: "names \<Rightarrow> bst \<Rightarrow> nat \<Rightarrow> (nat \<times> nat) option" where
  "rbt_find_predecessor nm t x = predecessor_loop nm t (bn_user (bt_node t x)) (bt_root t) g_nil g_nil"

definition bst_free :: "bst \<Rightarrow> bst" where
  "bst_free t = t\<lparr>bt_root := g_nil, bt_size := 0\<rparr>"

end
