(* ===== verification/User_Index_Heap.thy ===== *)
theory User_Index_Heap
  imports User_Index
begin

text \<open>
  The tree that the heap of the name index represents.  \<open>rep\<close> relates a heap to a functional
  tree of (address, colour) pairs; a position in the tree is a subtree and the path of \<open>crumb\<close>s
  that leads from it to the root, and \<open>at_hole\<close> says that a heap holds such a position.  The
  rules about \<open>upd\<close> let the simplifier execute pointer updates symbolically: an update leaves
  alone what does not contain its address.
\<close>

type_synonym ctree = "(nat \<times> color) tree"

datatype crumb = InL nat color ctree | InR ctree nat color

fun addrs :: "ctree \<Rightarrow> nat set" where
  "addrs Leaf = {}"
| "addrs (Node l (a, c) r) = insert a (addrs l \<union> addrs r)"

fun dist :: "ctree \<Rightarrow> bool" where
  "dist Leaf = True"
| "dist (Node l (a, c) r) \<longleftrightarrow>
     a \<notin> addrs l \<and> a \<notin> addrs r \<and> addrs l \<inter> addrs r = {} \<and> dist l \<and> dist r"

fun caddrs :: "crumb list \<Rightarrow> nat set" where
  "caddrs [] = {}"
| "caddrs (InL a c r # k) = insert a (addrs r \<union> caddrs k)"
| "caddrs (InR l a c # k) = insert a (addrs l \<union> caddrs k)"

fun cdist :: "crumb list \<Rightarrow> bool" where
  "cdist [] = True"
| "cdist (InL a c r # k) \<longleftrightarrow> a \<notin> addrs r \<and> a \<notin> caddrs k \<and> addrs r \<inter> caddrs k = {} \<and> dist r \<and> cdist k"
| "cdist (InR l a c # k) \<longleftrightarrow> a \<notin> addrs l \<and> a \<notin> caddrs k \<and> addrs l \<inter> caddrs k = {} \<and> dist l \<and> cdist k"

fun plug :: "crumb list \<Rightarrow> ctree \<Rightarrow> ctree" where
  "plug [] T = T"
| "plug (InL a c r # k) T = plug k (Node T (a, c) r)"
| "plug (InR l a c # k) T = plug k (Node l (a, c) T)"

fun par :: "crumb list \<Rightarrow> nat" where
  "par [] = g_nil"
| "par (InL a c r # k) = a"
| "par (InR l a c # k) = a"

fun rep :: "bst \<Rightarrow> nat \<Rightarrow> nat \<Rightarrow> ctree \<Rightarrow> bool" where
  "rep t q p Leaf \<longleftrightarrow> p = g_nil"
| "rep t q p (Node l (a, c) r) \<longleftrightarrow> p = a \<and> a \<noteq> g_nil \<and> parent_of t a = q \<and> color_of t a = c
     \<and> rep t a (left_of t a) l \<and> rep t a (right_of t a) r"

fun hole :: "bst \<Rightarrow> crumb list \<Rightarrow> nat" where
  "hole t [] = bt_root t"
| "hole t (InL a c r # k) = left_of t a"
| "hole t (InR l a c # k) = right_of t a"

fun crest :: "bst \<Rightarrow> crumb list \<Rightarrow> bool" where
  "crest t [] = True"
| "crest t (InL a c r # k) \<longleftrightarrow> a \<noteq> g_nil \<and> color_of t a = c \<and> parent_of t a = par k
     \<and> rep t a (right_of t a) r \<and> hole t k = a \<and> crest t k"
| "crest t (InR l a c # k) \<longleftrightarrow> a \<noteq> g_nil \<and> color_of t a = c \<and> parent_of t a = par k
     \<and> rep t a (left_of t a) l \<and> hole t k = a \<and> crest t k"

text \<open>The heap holds the tree \<open>plug k T\<close>, with the subtree \<open>T\<close> at address \<open>p\<close>.\<close>

definition at_hole :: "bst \<Rightarrow> crumb list \<Rightarrow> nat \<Rightarrow> ctree \<Rightarrow> bool" where
  "at_hole t k p T \<longleftrightarrow> rep t (par k) p T \<and> hole t k = p \<and> crest t k
     \<and> dist T \<and> cdist k \<and> addrs T \<inter> caddrs k = {}"

definition holds :: "bst \<Rightarrow> ctree \<Rightarrow> bool" where
  "holds t T \<longleftrightarrow> at_hole t [] (bt_root t) T"

lemma upd_simps [simp]:
  "bt_node (upd x f t) y = (if y = x then f (bt_node t x) else bt_node t y)"
  "bt_root (upd x f t) = bt_root t" "bt_size (upd x f t) = bt_size t"
  by (simp_all add: upd_def)

lemma rep_upd [simp]: "a \<notin> addrs T \<Longrightarrow> rep (upd a f t) q p T = rep t q p T"
  by (induction T arbitrary: q p rule: addrs.induct) auto

lemma rep_root [simp]: "rep (t\<lparr>bt_root := r\<rparr>) q p T = rep t q p T"
  by (induction T arbitrary: q p rule: addrs.induct) auto

lemma rep_size [simp]: "rep (t\<lparr>bt_size := n\<rparr>) q p T = rep t q p T"
  by (induction T arbitrary: q p rule: addrs.induct) auto

lemma par_caddrs: "k \<noteq> [] \<Longrightarrow> par k \<in> caddrs k"
  by (cases k rule: par.cases) auto

lemma par_nil: "crest t k \<Longrightarrow> par k = g_nil \<longleftrightarrow> k = []"
  by (cases k rule: par.cases) auto

lemma hole_upd [simp]: "a \<notin> caddrs k \<Longrightarrow> hole (upd a f t) k = hole t k"
  by (cases k rule: par.cases) auto

lemma crest_upd [simp]: "a \<notin> caddrs k \<Longrightarrow> crest (upd a f t) k = crest t k"
proof (induction k rule: caddrs.induct)
  case (2 b c r k)
  then have "hole (upd a f t) k = hole t k" by (intro hole_upd) simp
  then show ?case using 2 by (simp del: hole_upd)
next
  case (3 l b c k)
  then have "hole (upd a f t) k = hole t k" by (intro hole_upd) simp
  then show ?case using 3 by (simp del: hole_upd)
qed simp

lemma crest_size [simp]: "crest (t\<lparr>bt_size := n\<rparr>) k = crest t k"
proof (induction k rule: caddrs.induct)
  case (2 a c r k)
  then show ?case by (cases k rule: par.cases) auto
next
  case (3 l a c k)
  then show ?case by (cases k rule: par.cases) auto
qed simp

lemma hole_size [simp]: "hole (t\<lparr>bt_size := n\<rparr>) k = hole t k"
  by (cases k rule: par.cases) auto

lemma rep_not_nil [dest]: "rep t q p T \<Longrightarrow> g_nil \<notin> addrs T"
  by (induction T arbitrary: q p rule: addrs.induct) auto

lemma crest_not_nil [dest]: "crest t k \<Longrightarrow> g_nil \<notin> caddrs k"
  by (induction k rule: caddrs.induct) auto

lemma rep_addr: "rep t q p T \<Longrightarrow> T \<noteq> Leaf \<Longrightarrow> p \<in> addrs T"
  by (cases T rule: addrs.cases) auto

lemma rep_nil_iff: "rep t q p T \<Longrightarrow> p = g_nil \<longleftrightarrow> T = Leaf"
  by (cases T rule: addrs.cases) auto

lemma addrs_plug: "addrs (plug k T) = caddrs k \<union> addrs T"
  by (induction k T rule: plug.induct) auto

lemma dist_plug: "dist (plug k T) \<longleftrightarrow> dist T \<and> cdist k \<and> addrs T \<inter> caddrs k = {}"
  by (induction k T rule: plug.induct) auto

text \<open>Going up one level, and so to the root.\<close>

lemma at_hole_up_L: "at_hole t (InL a c r # k) p T \<longleftrightarrow> at_hole t k a (Node T (a, c) r) \<and> left_of t a = p"
  by (auto simp: at_hole_def)

lemma at_hole_up_R: "at_hole t (InR l a c # k) p T \<longleftrightarrow> at_hole t k a (Node l (a, c) T) \<and> right_of t a = p"
  by (auto simp: at_hole_def)

lemma at_hole_root: "at_hole t k p T \<Longrightarrow> holds t (plug k T)"
proof (induction k T arbitrary: p rule: plug.induct)
  case (1 T)
  then show ?case by (auto simp: holds_def at_hole_def)
next
  case (2 a c r k T)
  from "2.prems" have "at_hole t k a (Node T (a, c) r)" by (simp add: at_hole_up_L)
  from "2.IH" [OF this] show ?case by simp
next
  case (3 l a c k T)
  from "3.prems" have "at_hole t k a (Node l (a, c) T)" by (simp add: at_hole_up_R)
  from "3.IH" [OF this] show ?case by simp
qed

subsection \<open>Rotations\<close>

fun set_hole :: "crumb list \<Rightarrow> nat \<Rightarrow> bst \<Rightarrow> bst" where
  "set_hole [] p t = t\<lparr>bt_root := p\<rparr>"
| "set_hole (InL a c r # k) p t = set_left a p t"
| "set_hole (InR l a c # k) p t = set_right a p t"

lemma reparent_fields [simp]:
  "left_of (reparent p q t) a = left_of t a" "right_of (reparent p q t) a = right_of t a"
  "color_of (reparent p q t) a = color_of t a" "bt_root (reparent p q t) = bt_root t"
  "a \<noteq> p \<Longrightarrow> parent_of (reparent p q t) a = parent_of t a"
  "bt_size (reparent p q t) = bt_size t" "bn_user (bt_node (reparent p q t) a) = bn_user (bt_node t a)"
  by (auto simp: reparent_def)

lemma rep_reparent [simp]: "p \<notin> addrs T \<Longrightarrow> rep (reparent p q t) q' p' T = rep t q' p' T"
  by (simp add: reparent_def)

lemma rep_reparented: "rep t q0 p T \<Longrightarrow> dist T \<Longrightarrow> rep (reparent p q t) q p T"
  by (cases T rule: addrs.cases) (auto simp: reparent_def)

lemma hole_reparent [simp]: "hole (reparent p q t) k = hole t k"
  by (cases k rule: par.cases) auto

lemma crest_reparent [simp]: "p \<notin> caddrs k \<Longrightarrow> crest (reparent p q t) k = crest t k"
  by (simp add: reparent_def)

lemma set_hole_fields [simp]:
  "a \<notin> caddrs k \<Longrightarrow> bt_node (set_hole k p t) a = bt_node t a"
  "parent_of (set_hole k p t) a = parent_of t a" "color_of (set_hole k p t) a = color_of t a"
  "bt_size (set_hole k p t) = bt_size t" "bn_user (bt_node (set_hole k p t) a) = bn_user (bt_node t a)"
  "bn_used (bt_node (set_hole k p t) a) = bn_used (bt_node t a)"
  by (cases k rule: par.cases; auto)+

lemma rep_set_hole [simp]: "addrs T \<inter> caddrs k = {} \<Longrightarrow> rep (set_hole k p t) q p' T = rep t q p' T"
  by (cases k rule: par.cases) auto

lemma hole_set_hole [simp]: "hole (set_hole k p t) k = p"
  by (cases k rule: par.cases) auto

lemma crest_root [simp]: "k \<noteq> [] \<Longrightarrow> hole (t\<lparr>bt_root := r\<rparr>) k = hole t k"
  by (cases k rule: par.cases) auto

lemma crest_set_hole [simp]: "cdist k \<Longrightarrow> crest (set_hole k p t) k = crest t k"
  by (cases k rule: par.cases) auto

lemma root_notin: "rep t q p T \<Longrightarrow> addrs T \<inter> S = {} \<Longrightarrow> g_nil \<notin> S \<Longrightarrow> p \<notin> S"
  by (cases T rule: addrs.cases) auto

text \<open>What the code does to make the parent of \<open>u\<close> point to \<open>v\<close> instead.\<close>


lemma left_notin: "rep t q p T \<Longrightarrow> x \<notin> addrs T \<Longrightarrow> x \<noteq> g_nil \<Longrightarrow> p \<noteq> x"
  by (cases T rule: addrs.cases) auto

lemma disjoint_comm: "A \<inter> B = {} \<Longrightarrow> B \<inter> A = {}"
  by auto

lemma relink_hole:
  assumes "hole t k = u" "parent_of t u = par k" "crest t k" "u \<notin> caddrs k" "u \<noteq> g_nil"
  shows "relink u v t = set_hole k v t" and "relink_right u v t = set_hole k v t"
proof -
  have "relink u v t = set_hole k v t \<and> relink_right u v t = set_hole k v t"
  proof (cases k rule: par.cases)
    case 1
    then show ?thesis using assms by (simp add: relink_def relink_right_def)
  next
    case (2 a c r k')
    then have "right_of t a \<noteq> u" using assms left_notin [of t a "right_of t a" r u] by simp
    then show ?thesis using 2 assms by (simp add: relink_def relink_right_def)
  next
    case (3 l a c k')
    then have "left_of t a \<noteq> u" using assms left_notin [of t a "left_of t a" l u] by simp
    then show ?thesis using 3 assms by (simp add: relink_def relink_right_def)
  qed
  then show "relink u v t = set_hole k v t" "relink_right u v t = set_hole k v t" by auto
qed

lemma left_rotate_eq:
  assumes "at_hole t k x (Node A (x, cx) (Node B (y, cy) C))"
  shows "rbt_left_rotate x t =
    set_parent x y (set_left y x (set_hole k y (set_parent y (par k)
      (reparent (left_of t y) x (set_right x (left_of t y) t)))))"
proof -
  have f: "hole t k = x" "parent_of t x = par k" "crest t k" "x \<notin> caddrs k" "x \<noteq> g_nil" "right_of t x = y"
    "x \<noteq> y" "y \<notin> caddrs k" "left_of t y \<notin> caddrs k" "left_of t y \<noteq> x"
    using assms root_notin [of t y "left_of t y" B "caddrs k"] root_notin [of t y "left_of t y" B "{x}"]
    by (auto simp: at_hole_def)
  let ?t = "set_parent y (par k) (reparent (left_of t y) x (set_right x (left_of t y) t))"
  have "relink x y ?t = set_hole k y ?t"
    by (rule relink_hole(1)) (use f in simp_all)
  then show ?thesis using f by (simp add: rbt_left_rotate_def)
qed

lemma left_rotate_at:
  assumes "at_hole t k x (Node A (x, cx) (Node B (y, cy) C))"
  shows "at_hole (rbt_left_rotate x t) k y (Node (Node A (x, cx) B) (y, cy) C)"
proof -
  let ?p = "left_of t y"
  have f: "hole t k = x" "parent_of t x = par k" "crest t k" "x \<notin> caddrs k" "x \<noteq> g_nil" "right_of t x = y"
    "x \<noteq> y" "y \<notin> caddrs k" "rep t y ?p B"
    using assms by (auto simp: at_hole_def)
  have p: "?p \<notin> caddrs k" "?p \<noteq> x" "?p \<noteq> y" "?p \<notin> addrs A" "?p \<notin> addrs C"
    using assms root_notin [OF f(9), of "caddrs k"] root_notin [OF f(9), of "{x}"]  root_notin [OF f(9), of "{y}"] 
     root_notin [OF f(9), of "addrs A"]  root_notin [OF f(9), of "addrs C"]
    by (auto simp: at_hole_def)
  show ?thesis
    unfolding left_rotate_eq [OF assms]
    using assms f p by (simp add: at_hole_def rep_reparented Int_Un_distrib2 Int_Un_distrib Un_ac disjoint_comm)
qed

lemma right_rotate_eq:
  assumes "at_hole t k x (Node (Node A (y, cy) B) (x, cx) C)"
  shows "rbt_right_rotate x t =
    set_parent x y (set_right y x (set_hole k y (set_parent y (par k)
      (reparent (right_of t y) x (set_left x (right_of t y) t)))))"
proof -
  have f: "hole t k = x" "parent_of t x = par k" "crest t k" "x \<notin> caddrs k" "x \<noteq> g_nil" "left_of t x = y"
    "x \<noteq> y" "y \<notin> caddrs k" "right_of t y \<notin> caddrs k" "right_of t y \<noteq> x"
    using assms root_notin [of t y "right_of t y" B "caddrs k"] root_notin [of t y "right_of t y" B "{x}"]
    by (auto simp: at_hole_def)
  let ?t = "set_parent y (par k) (reparent (right_of t y) x (set_left x (right_of t y) t))"
  have "relink_right x y ?t = set_hole k y ?t"
    by (rule relink_hole(2)) (use f in simp_all)
  then show ?thesis using f by (simp add: rbt_right_rotate_def)
qed

lemma right_rotate_at:
  assumes "at_hole t k x (Node (Node A (y, cy) B) (x, cx) C)"
  shows "at_hole (rbt_right_rotate x t) k y (Node A (y, cy) (Node B (x, cx) C))"
proof -
  let ?p = "right_of t y"
  have f: "hole t k = x" "parent_of t x = par k" "crest t k" "x \<notin> caddrs k" "x \<noteq> g_nil" "left_of t x = y"
    "x \<noteq> y" "y \<notin> caddrs k" "rep t y ?p B"
    using assms by (auto simp: at_hole_def)
  have p: "?p \<notin> caddrs k" "?p \<noteq> x" "?p \<noteq> y" "?p \<notin> addrs A" "?p \<notin> addrs C"
    using assms root_notin [OF f(9), of "caddrs k"] root_notin [OF f(9), of "{x}"] root_notin [OF f(9), of "{y}"]
      root_notin [OF f(9), of "addrs A"] root_notin [OF f(9), of "addrs C"]
    by (auto simp: at_hole_def)
  show ?thesis
    unfolding right_rotate_eq [OF assms]
    using assms f p by (simp add: at_hole_def rep_reparented Int_Un_distrib2 Int_Un_distrib Un_ac disjoint_comm)
qed

text \<open>Nothing but the links and the root changes.\<close>

definition same_data :: "bst \<Rightarrow> bst \<Rightarrow> bool" where
  "same_data t t' \<longleftrightarrow> bt_size t' = bt_size t \<and>
     (\<forall>a. bn_user (bt_node t' a) = bn_user (bt_node t a) \<and> bn_used (bt_node t' a) = bn_used (bt_node t a))"

lemma same_data_refl [simp]: "same_data t t"
  by (simp add: same_data_def)

lemma same_data_trans: "same_data t t1 \<Longrightarrow> same_data t1 t2 \<Longrightarrow> same_data t t2"
  by (simp add: same_data_def)

lemma relink_fields [simp]:
  "color_of (relink x v t) a = color_of t a" "color_of (relink_right x v t) a = color_of t a"
  "bn_user (bt_node (relink x v t) a) = bn_user (bt_node t a)"
  "bn_user (bt_node (relink_right x v t) a) = bn_user (bt_node t a)"
  "bn_used (bt_node (relink x v t) a) = bn_used (bt_node t a)"
  "bn_used (bt_node (relink_right x v t) a) = bn_used (bt_node t a)"
  "bn_used (bt_node (reparent p q t) a) = bn_used (bt_node t a)"
  "bt_size (relink x v t) = bt_size t" "bt_size (relink_right x v t) = bt_size t"
  by (simp_all add: relink_def relink_right_def reparent_def)

lemma upd_data [simp]:
  "bn_user (bt_node (set_left x v t) a) = bn_user (bt_node t a)"
  "bn_user (bt_node (set_right x v t) a) = bn_user (bt_node t a)"
  "bn_user (bt_node (set_parent x v t) a) = bn_user (bt_node t a)"
  "bn_user (bt_node (set_color x c t) a) = bn_user (bt_node t a)"
  "bn_used (bt_node (set_left x v t) a) = bn_used (bt_node t a)"
  "bn_used (bt_node (set_right x v t) a) = bn_used (bt_node t a)"
  "bn_used (bt_node (set_parent x v t) a) = bn_used (bt_node t a)"
  "bn_used (bt_node (set_color x c t) a) = bn_used (bt_node t a)"
  "color_of (set_left x v t) a = color_of t a" "color_of (set_right x v t) a = color_of t a"
  "color_of (set_parent x v t) a = color_of t a"
  by simp_all

lemma rotate_fields:
  "color_of (rbt_left_rotate x t) a = color_of t a" "color_of (rbt_right_rotate x t) a = color_of t a"
  "bn_user (bt_node (rbt_left_rotate x t) a) = bn_user (bt_node t a)"
  "bn_user (bt_node (rbt_right_rotate x t) a) = bn_user (bt_node t a)"
  "bn_used (bt_node (rbt_left_rotate x t) a) = bn_used (bt_node t a)"
  "bn_used (bt_node (rbt_right_rotate x t) a) = bn_used (bt_node t a)"
  "bt_size (rbt_left_rotate x t) = bt_size t" "bt_size (rbt_right_rotate x t) = bt_size t"
  by (simp_all only: rbt_left_rotate_def rbt_right_rotate_def Let_def relink_fields upd_data
      reparent_fields upd_simps(3))

lemma same_data_rotate [simp]: "same_data t (rbt_left_rotate x t)" "same_data t (rbt_right_rotate x t)"
  by (simp_all only: same_data_def rotate_fields simp_thms)

lemma same_data_color [simp]: "same_data t (set_color x c t)"
  by (auto simp: same_data_def)

lemmas color_rotate [simp] = rotate_fields(1,2)

end
