(* ===== verification/User_Index_Fixup.thy ===== *)
theory User_Index_Fixup
  imports User_Index_Heap
begin

text \<open>
  The loop of \<open>rbt_insert_fixup\<close> computes \<open>pfix\<close>: the same recolouring and rotations on the
  represented tree and the path from the inserted node to the root.  Each case of an iteration
  is one lemma; \<open>fixup_loop_correct\<close> puts them together and so shows that the loop ends.
\<close>

fun col :: "ctree \<Rightarrow> color" where
  "col Leaf = RBT_BLACK"
| "col (Node l (a, c) r) = c"

fun paint :: "color \<Rightarrow> ctree \<Rightarrow> ctree" where
  "paint c Leaf = Leaf"
| "paint c (Node l (a, d) r) = Node l (a, c) r"

fun ccol :: "crumb \<Rightarrow> color" where
  "ccol (InL a c r) = c"
| "ccol (InR l a c) = c"

fun sib :: "crumb \<Rightarrow> ctree" where
  "sib (InL a c r) = r"
| "sib (InR l a c) = l"

fun recolored :: "crumb \<Rightarrow> crumb \<Rightarrow> ctree \<Rightarrow> ctree" where
  "recolored (InL p cp s) (InL g cg u) T = Node (Node T (p, RBT_BLACK) s) (g, RBT_RED) (paint RBT_BLACK u)"
| "recolored (InR s p cp) (InL g cg u) T = Node (Node s (p, RBT_BLACK) T) (g, RBT_RED) (paint RBT_BLACK u)"
| "recolored (InL p cp s) (InR u g cg) T = Node (paint RBT_BLACK u) (g, RBT_RED) (Node T (p, RBT_BLACK) s)"
| "recolored (InR s p cp) (InR u g cg) T = Node (paint RBT_BLACK u) (g, RBT_RED) (Node s (p, RBT_BLACK) T)"

fun rotated :: "crumb \<Rightarrow> crumb \<Rightarrow> ctree \<Rightarrow> ctree" where
  "rotated (InL p cp s) (InL g cg u) T = Node T (p, RBT_BLACK) (Node s (g, RBT_RED) u)"
| "rotated (InR s p cp) (InL g cg u) (Node a (z, c) b) =
     Node (Node s (p, RBT_RED) a) (z, RBT_BLACK) (Node b (g, RBT_RED) u)"
| "rotated (InR s p cp) (InR u g cg) T = Node (Node u (g, RBT_RED) s) (p, RBT_BLACK) T"
| "rotated (InL p cp s) (InR u g cg) (Node a (z, c) b) =
     Node (Node u (g, RBT_RED) a) (z, RBT_BLACK) (Node b (p, RBT_RED) s)"
| "rotated x y Leaf = Leaf"

fun pfix :: "crumb list \<Rightarrow> ctree \<Rightarrow> ctree" where
  "pfix (x # y # k) T =
     (if ccol x = RBT_RED
      then if col (sib y) = RBT_RED then pfix k (recolored x y T) else plug k (rotated x y T)
      else plug (x # y # k) T)"
| "pfix [] T = plug [] T"
| "pfix [x] T = plug [x] T"

lemma at_hole_color:
  "at_hole t k x (Node l (x, c) r) \<Longrightarrow> at_hole (set_color x d t) k x (Node l (x, d) r)"
  by (auto simp: at_hole_def)

lemma at_hole_addr: "at_hole t k x (Node l (y, c) r) \<Longrightarrow> x = y"
  by (simp add: at_hole_def)

lemma at_hole_child:
  "at_hole t k x (Node (Node a (y, d) b) (x, c) r) \<Longrightarrow> left_of t x = y \<and> parent_of t y = x"
  "at_hole t k x (Node l (x, c) (Node a (y, d) b)) \<Longrightarrow> right_of t x = y \<and> parent_of t y = x"
  by (simp_all add: at_hole_def)

lemma at_hole_down_L: "at_hole t k a (Node T (a, c) r) \<Longrightarrow> at_hole t (InL a c r # k) (left_of t a) T"
  by (simp add: at_hole_up_L)

lemma at_hole_down_R: "at_hole t k a (Node l (a, c) T) \<Longrightarrow> at_hole t (InR l a c # k) (right_of t a) T"
  by (simp add: at_hole_up_R)

lemma at_hole_col:
  "at_hole t k x T \<Longrightarrow> color_of t g_nil = RBT_BLACK \<Longrightarrow> color_of t x = col T"
  by (cases T rule: col.cases) (auto simp: at_hole_def)

lemma at_hole_paint:
  assumes "at_hole t k x T" and "T \<noteq> Leaf"
  shows "at_hole (set_color x d t) k x (paint d T)"
proof (cases T rule: col.cases)
  case (2 l a c r)
  then have "x = a" using assms(1) at_hole_addr by blast
  then show ?thesis using assms(1) 2 at_hole_color by simp
qed (use assms in simp)

lemma at_hole_not_nil: "at_hole t k x (Node l (x, c) r) \<Longrightarrow> x \<noteq> g_nil"
  by (simp add: at_hole_def)

definition quiet :: "bst \<Rightarrow> bst \<Rightarrow> bool" where
  \<comment> \<open>the users of the nodes, the size and the colour of \<open>g_nil\<close> stay\<close>
  "quiet t t' \<longleftrightarrow> same_data t t' \<and> color_of t' g_nil = color_of t g_nil"

lemma quiet_refl: "quiet t t"
  by (simp add: quiet_def)

lemma quiet_trans: "quiet t t1 \<Longrightarrow> quiet t1 t2 \<Longrightarrow> quiet t t2"
  by (auto simp: quiet_def same_data_def)

lemma quiet_color: "quiet t t' \<Longrightarrow> x \<noteq> g_nil \<Longrightarrow> quiet t (set_color x c t')"
  by (auto simp: quiet_def same_data_def)

lemma quiet_rotate:
  "quiet t t' \<Longrightarrow> quiet t (rbt_left_rotate x t')" "quiet t t' \<Longrightarrow> quiet t (rbt_right_rotate x t')"
  by (simp_all add: quiet_def same_data_def rotate_fields)

lemmas quiet_intros = quiet_refl quiet_color quiet_rotate

definition fixes_to :: "bst \<Rightarrow> nat \<Rightarrow> crumb list \<Rightarrow> ctree \<Rightarrow> bool" where
  \<comment> \<open>one iteration keeps the data and \<open>g_nil\<close> and leaves the position described\<close>
  "fixes_to t z k T \<longleftrightarrow> (\<exists>t' z'. fixup_step t z = (t', z') \<and> at_hole t' k z' T \<and> quiet t t')"

lemma red_not_nil: "color_of t y = RBT_RED \<Longrightarrow> color_of t g_nil = RBT_BLACK \<Longrightarrow> y \<noteq> g_nil"
  by (cases "y = g_nil") auto

lemma recolor_step_L:
  assumes at: "at_hole t (InL g cg u # k) p (Node a (p, RBT_RED) b)"
    and z: "parent_of t z = p" and red: "col u = RBT_RED" and nil: "color_of t g_nil = RBT_BLACK"
  shows "fixes_to t z k (Node (Node a (p, RBT_BLACK) b) (g, RBT_RED) (paint RBT_BLACK u))"
proof -
  define y where "y = right_of t g"
  have g: "at_hole t k g (Node (Node a (p, RBT_RED) b) (g, cg) u)" and lg: "left_of t g = p"
    using at by (simp_all add: at_hole_up_L)
  have pg: "parent_of t p = g" using at by (simp add: at_hole_def)
  have u: "u \<noteq> Leaf" using red by auto
  have cy: "color_of t y = RBT_RED"
    using at_hole_col [OF at_hole_down_R [OF g] nil] red by (simp add: y_def)
  define t1 where "t1 = set_color p RBT_BLACK t"
  have 1: "at_hole t1 k g (Node (Node a (p, RBT_BLACK) b) (g, cg) u)"
    using at_hole_color [OF at, of RBT_BLACK] by (simp add: t1_def at_hole_up_L)
  define t2 where "t2 = set_color y RBT_BLACK t1"
  have y1: "right_of t1 g = y" by (simp add: t1_def y_def)
  have 2: "at_hole t2 k g (Node (Node a (p, RBT_BLACK) b) (g, cg) (paint RBT_BLACK u))"
    using at_hole_paint [OF at_hole_down_R [OF 1] u, of RBT_BLACK] by (simp add: t2_def y1 at_hole_up_R)
  define t3 where "t3 = set_color g RBT_RED t2"
  have 3: "at_hole t3 k g (Node (Node a (p, RBT_BLACK) b) (g, RBT_RED) (paint RBT_BLACK u))"
    unfolding t3_def by (rule at_hole_color [OF 2])
  have "fixup_step t z = (t3, g)"
    using z pg lg cy by (simp add: fixup_step_def y_def [symmetric] t1_def t2_def t3_def)
  moreover have "p \<noteq> g_nil" "g \<noteq> g_nil" "y \<noteq> g_nil"
    using at_hole_not_nil [OF at] at_hole_not_nil [OF g] red_not_nil [OF cy nil] by simp_all
  then have "quiet t t3" unfolding t1_def t2_def t3_def by (intro quiet_intros)
  ultimately show ?thesis using 3 by (auto simp: fixes_to_def)
qed


lemma recolor_step_R:
  assumes at: "at_hole t (InR u g cg # k) p (Node a (p, RBT_RED) b)"
    and z: "parent_of t z = p" and red: "col u = RBT_RED" and nil: "color_of t g_nil = RBT_BLACK"
  shows "fixes_to t z k (Node (paint RBT_BLACK u) (g, RBT_RED) (Node a (p, RBT_BLACK) b))"
proof -
  define y where "y = left_of t g"
  have g: "at_hole t k g (Node u (g, cg) (Node a (p, RBT_RED) b))" and rg: "right_of t g = p"
    using at by (simp_all add: at_hole_up_R)
  have pg: "parent_of t p = g" using at by (simp add: at_hole_def)
  have u: "u \<noteq> Leaf" using red by auto
  have yu: "rep t g y u" "p \<notin> addrs u" "p \<noteq> g_nil" using g by (auto simp: at_hole_def y_def)
  then have "p \<noteq> y" using left_notin by blast
  have cy: "color_of t y = RBT_RED"
    using at_hole_col [OF at_hole_down_L [OF g] nil] red by (simp add: y_def)
  define t1 where "t1 = set_color p RBT_BLACK t"
  have 1: "at_hole t1 k g (Node u (g, cg) (Node a (p, RBT_BLACK) b))"
    using at_hole_color [OF at, of RBT_BLACK] by (simp add: t1_def at_hole_up_R)
  define t2 where "t2 = set_color y RBT_BLACK t1"
  have y1: "left_of t1 g = y" by (simp add: t1_def y_def)
  have 2: "at_hole t2 k g (Node (paint RBT_BLACK u) (g, cg) (Node a (p, RBT_BLACK) b))"
    using at_hole_paint [OF at_hole_down_L [OF 1] u, of RBT_BLACK] by (simp add: t2_def y1 at_hole_up_L)
  define t3 where "t3 = set_color g RBT_RED t2"
  have 3: "at_hole t3 k g (Node (paint RBT_BLACK u) (g, RBT_RED) (Node a (p, RBT_BLACK) b))"
    unfolding t3_def by (rule at_hole_color [OF 2])
  have "fixup_step t z = (t3, g)"
    using z pg cy \<open>p \<noteq> y\<close> by (simp add: fixup_step_def y_def [symmetric] t1_def t2_def t3_def)
  moreover have "p \<noteq> g_nil" "g \<noteq> g_nil" "y \<noteq> g_nil"
    using at_hole_not_nil [OF at] at_hole_not_nil [OF g] red_not_nil [OF cy nil] by simp_all
  then have "quiet t t3" unfolding t1_def t2_def t3_def by (intro quiet_intros)
  ultimately show ?thesis using 3 by (auto simp: fixes_to_def)
qed

text \<open>
  The last iteration: the rotation about the grandparent \<open>g\<close>, after which the parent of \<open>z\<close>
  is black and the loop ends.
\<close>

definition ends_with :: "bst \<Rightarrow> nat \<Rightarrow> crumb list \<Rightarrow> ctree \<Rightarrow> bool" where
  "ends_with t z k T \<longleftrightarrow> (\<exists>t' z' q. fixup_step t z = (t', z') \<and> at_hole t' k q T
     \<and> color_of t' (parent_of t' z') = RBT_BLACK \<and> quiet t t')"

lemma rotate_last_R:
  assumes at: "at_hole t (InL g cg u # k) p (Node A (p, c) B)"
  defines "t' \<equiv> rbt_right_rotate g (set_color g RBT_RED (set_color p RBT_BLACK t))"
  shows "at_hole t' k p (Node A (p, RBT_BLACK) (Node B (g, RBT_RED) u)) \<and> color_of t' p = RBT_BLACK
    \<and> quiet t t'"
proof -
  have 1: "at_hole (set_color p RBT_BLACK t) k g (Node (Node A (p, RBT_BLACK) B) (g, cg) u)"
    using at_hole_color [OF at] by (simp add: at_hole_up_L)
  have n: "p \<noteq> g_nil" "g \<noteq> g_nil" "p \<noteq> g"
    using at_hole_not_nil [OF at] at_hole_not_nil [OF 1] at by (auto simp: at_hole_def)
  then have "quiet t t'" unfolding t'_def by (intro quiet_intros)
  then show ?thesis
    using right_rotate_at [OF at_hole_color [OF 1, of RBT_RED]] n
    by (simp only: t'_def color_rotate upd_simps if_True if_False simp_thms) simp
qed

lemma rotate_last_L:
  assumes at: "at_hole t (InR u g cg # k) p (Node A (p, c) B)"
  defines "t' \<equiv> rbt_left_rotate g (set_color g RBT_RED (set_color p RBT_BLACK t))"
  shows "at_hole t' k p (Node (Node u (g, RBT_RED) A) (p, RBT_BLACK) B) \<and> color_of t' p = RBT_BLACK
    \<and> quiet t t'"
proof -
  have 1: "at_hole (set_color p RBT_BLACK t) k g (Node u (g, cg) (Node A (p, RBT_BLACK) B))"
    using at_hole_color [OF at] by (simp add: at_hole_up_R)
  have n: "p \<noteq> g_nil" "g \<noteq> g_nil" "p \<noteq> g"
    using at_hole_not_nil [OF at] at_hole_not_nil [OF 1] at by (auto simp: at_hole_def)
  then have "quiet t t'" unfolding t'_def by (intro quiet_intros)
  then show ?thesis
    using left_rotate_at [OF at_hole_color [OF 1, of RBT_RED]] n
    by (simp only: t'_def color_rotate upd_simps if_True if_False simp_thms) simp
qed

lemma rotate_step_LL:
  assumes at: "at_hole t (InL p cp s # InL g cg u # k) z (Node a (z, c) b)"
    and black: "col u = RBT_BLACK" and nil: "color_of t g_nil = RBT_BLACK"
  shows "ends_with t z k (rotated (InL p cp s) (InL g cg u) (Node a (z, c) b))"
proof -
  have p: "at_hole t (InL g cg u # k) p (Node (Node a (z, c) b) (p, cp) s)" and lp: "left_of t p = z"
    using at by (simp_all add: at_hole_up_L)
  have g: "at_hole t k g (Node (Node (Node a (z, c) b) (p, cp) s) (g, cg) u)" and lg: "left_of t g = p"
    using p by (simp_all add: at_hole_up_L)
  have zp: "parent_of t z = p" "parent_of t p = g" using at by (simp_all add: at_hole_def)
  have cy: "color_of t (right_of t g) = RBT_BLACK"
    using at_hole_col [OF at_hole_down_R [OF g] nil] black by simp
  have "rep t p (right_of t p) s" "z \<notin> addrs s" "z \<noteq> g_nil" using at by (auto simp: at_hole_def)
  then have "right_of t p \<noteq> z" using left_notin by blast
  let ?t = "rbt_right_rotate g (set_color g RBT_RED (set_color p RBT_BLACK t))"
  have "fixup_step t z = (?t, z)"
    using zp lg cy \<open>right_of t p \<noteq> z\<close> by (simp add: fixup_step_def)
  moreover note rotate_last_R [OF p]
  moreover from this have "parent_of ?t z = p" by (simp add: at_hole_def)
  ultimately show ?thesis by (auto simp: ends_with_def)
qed

lemma rotate_step_RR:
  assumes at: "at_hole t (InR s p cp # InR u g cg # k) z (Node a (z, c) b)"
    and black: "col u = RBT_BLACK" and nil: "color_of t g_nil = RBT_BLACK"
  shows "ends_with t z k (rotated (InR s p cp) (InR u g cg) (Node a (z, c) b))"
proof -
  have p: "at_hole t (InR u g cg # k) p (Node s (p, cp) (Node a (z, c) b))" and rp: "right_of t p = z"
    using at by (simp_all add: at_hole_up_R)
  have g: "at_hole t k g (Node u (g, cg) (Node s (p, cp) (Node a (z, c) b)))" and rg: "right_of t g = p"
    using p by (simp_all add: at_hole_up_R)
  have zp: "parent_of t z = p" "parent_of t p = g" using at by (simp_all add: at_hole_def)
  have cy: "color_of t (left_of t g) = RBT_BLACK"
    using at_hole_col [OF at_hole_down_L [OF g] nil] black by simp
  have "rep t p (left_of t p) s" "z \<notin> addrs s" "z \<noteq> g_nil"
    "rep t g (left_of t g) u" "p \<notin> addrs u" "p \<noteq> g_nil" using at by (auto simp: at_hole_def)
  then have "left_of t p \<noteq> z" "left_of t g \<noteq> p" using left_notin by blast+
  let ?t = "rbt_left_rotate g (set_color g RBT_RED (set_color p RBT_BLACK t))"
  have "fixup_step t z = (?t, z)"
    using zp cy \<open>left_of t p \<noteq> z\<close> \<open>left_of t g \<noteq> p\<close> by (simp add: fixup_step_def)
  moreover note rotate_last_L [OF p]
  moreover from this have "parent_of ?t z = p" by (simp add: at_hole_def)
  ultimately show ?thesis by (auto simp: ends_with_def)
qed


lemma rotate_step_RL:
  assumes at: "at_hole t (InR s p cp # InL g cg u # k) z (Node a (z, c) b)" and cp: "cp = RBT_RED"
    and black: "col u = RBT_BLACK" and nil: "color_of t g_nil = RBT_BLACK"
  shows "ends_with t z k (rotated (InR s p cp) (InL g cg u) (Node a (z, c) b))"
proof -
  have p: "at_hole t (InL g cg u # k) p (Node s (p, cp) (Node a (z, c) b))" and rp: "right_of t p = z"
    using at by (simp_all add: at_hole_up_R)
  have g: "at_hole t k g (Node (Node s (p, cp) (Node a (z, c) b)) (g, cg) u)" and lg: "left_of t g = p"
    using p by (simp_all add: at_hole_up_L)
  have zp: "parent_of t z = p" "parent_of t p = g" using at by (simp_all add: at_hole_def)
  have cy: "color_of t (right_of t g) = RBT_BLACK"
    using at_hole_col [OF at_hole_down_R [OF g] nil] black by simp
  define t1 where "t1 = rbt_left_rotate p t"
  have 1: "at_hole t1 (InL g cg u # k) z (Node (Node s (p, cp) a) (z, c) b)"
    unfolding t1_def by (rule left_rotate_at [OF p])
  have zp1: "parent_of t1 p = z" "parent_of t1 z = g" using 1 by (simp_all add: at_hole_def)
  let ?t = "rbt_right_rotate g (set_color g RBT_RED (set_color z RBT_BLACK t1))"
  have "fixup_step t z = (?t, p)"
    using zp lg cy rp zp1 by (simp add: fixup_step_def t1_def [symmetric])
  moreover note rotate_last_R [OF 1]
  moreover from this have "parent_of ?t p = z" by (simp add: at_hole_def)
  moreover have "quiet t t1" unfolding t1_def by (intro quiet_intros)
  ultimately show ?thesis using cp by (auto simp: ends_with_def intro: quiet_trans)
qed

lemma rotate_step_LR:
  assumes at: "at_hole t (InL p cp s # InR u g cg # k) z (Node a (z, c) b)" and cp: "cp = RBT_RED"
    and black: "col u = RBT_BLACK" and nil: "color_of t g_nil = RBT_BLACK"
  shows "ends_with t z k (rotated (InL p cp s) (InR u g cg) (Node a (z, c) b))"
proof -
  have p: "at_hole t (InR u g cg # k) p (Node (Node a (z, c) b) (p, cp) s)" and lp: "left_of t p = z"
    using at by (simp_all add: at_hole_up_L)
  have g: "at_hole t k g (Node u (g, cg) (Node (Node a (z, c) b) (p, cp) s))" and rg: "right_of t g = p"
    using p by (simp_all add: at_hole_up_R)
  have zp: "parent_of t z = p" "parent_of t p = g" using at by (simp_all add: at_hole_def)
  have cy: "color_of t (left_of t g) = RBT_BLACK"
    using at_hole_col [OF at_hole_down_L [OF g] nil] black by simp
  have "rep t g (left_of t g) u" "p \<notin> addrs u" "p \<noteq> g_nil" using at by (auto simp: at_hole_def)
  then have "left_of t g \<noteq> p" using left_notin by blast
  define t1 where "t1 = rbt_right_rotate p t"
  have 1: "at_hole t1 (InR u g cg # k) z (Node a (z, c) (Node b (p, cp) s))"
    unfolding t1_def by (rule right_rotate_at [OF p])
  have zp1: "parent_of t1 p = z" "parent_of t1 z = g" using 1 by (simp_all add: at_hole_def)
  let ?t = "rbt_left_rotate g (set_color g RBT_RED (set_color z RBT_BLACK t1))"
  have "fixup_step t z = (?t, p)"
    using zp cy lp zp1 \<open>left_of t g \<noteq> p\<close> by (simp add: fixup_step_def t1_def [symmetric])
  moreover note rotate_last_L [OF 1]
  moreover from this have "parent_of ?t p = z" by (simp add: at_hole_def)
  moreover have "quiet t t1" unfolding t1_def by (intro quiet_intros)
  ultimately show ?thesis using cp by (auto simp: ends_with_def intro: quiet_trans)
qed

subsection \<open>The loop\<close>

definition top_black :: "crumb list \<Rightarrow> bool" where
  "top_black k \<longleftrightarrow> (k = [] \<or> ccol (last k) = RBT_BLACK)"

lemma at_hole_Node: "at_hole t k z T \<Longrightarrow> T \<noteq> Leaf \<Longrightarrow> \<exists>a c b. T = Node a (z, c) b"
  by (cases T rule: col.cases) (auto simp: at_hole_def)

lemma fixes_step:
  assumes "at_hole t (x # y # k) z T" and "T \<noteq> Leaf" and "ccol x = RBT_RED" and "col (sib y) = RBT_RED"
    and "color_of t g_nil = RBT_BLACK"
  shows "fixes_to t z k (recolored x y T)"
proof -
  obtain a c b where T: "T = Node a (z, c) b"
    using at_hole_Node [OF assms(1,2)] by blast
  have "parent_of t z = par (x # y # k)" using assms(1) by (simp add: T at_hole_def)
  then show ?thesis
    using assms recolor_step_L [of t] recolor_step_R [of t]
    by (cases x; cases y) (simp_all add: at_hole_up_L [of t] at_hole_up_R [of t] T)
qed

lemma ends_step:
  assumes "at_hole t (x # y # k) z T" and "T \<noteq> Leaf" and "ccol x = RBT_RED" and "col (sib y) = RBT_BLACK"
    and "color_of t g_nil = RBT_BLACK"
  shows "ends_with t z k (rotated x y T)"
proof -
  obtain a c b where T: "T = Node a (z, c) b"
    using at_hole_Node [OF assms(1,2)] by blast
  show ?thesis
    using assms rotate_step_LL rotate_step_RR rotate_step_LR rotate_step_RL
    unfolding T by (cases x; cases y) simp_all
qed

lemma recolored_not_Leaf: "recolored x y T \<noteq> Leaf"
  by (cases "(x, y, T)" rule: recolored.cases) auto

lemma fixup_loop_correct:
  assumes "at_hole t k z T" and "T \<noteq> Leaf" and "color_of t g_nil = RBT_BLACK" and "top_black k"
  shows "\<exists>t'. fixup_loop t z = Some t' \<and> holds t' (pfix k T) \<and> quiet t t'"
  using assms
proof (induction k T arbitrary: t z rule: pfix.induct)
  case (1 x y k T)
  obtain a c b where T: "T = Node a (z, c) b"
    using at_hole_Node [OF 1(2,3)] by blast
  have pc: "color_of t (parent_of t z) = ccol x"
    using 1(2) by (cases x) (auto simp: at_hole_def T)
  show ?case
  proof (cases "ccol x = RBT_RED")
    case False
    then have "fixup_loop t z = Some t" using pc by (subst fixup_loop.simps) simp
    then show ?thesis using at_hole_root [OF 1(2)] False quiet_refl by simp
  next
    case red: True
    show ?thesis
    proof (cases "col (sib y) = RBT_RED")
      case True
      obtain t1 z1 where s: "fixup_step t z = (t1, z1)" "at_hole t1 k z1 (recolored x y T)" "quiet t t1"
        using fixes_step [OF 1(2,3) red True 1(4)] by (auto simp: fixes_to_def)
      have tb: "top_black k" using 1(5) by (auto simp: top_black_def split: if_splits)
      have "color_of t1 g_nil = RBT_BLACK" using s(3) 1(4) by (simp add: quiet_def)
      from 1(1) [OF red True s(2) recolored_not_Leaf this tb] obtain t' where
        "fixup_loop t1 z1 = Some t'" "holds t' (pfix k (recolored x y T))" "quiet t1 t'" by blast
      moreover have "fixup_loop t z = fixup_loop t1 z1"
        using pc red s(1) by (subst fixup_loop.simps) simp
      ultimately show ?thesis using red True s(3) quiet_trans by auto
    next
      case False
      then have black: "col (sib y) = RBT_BLACK" by (cases "col (sib y)") auto
      obtain t1 z1 q where s: "fixup_step t z = (t1, z1)" "at_hole t1 k q (rotated x y T)"
          "color_of t1 (parent_of t1 z1) = RBT_BLACK" "quiet t t1"
        using ends_step [OF 1(2,3) red black 1(4)] by (auto simp: ends_with_def)
      have "fixup_loop t1 z1 = Some t1" using s(3) by (subst fixup_loop.simps) simp
      then have "fixup_loop t z = Some t1" using pc red s(1) by (subst fixup_loop.simps) simp
      then show ?thesis using at_hole_root [OF s(2)] s(4) red False by simp
    qed
  qed
next
  case (2 T)
  then have "parent_of t z = g_nil" by (cases T rule: col.cases) (auto simp: at_hole_def)
  then have "fixup_loop t z = Some t" using 2 by (subst fixup_loop.simps) simp
  then show ?case using at_hole_root [OF 2(1)] quiet_refl by simp
next
  case (3 x T)
  then have "color_of t (parent_of t z) = RBT_BLACK"
    by (cases x; cases T rule: col.cases) (auto simp: at_hole_def top_black_def)
  then have "fixup_loop t z = Some t" by (subst fixup_loop.simps) simp
  then show ?case using at_hole_root [OF 3(1)] quiet_refl by simp
qed

end
