(* ===== verification/User_Index_Correct.thy ===== *)
theory User_Index_Correct
  imports User_Index_Fixup
begin

text \<open>
  What the name index promises: it is a sorted list of users.  \<open>index_inv\<close> ties a heap to a
  red-black tree in name order, \<open>index_users\<close> is the list it stands for; insertion refines the
  insertion into that list, and a search finds a user with the name exactly when the list has
  one, in a number of steps logarithmic in its length.
\<close>

subsection \<open>Descending to the place of a new node\<close>

fun pdesc :: "(nat \<Rightarrow> bool) \<Rightarrow> ctree \<Rightarrow> crumb list \<Rightarrow> crumb list" where
  "pdesc gl Leaf k = k"
| "pdesc gl (Node l (a, c) r) k =
     (if gl a then pdesc gl l (InL a c r # k) else pdesc gl r (InR l a c # k))"

lemma descend_correct:
  "at_hole t k x T \<Longrightarrow>
     descend nm t name x (par k) = Some (par (pdesc (goes_left nm t name) T k))
     \<and> at_hole t (pdesc (goes_left nm t name) T k) g_nil Leaf"
proof (induction "goes_left nm t name" T k arbitrary: x rule: pdesc.induct)
  case (1 k)
  then have "x = g_nil" by (simp add: at_hole_def)
  then show ?case using 1 by (subst descend.simps) simp
next
  case (2 l a c r k)
  have x: "x = a" "x \<noteq> g_nil" using "2.prems" by (simp_all add: at_hole_def)
  show ?case
  proof (cases "goes_left nm t name a")
    case True
    then show ?thesis
      using "2.hyps"(1) [OF True at_hole_down_L] "2.prems" x by (subst descend.simps) simp
  next
    case False
    then show ?thesis
      using "2.hyps"(2) [OF False at_hole_down_R] "2.prems" x by (subst descend.simps) simp
  qed
qed

lemma plug_pdesc: "plug (pdesc gl T k) Leaf = plug k T"
  by (induction gl T k rule: pdesc.induct) auto

fun goes :: "(nat \<Rightarrow> bool) \<Rightarrow> crumb \<Rightarrow> bool" where
  "goes gl (InL a c r) \<longleftrightarrow> gl a"
| "goes gl (InR l a c) \<longleftrightarrow> \<not> gl a"

lemma pdesc_goes: "list_all (goes gl) k \<Longrightarrow> list_all (goes gl) (pdesc gl T k)"
  by (induction gl T k rule: pdesc.induct) auto

lemma top_black_Cons: "k \<noteq> [] \<Longrightarrow> top_black (x # k) = top_black k"
  by (simp add: top_black_def)

lemma pdesc_top_black:
  "(if k = [] then col T = RBT_BLACK else top_black k) \<Longrightarrow> top_black (pdesc gl T k)"
proof (induction gl T k rule: pdesc.induct)
  case (1 gl k)
  then show ?case by (auto simp: top_black_def split: if_splits)
next
  case (2 gl l a c r k)
  then show ?case by (cases "k = []") (auto simp: top_black_def)
qed

definition pins :: "(nat \<Rightarrow> bool) \<Rightarrow> nat \<Rightarrow> ctree \<Rightarrow> ctree" where
  "pins gl z T = paint RBT_BLACK (pfix (pdesc gl T []) (Node Leaf (z, RBT_RED) Leaf))"

lemma caddrs_pdesc: "caddrs (pdesc gl T k) = addrs T \<union> caddrs k"
  by (induction gl T k rule: pdesc.induct) auto

lemma goes_left_upd [simp]:
  "bn_user (f (bt_node t z)) = bn_user (bt_node t z) \<Longrightarrow> goes_left nm (upd z f t) name x = goes_left nm t name x"
  by (simp add: goes_left_def)

lemma link_new:
  assumes "at_hole t k g_nil Leaf" and "z \<notin> caddrs k" and "z \<noteq> g_nil"
    and "bn_left (bt_node t z) = g_nil" and "bn_right (bt_node t z) = g_nil" and "color_of t z = RBT_RED"
  shows "at_hole (set_hole k z (set_parent z (par k) t)) k z (Node Leaf (z, RBT_RED) Leaf)"
  using assms by (simp add: at_hole_def)

lemma at_hole_upd: "a \<notin> addrs T \<Longrightarrow> a \<notin> caddrs k \<Longrightarrow> at_hole (upd a f t) k p T = at_hole t k p T"
  by (simp add: at_hole_def)

lemma at_hole_size: "at_hole (t\<lparr>bt_size := n\<rparr>) k p T = at_hole t k p T"
  by (simp add: at_hole_def)

lemma plug_not_Leaf: "T \<noteq> Leaf \<Longrightarrow> plug k T \<noteq> Leaf"
  by (induction k T rule: plug.induct) auto

lemma pfix_not_Leaf: "T \<noteq> Leaf \<Longrightarrow> pfix k T \<noteq> Leaf"
proof (induction k T rule: pfix.induct)
  case (1 x y k T)
  have "rotated x y T \<noteq> Leaf" using 1(2) by (cases "(x, y, T)" rule: rotated.cases) auto
  then show ?case using 1 plug_not_Leaf recolored_not_Leaf by (simp del: plug.simps)
qed (simp_all add: plug_not_Leaf del: plug.simps)

lemma bst_insert_holds:
  assumes T: "holds t T" and z: "z \<notin> addrs T" "z \<noteq> g_nil" and nil: "color_of t g_nil = RBT_BLACK"
    and root: "col T = RBT_BLACK"
  shows "\<exists>t'. bst_insert nm name z t = Some t' \<and> holds t' (pins (goes_left nm t name) z T)
    \<and> bt_size t' = bt_size t + 1 \<and> color_of t' g_nil = RBT_BLACK
    \<and> (\<forall>a. bn_user (bt_node t' a) = bn_user (bt_node t a) \<and> bn_used (bt_node t' a) = bn_used (bt_node t a))"
proof -
  define t1 where "t1 = upd z (\<lambda>n. n\<lparr>bn_left := g_nil, bn_right := g_nil, bn_color := RBT_RED\<rparr>) t"
  have gl: "goes_left nm t1 name = goes_left nm t name" by (rule ext) (simp add: t1_def)
  let ?k = "pdesc (goes_left nm t name) T []"
  have T1: "at_hole t1 [] (bt_root t) T" using T z by (simp add: t1_def holds_def at_hole_upd)
  have r: "bt_root t1 = bt_root t" by (simp add: t1_def)
  have d: "descend nm t1 name (bt_root t1) g_nil = Some (par ?k)" "at_hole t1 ?k g_nil Leaf"
    using descend_correct [OF T1, of nm name] by (simp_all add: gl r)
  have zk: "z \<notin> caddrs ?k" using z by (simp add: caddrs_pdesc)
  define t2 where "t2 = set_parent z (par ?k) t1"
  have "at_hole (set_hole ?k z t2) ?k z (Node Leaf (z, RBT_RED) Leaf)"
    unfolding t2_def by (rule link_new [OF d(2) zk z(2)]) (simp_all add: t1_def)
  define t3 where "t3 = (set_hole ?k z t2)\<lparr>bt_size := bt_size (set_hole ?k z t2) + 1\<rparr>"
  have at3: "at_hole t3 ?k z (Node Leaf (z, RBT_RED) Leaf)"
    using \<open>at_hole (set_hole ?k z t2) ?k z _\<close> by (simp only: t3_def at_hole_size)
  have goes: "list_all (goes (goes_left nm t name)) ?k" by (simp add: pdesc_goes)
  have gl2: "goes_left nm t2 name = goes_left nm t name" by (rule ext) (simp add: t2_def gl)
  have "hang_node nm name z (par ?k) t2 = set_hole ?k z t2"
    using goes par_nil [of t1 ?k] d(2) unfolding gl2 hang_node_def
    by (cases ?k rule: par.cases) (auto simp: at_hole_def)
  then have ins: "bst_insert nm name z t = rbt_insert_fixup t3 z"
    using d(1) unfolding bst_insert_def Let_def t1_def [symmetric] by (simp add: t2_def [symmetric] t3_def)
  have nil3: "color_of t3 g_nil = RBT_BLACK"
    using nil z(2) by (simp add: t3_def t2_def t1_def)
  have "top_black ?k" by (rule pdesc_top_black) (simp add: root)
  from fixup_loop_correct [OF at3 _ nil3 this] obtain t4 where
    t4: "fixup_loop t3 z = Some t4" "holds t4 (pfix ?k (Node Leaf (z, RBT_RED) Leaf))" "quiet t3 t4" by auto
  have ne: "pfix ?k (Node Leaf (z, RBT_RED) Leaf) \<noteq> Leaf" by (rule pfix_not_Leaf) simp
  have "holds (set_color (bt_root t4) RBT_BLACK t4) (pins (goes_left nm t name) z T)"
    using at_hole_paint [of t4 "[]" "bt_root t4"] t4(2) ne by (simp add: holds_def pins_def)
  moreover have "bt_root t4 \<noteq> g_nil"
    using t4(2) ne rep_nil_iff [of t4] by (auto simp: holds_def at_hole_def)
  moreover have "bn_user (bt_node t3 a) = bn_user (bt_node t a)" "bn_used (bt_node t3 a) = bn_used (bt_node t a)"
    "bt_size t3 = bt_size t + 1" for a
    by (simp_all add: t3_def t2_def t1_def)
  moreover have "bst_insert nm name z t = Some (set_color (bt_root t4) RBT_BLACK t4)"
    using ins t4(1) by (simp add: rbt_insert_fixup_def)
  ultimately show ?thesis
    using t4(3) nil3 by (intro exI [of _ "set_color (bt_root t4) RBT_BLACK t4"]) (simp add: quiet_def same_data_def)
qed

subsection \<open>Order\<close>

abbreviation addr_list :: "ctree \<Rightarrow> nat list" where
  "addr_list T \<equiv> map fst (inorder T)"

lemma addr_list_paint [simp]: "addr_list (paint c T) = addr_list T"
  by (cases T rule: col.cases) auto

fun before :: "crumb list \<Rightarrow> nat list" where
  "before [] = []"
| "before (InL a c r # k) = before k"
| "before (InR l a c # k) = before k @ addr_list l @ [a]"

fun after :: "crumb list \<Rightarrow> nat list" where
  "after [] = []"
| "after (InL a c r # k) = a # addr_list r @ after k"
| "after (InR l a c # k) = after k"

lemma addr_list_plug: "addr_list (plug k T) = before k @ addr_list T @ after k"
  by (induction k T rule: plug.induct) auto

lemma addr_list_recolored:
  "addr_list (recolored x y T) = addr_list (plug [x, y] T)"
  by (cases "(x, y, T)" rule: recolored.cases) auto

lemma addr_list_rotated:
  "T \<noteq> Leaf \<Longrightarrow> addr_list (rotated x y T) = addr_list (plug [x, y] T)"
  by (cases "(x, y, T)" rule: rotated.cases) auto

lemma addr_list_pfix: "T \<noteq> Leaf \<Longrightarrow> addr_list (pfix k T) = addr_list (plug k T)"
proof (induction k T rule: pfix.induct)
  case (1 x y k T)
  have split: "addr_list (plug (x # y # k) T) = before k @ addr_list (plug [x, y] T) @ after k"
    by (cases x; cases y) (simp_all add: addr_list_plug)
  then show ?case
    using 1 recolored_not_Leaf addr_list_rotated [OF 1(2)]
    by (simp add: addr_list_plug addr_list_recolored del: plug.simps)
qed auto

lemma set_addr_list: "set (addr_list T) = addrs T"
  by (induction T rule: addrs.induct) (auto simp: image_Un)

text \<open>When the addresses on which the descent goes right all precede the others, the new node
  comes between the two groups.\<close>

lemma before_after_pdesc:
  assumes "addr_list T = xs @ ys" and "\<forall>a \<in> set xs. \<not> gl a" and "\<forall>a \<in> set ys. gl a"
  shows "before (pdesc gl T k) = before k @ xs \<and> after (pdesc gl T k) = ys @ after k"
  using assms
proof (induction gl T k arbitrary: xs ys rule: pdesc.induct)
  case (2 gl l a c r k)
  show ?case
  proof (cases "gl a")
    case True
    then obtain us where "ys = us @ a # addr_list r" "addr_list l = xs @ us"
      using "2.prems" by (auto simp: append_eq_append_conv2 append_eq_Cons_conv Cons_eq_append_conv)
    then show ?thesis using "2.IH"(1) [OF True, of xs us] "2.prems" True by simp
  next
    case False
    then obtain us where "xs = addr_list l @ a # us" "addr_list r = us @ ys"
      using "2.prems" by (auto simp: append_eq_append_conv2 append_eq_Cons_conv Cons_eq_append_conv)
    then show ?thesis using "2.IH"(2) [OF False, of us ys] "2.prems" False by simp
  qed
qed simp

lemma addr_list_pins:
  assumes "addr_list T = xs @ ys" and "\<forall>a \<in> set xs. \<not> gl a" and "\<forall>a \<in> set ys. gl a"
  shows "addr_list (pins gl z T) = xs @ z # ys"
  using before_after_pdesc [OF assms, of "[]"]
  by (simp add: pins_def addr_list_pfix addr_list_plug)


subsection \<open>Colours and heights\<close>

fun invc :: "ctree \<Rightarrow> bool" where
  "invc Leaf = True"
| "invc (Node l (a, c) r) \<longleftrightarrow> (c = RBT_RED \<longrightarrow> col l = RBT_BLACK \<and> col r = RBT_BLACK) \<and> invc l \<and> invc r"

fun bheight :: "ctree \<Rightarrow> nat" where
  "bheight Leaf = 0"
| "bheight (Node l (a, c) r) = bheight l + (if c = RBT_BLACK then 1 else 0)"

fun invh :: "ctree \<Rightarrow> bool" where
  "invh Leaf = True"
| "invh (Node l (a, c) r) \<longleftrightarrow> bheight l = bheight r \<and> invh l \<and> invh r"

text \<open>The same for a path: what it asks of the subtree at its end.\<close>

fun ctop :: "crumb list \<Rightarrow> color" where
  "ctop [] = RBT_BLACK"
| "ctop (x # k) = ccol x"

fun cinvc :: "crumb list \<Rightarrow> bool" where
  "cinvc [] = True"
| "cinvc (x # k) \<longleftrightarrow> invc (sib x) \<and> (ccol x = RBT_RED \<longrightarrow> col (sib x) = RBT_BLACK \<and> ctop k = RBT_BLACK) \<and> cinvc k"

fun cinvh :: "nat \<Rightarrow> crumb list \<Rightarrow> bool" where
  "cinvh n [] = True"
| "cinvh n (x # k) \<longleftrightarrow> invh (sib x) \<and> bheight (sib x) = n \<and> cinvh (n + (if ccol x = RBT_BLACK then 1 else 0)) k"

lemma color_cases: "c \<noteq> RBT_RED \<longleftrightarrow> c = RBT_BLACK" "c \<noteq> RBT_BLACK \<longleftrightarrow> c = RBT_RED"
  by (cases c; simp)+

lemma invc_plug:
  "invc (plug k T) \<longleftrightarrow> invc T \<and> cinvc k \<and> (col T = RBT_RED \<longrightarrow> ctop k = RBT_BLACK)"
proof (induction k T rule: plug.induct)
  case (2 a c r k T)
  then show ?case by (cases c) (auto simp: color_cases)
next
  case (3 l a c k T)
  then show ?case by (cases c) (auto simp: color_cases)
qed simp

lemma invh_plug: "invh (plug k T) \<longleftrightarrow> invh T \<and> cinvh (bheight T) k"
  by (induction k T rule: plug.induct) auto

lemma paint_black_simps [simp]:
  "col (paint RBT_BLACK T) = RBT_BLACK" "invh (paint c T) = invh T"
  by (cases T rule: col.cases; simp)+

lemma bheight_paint: "col u = RBT_RED \<Longrightarrow> bheight (paint RBT_BLACK u) = Suc (bheight u)"
  by (cases u rule: col.cases) auto

lemma invc_paint_black: "invc T \<Longrightarrow> invc (paint RBT_BLACK T)"
  by (cases T rule: col.cases) auto

lemma recolored_inv:
  assumes "invc T" "invh T" "cinvc (y # k)" "cinvh (bheight T) (x # y # k)"
    and "invc (sib x)" "col (sib x) = RBT_BLACK" "ccol x = RBT_RED" "ccol y = RBT_BLACK" "col (sib y) = RBT_RED"
  shows "invc (recolored x y T) \<and> invh (recolored x y T) \<and> cinvh (bheight (recolored x y T)) k
    \<and> col (recolored x y T) = RBT_RED"
  using assms by (cases x; cases y) (auto simp: bheight_paint invc_paint_black)

lemma rotated_inv:
  assumes "invc T" "invh T" "col T = RBT_RED" "cinvc (y # k)" "cinvh (bheight T) (x # y # k)"
    and "invc (sib x)" "col (sib x) = RBT_BLACK" "ccol x = RBT_RED" "ccol y = RBT_BLACK" "col (sib y) = RBT_BLACK"
  shows "invc (rotated x y T) \<and> invh (rotated x y T) \<and> cinvh (bheight (rotated x y T)) k
    \<and> col (rotated x y T) = RBT_BLACK"
proof (cases T rule: col.cases)
  case (2 l a c r)
  then show ?thesis using assms by (cases x; cases y) auto
qed (use assms in simp)

lemma pfix_inv:
  assumes "invc T" and "invh T" and "col T = RBT_RED" and "cinvh (bheight T) k"
    and "list_all (\<lambda>x. invc (sib x)) k" and "k \<noteq> [] \<longrightarrow> cinvc (tl k) \<and> (ccol (hd k) = RBT_RED \<longrightarrow> col (sib (hd k)) = RBT_BLACK \<and> ctop (tl k) = RBT_BLACK)"
    and "top_black k"
  shows "invc (paint RBT_BLACK (pfix k T)) \<and> invh (pfix k T)"
  using assms
proof (induction k T rule: pfix.induct)
  case (1 x y k T)
  show ?case
  proof (cases "ccol x = RBT_RED")
    case False
    then have "invc (plug (x # y # k) T)" "invh (plug (x # y # k) T)"
      using "1.prems" by (auto simp: invc_plug invh_plug color_cases simp del: plug.simps)
    then show ?thesis using False invc_paint_black by (simp del: plug.simps)
  next
    case red: True
    then have y: "ccol y = RBT_BLACK" "cinvc (y # k)" "invc (sib x)" "col (sib x) = RBT_BLACK"
      using "1.prems" by auto
    show ?thesis
    proof (cases "col (sib y) = RBT_RED")
      case True
      from recolored_inv [OF "1.prems"(1,2) y(2) "1.prems"(4) y(3,4) red y(1) True]
      have r: "invc (recolored x y T)" "invh (recolored x y T)" "cinvh (bheight (recolored x y T)) k"
        "col (recolored x y T) = RBT_RED" by auto
      have k: "k \<noteq> [] \<longrightarrow> cinvc (tl k) \<and> (ccol (hd k) = RBT_RED \<longrightarrow> col (sib (hd k)) = RBT_BLACK \<and> ctop (tl k) = RBT_BLACK)"
        using y(2) by (cases k) auto
      have tb: "top_black k" using "1.prems"(7) by (auto simp: top_black_def split: if_splits)
      have la: "list_all (\<lambda>x. invc (sib x)) k" using "1.prems"(5) by simp
      show ?thesis using "1.IH" [OF red True r(1,2,4,3) la k tb] red True by simp
    next
      case False
      then have u: "col (sib y) = RBT_BLACK" by (simp add: color_cases)
      from rotated_inv [OF "1.prems"(1,2,3) y(2) "1.prems"(4) y(3,4) red y(1) u]
      have "invc (plug k (rotated x y T))" "invh (plug k (rotated x y T))"
        using y(2) by (auto simp: invc_plug invh_plug)
      then show ?thesis using red False invc_paint_black by simp
    qed
  qed
next
  case (2 T)
  then show ?case by (simp add: invc_paint_black)
next
  case (3 x T)
  then have "invc (plug [x] T)" "invh (plug [x] T)"
    by (auto simp: invc_plug invh_plug top_black_def simp del: plug.simps)
  then show ?case by (simp add: invc_paint_black del: plug.simps)
qed

lemma cinvc_sibs: "cinvc k \<Longrightarrow> list_all (\<lambda>x. invc (sib x)) k"
  by (induction k) auto

lemma pins_inv:
  assumes "invc T" and "invh T" and "col T = RBT_BLACK"
  shows "invc (pins gl z T) \<and> invh (pins gl z T) \<and> col (pins gl z T) = RBT_BLACK"
proof -
  let ?k = "pdesc gl T []"
  have "invc (plug ?k Leaf)" "invh (plug ?k Leaf)" using assms by (simp_all add: plug_pdesc)
  then have k: "cinvc ?k" "cinvh 0 ?k" by (auto simp: invc_plug invh_plug)
  have "top_black ?k" by (rule pdesc_top_black) (simp add: assms(3))
  moreover have "?k \<noteq> [] \<longrightarrow> cinvc (tl ?k) \<and> (ccol (hd ?k) = RBT_RED \<longrightarrow> col (sib (hd ?k)) = RBT_BLACK \<and> ctop (tl ?k) = RBT_BLACK)"
    using k(1) by (cases ?k) auto
  ultimately show ?thesis
    using pfix_inv [of "Node Leaf (z, RBT_RED) Leaf" ?k] k cinvc_sibs [OF k(1)] by (simp add: pins_def)
qed

lemma height_bheight:
  "invc T \<Longrightarrow> invh T \<Longrightarrow> height T \<le> 2 * bheight T + (if col T = RBT_BLACK then 0 else 1)"
  by (induction T rule: invh.induct) (auto simp: color_cases split: if_splits)

lemma bheight_size: "invh T \<Longrightarrow> 2 ^ bheight T \<le> size1 T"
  by (induction T rule: invh.induct) auto

lemma height_bound:
  assumes "invc T" "invh T" "col T = RBT_BLACK"
  shows "2 ^ height T \<le> (size1 T) ^ 2"
proof -
  have "(2::nat) ^ height T \<le> 2 ^ (2 * bheight T)" using height_bheight [OF assms(1,2)] assms(3) by simp
  also have "\<dots> = (2 ^ bheight T) ^ 2" by (simp add: power_mult [symmetric] mult.commute)
  also have "\<dots> \<le> (size1 T) ^ 2" using bheight_size [OF assms(2)] by (rule power_mono) simp
  finally show ?thesis .
qed


subsection \<open>The index as a sorted list of users\<close>

definition user_at :: "bst \<Rightarrow> nat \<Rightarrow> nat" where
  "user_at t a = the (bn_user (bt_node t a))"

definition index_users :: "bst \<Rightarrow> ctree \<Rightarrow> nat list" where
  "index_users t T = map (user_at t) (addr_list T)"

text \<open>
  \<open>index_inv\<close>: the heap holds a red-black tree \<open>T\<close> whose nodes all name a user, in the order of
  the user names (equal names allowed), and the size field is the number of its nodes.
\<close>

definition index_inv :: "names \<Rightarrow> bst \<Rightarrow> ctree \<Rightarrow> bool" where
  "index_inv nm t T \<longleftrightarrow> holds t T \<and> invc T \<and> invh T \<and> col T = RBT_BLACK
     \<and> color_of t g_nil = RBT_BLACK \<and> (\<forall>a \<in> addrs T. bn_user (bt_node t a) \<noteq> None)
     \<and> sorted (map nm (index_users t T)) \<and> bt_size t = int (size T)"

lemma length_addr_list: "length (addr_list T) = size T"
  by simp

lemma goes_left_user:
  "bn_user (bt_node t a) \<noteq> None \<Longrightarrow> goes_left nm t name a \<longleftrightarrow> name < nm (user_at t a)"
  by (auto simp: goes_left_def user_at_def strcmp_less)

lemma sorted_split:
  fixes f :: "'a \<Rightarrow> string"
  assumes "sorted (map f xs)"
  shows "xs = filter (\<lambda>x. f x \<le> s) xs @ filter (\<lambda>x. s < f x) xs"
  using assms
proof (induction xs)
  case (Cons x xs)
  show ?case
  proof (cases "f x \<le> s")
    case False
    then have "\<forall>y \<in> set xs. s < f y" using Cons.prems by (auto intro: less_le_trans)
    then have "filter (\<lambda>x. f x \<le> s) xs = []" "filter (\<lambda>x. s < f x) xs = xs"
      by (auto simp: filter_empty_conv filter_id_conv)
    then show ?thesis using False by auto
  qed (use Cons in auto)
qed simp

text \<open>Insertion into a list sorted by name, after the entries with the same name.\<close>

definition insert_user :: "names \<Rightarrow> nat \<Rightarrow> nat list \<Rightarrow> nat list" where
  "insert_user nm u us = filter (\<lambda>v. nm v \<le> nm u) us @ u # filter (\<lambda>v. nm u < nm v) us"

lemma sorted_insert_user:
  assumes "sorted (map nm us)"
  shows "sorted (map nm (insert_user nm u us))"
proof -
  have "sorted (map nm (filter P us))" for P using assms by (rule sorted_filter)
  then show ?thesis
    by (auto simp: insert_user_def sorted_append)
qed

lemma index_insert:
  assumes inv: "index_inv nm t T" and z: "z \<notin> addrs T" "z \<noteq> g_nil" "bn_user (bt_node t z) = Some u"
  shows "\<exists>t' T'. bst_insert nm (nm u) z t = Some t' \<and> index_inv nm t' T'
    \<and> index_users t' T' = insert_user nm u (index_users t T) \<and> addrs T' = insert z (addrs T)
    \<and> (\<forall>a. bn_user (bt_node t' a) = bn_user (bt_node t a) \<and> bn_used (bt_node t' a) = bn_used (bt_node t a))"
proof -
  let ?gl = "goes_left nm t (nm u)"
  let ?T = "pins ?gl z T"
  have i: "holds t T" "invc T" "invh T" "col T = RBT_BLACK" "color_of t g_nil = RBT_BLACK"
      "\<forall>a \<in> addrs T. bn_user (bt_node t a) \<noteq> None" "sorted (map nm (index_users t T))" "bt_size t = int (size T)"
    using inv by (auto simp: index_inv_def)
  obtain t' where t': "bst_insert nm (nm u) z t = Some t'" "holds t' ?T" "bt_size t' = bt_size t + 1"
      "color_of t' g_nil = RBT_BLACK"
      "\<forall>a. bn_user (bt_node t' a) = bn_user (bt_node t a) \<and> bn_used (bt_node t' a) = bn_used (bt_node t a)"
    using bst_insert_holds [OF i(1) z(1,2) i(5,4), of nm "nm u"] by blast
  have same: "user_at t' = user_at t" using t'(5) by (auto simp: user_at_def)
  let ?le = "\<lambda>a. nm (user_at t a) \<le> nm u" and ?gt = "\<lambda>a. nm u < nm (user_at t a)"
  have s: "addr_list T = filter ?le (addr_list T) @ filter ?gt (addr_list T)"
    by (rule sorted_split) (use i(7) in \<open>simp add: index_users_def comp_def\<close>)
  have gl: "?gl a \<longleftrightarrow> ?gt a" if "a \<in> addrs T" for a using goes_left_user i(6) that by blast
  have al: "addr_list ?T = filter ?le (addr_list T) @ z # filter ?gt (addr_list T)"
    by (rule addr_list_pins [OF s]) (use gl set_addr_list [of T] in auto)
  have "user_at t z = u" using z(3) by (simp add: user_at_def)
  then have us: "index_users t' ?T = insert_user nm u (index_users t T)"
    unfolding index_users_def al same by (simp add: insert_user_def filter_map comp_def)
  have ad: "addrs ?T = insert z (addrs T)"
    using set_addr_list [of ?T] set_addr_list [of T] unfolding al by auto
  have "size ?T = length (addr_list ?T)" by simp
  also have "\<dots> = Suc (length (filter ?le (addr_list T)) + length (filter ?gt (addr_list T)))"
    unfolding al by simp
  also have "\<dots> = Suc (size T)" using arg_cong [OF s, of length] by simp
  finally have sz: "size ?T = Suc (size T)" .
  have "index_inv nm t' ?T"
    unfolding index_inv_def us
    using pins_inv [OF i(2,3,4), of ?gl z] t'(2,3,4,5) ad i(6,8) z(3) sz sorted_insert_user [OF i(7)] by auto
  then show ?thesis using t' us ad by blast
qed

subsection \<open>Search\<close>

lemma find_loop_correct:
  assumes "rep t q x T" and "\<forall>a \<in> addrs T. bn_user (bt_node t a) \<noteq> None"
    and "sorted (map nm (index_users t T))"
  shows "\<exists>r s'. find_loop nm t name x s = Some (r, s') \<and> s' \<le> s + height T
    \<and> (case r of None \<Rightarrow> name \<notin> nm ` set (index_users t T)
       | Some u \<Rightarrow> u \<in> set (index_users t T) \<and> nm u = name)"
  using assms
proof (induction T arbitrary: q x s rule: addrs.induct)
  case 1
  then show ?case by (subst find_loop.simps) (simp add: index_users_def)
next
  case (2 l a c r)
  then obtain u where u: "bn_user (bt_node t a) = Some u" and x: "x = a" "x \<noteq> g_nil" by auto
  have us: "index_users t (Node l (a, c) r) = index_users t l @ u # index_users t r"
    using u by (simp add: index_users_def user_at_def)
  have sl: "sorted (map nm (index_users t l))" "sorted (map nm (index_users t r))"
    "\<forall>v \<in> set (index_users t l). nm v \<le> nm u" "\<forall>v \<in> set (index_users t r). nm u \<le> nm v"
    using "2.prems"(3) unfolding us by (auto simp: sorted_append)
  consider "name = nm u" | "name < nm u" | "nm u < name" by (rule linorder_cases) auto
  then show ?case
  proof cases
    case 1
    then show ?thesis using u x by (subst find_loop.simps) (simp add: us)
  next
    case 2
    then have "name \<notin> nm ` set (index_users t r)" using sl(4) by auto
    moreover have "find_loop nm t name x s = find_loop nm t name (left_of t a) (s + 1)"
      using 2 u x strcmp_less [of name "nm u"] by (subst find_loop.simps) auto
    ultimately show ?thesis
      using "2.IH"(1) [of a "left_of t a" "s + 1"] "2.prems" sl(1) 2
      by (fastforce simp: us split: option.splits)
  next
    case 3
    then have "name \<notin> nm ` set (index_users t l)" using sl(3) by auto
    moreover have "\<not> strcmp name (nm u) < 0" "strcmp name (nm u) \<noteq> 0"
      using 3 strcmp_less [of name "nm u"] by auto
    then have "find_loop nm t name x s = find_loop nm t name (right_of t a) (s + 1)"
      using u x by (subst find_loop.simps) auto
    ultimately show ?thesis
      using "2.IH"(2) [of a "right_of t a" "s + 1"] "2.prems" sl(2) 3
      by (fastforce simp: us split: option.splits)
  qed
qed


subsection \<open>Properties\<close>

text \<open>
  C6: insertion refines insertion into a sorted list: it always ends, keeps the heap a
  red-black tree in name order over exactly the old nodes and the new one, and the users in
  tree order are the old ones with the new user after those whose name is not greater.
\<close>
theorem bst_insert_refines:
  assumes "index_inv nm t T" and "z \<notin> addrs T" and "z \<noteq> g_nil" and "bn_user (bt_node t z) = Some u"
  shows "\<exists>t' T'. bst_insert nm (nm u) z t = Some t' \<and> index_inv nm t' T'
    \<and> index_users t' T' = insert_user nm u (index_users t T) \<and> addrs T' = insert z (addrs T)"
  using index_insert [OF assms] by blast

definition empty_node :: bst_node where
  "empty_node = \<lparr>bn_user = None, bn_left = 0, bn_right = 0, bn_parent = 0, bn_color = RBT_BLACK, bn_used = True\<rparr>"

definition one_fresh :: bst where
  \<comment> \<open>an empty tree and one allocated node\<close>
  "one_fresh = \<lparr>bt_root = g_nil, bt_size = 0, bt_node = (\<lambda>_. empty_node)(1 := empty_node\<lparr>bn_user := Some 7\<rparr>)\<rparr>"

lemma one_fresh_inv: "index_inv nm one_fresh Leaf"
  by (simp add: index_inv_def one_fresh_def holds_def at_hole_def index_users_def empty_node_def)

lemma one_fresh_user: "bn_user (bt_node one_fresh 1) = Some 7"
  by (simp add: one_fresh_def)

lemma bst_insert_refines_witness:
  "\<exists>t' T'. bst_insert (\<lambda>_. ''bob'') ''bob'' 1 one_fresh = Some t' \<and> index_users t' T' = [7]"
proof -
  have "index_users one_fresh Leaf = []" by (simp add: index_users_def)
  then show ?thesis
    using bst_insert_refines [OF one_fresh_inv _ _ one_fresh_user, of "\<lambda>_. ''bob''"]
    by (fastforce simp: insert_user_def)
qed

text \<open>
  C30: a search always ends and is correct with respect to that list, duplicates included: it
  returns a user of the index with the name asked for if there is one and nothing otherwise,
  and the number \<open>s\<close> of nodes it compares with satisfies \<open>2 ^ s \<le> (n + 1) ^ 2\<close> for an index of
  \<open>n\<close> users.
\<close>
theorem bst_find_correct:
  assumes "index_inv nm t T"
  shows "\<exists>r s. bst_find_with_steps nm t name = Some (r, s) \<and> bst_find nm t name = Some r
    \<and> (case r of None \<Rightarrow> name \<notin> nm ` set (index_users t T)
       | Some u \<Rightarrow> u \<in> set (index_users t T) \<and> nm u = name)
    \<and> 2 ^ s \<le> (length (index_users t T) + 1) ^ 2"
proof -
  have i: "rep t g_nil (bt_root t) T" "\<forall>a \<in> addrs T. bn_user (bt_node t a) \<noteq> None"
      "sorted (map nm (index_users t T))" "invc T" "invh T" "col T = RBT_BLACK"
    using assms by (auto simp: index_inv_def holds_def at_hole_def)
  obtain r s where f: "find_loop nm t name (bt_root t) 0 = Some (r, s)" "s \<le> height T"
      "case r of None \<Rightarrow> name \<notin> nm ` set (index_users t T)
       | Some u \<Rightarrow> u \<in> set (index_users t T) \<and> nm u = name"
    using find_loop_correct [OF i(1,2,3), of name 0] by auto
  have "(2::nat) ^ s \<le> 2 ^ height T" using f(2) by simp
  also have "\<dots> \<le> (size1 T) ^ 2" by (rule height_bound [OF i(4,5,6)])
  finally have "2 ^ s \<le> (length (index_users t T) + 1) ^ 2"
    by (simp add: index_users_def size1_size)
  then show ?thesis using f by (auto simp: bst_find_def bst_find_with_steps_def)
qed

lemma bst_find_correct_witness:
  "\<exists>s. bst_find_with_steps (\<lambda>_. ''bob'') one_fresh ''bob'' = Some (None, s) \<and> (2 :: nat) ^ s \<le> 1"
  using bst_find_correct [OF one_fresh_inv, of "\<lambda>_. ''bob''" "''bob''"]
  by (fastforce simp: index_users_def split: option.splits)

end
