(* ===== verification/User_Index_Delete.thy ===== *)
theory User_Index_Delete
  imports User_Index_Correct
begin

text \<open>
  Deletion from the name index.  \<open>pdel\<close> is the loop of \<open>rbt_delete_fixup\<close> on the represented tree:
  a subtree that lacks one black node, and the path from it to the root.  Removing a node is
  described by the same means, so that \<open>bst_delete\<close> is shown to end, to keep the red-black
  invariant, and to remove one user with the name from the sorted list.
\<close>

subsection \<open>The rebalancing loop on trees\<close>

fun black_case :: "crumb \<Rightarrow> ctree \<Rightarrow> ctree \<times> bool" where
  \<comment> \<open>one iteration with a black sibling: the subtree afterwards, and whether the loop is over\<close>
  "black_case (InL p cp (Node a (w, cw) b)) T =
     (if col a = RBT_BLACK \<and> col b = RBT_BLACK then (Node T (p, cp) (Node a (w, RBT_RED) b), False)
      else (case (col b, a) of
              (RBT_BLACK, Node aa (v, cv) ab) \<Rightarrow> Node (Node T (p, RBT_BLACK) aa) (v, cp) (Node ab (w, RBT_BLACK) b)
            | _ \<Rightarrow> Node (Node T (p, RBT_BLACK) a) (w, cp) (paint RBT_BLACK b), True))"
| "black_case (InR (Node b (w, cw) a) p cp) T =
     (if col a = RBT_BLACK \<and> col b = RBT_BLACK then (Node (Node b (w, RBT_RED) a) (p, cp) T, False)
      else (case (col b, a) of
              (RBT_BLACK, Node ab (v, cv) aa) \<Rightarrow> Node (Node b (w, RBT_BLACK) ab) (v, cp) (Node aa (p, RBT_BLACK) T)
            | _ \<Rightarrow> Node (paint RBT_BLACK b) (w, cp) (Node a (p, RBT_BLACK) T), True))"
| "black_case x T = (plug [x] T, True)"

fun red_case :: "crumb \<Rightarrow> crumb \<times> crumb" where
  \<comment> \<open>a red sibling is rotated above the parent: the two crumbs above the subtree afterwards\<close>
  "red_case (InL p cp (Node a (w, cw) b)) = (InL p RBT_RED a, InL w RBT_BLACK b)"
| "red_case (InR (Node b (w, cw) a) p cp) = (InR a p RBT_RED, InR b w RBT_BLACK)"
| "red_case x = (x, x)"

fun pdel :: "crumb list \<Rightarrow> ctree \<Rightarrow> ctree" where
  "pdel [] T = paint RBT_BLACK T"
| "pdel (x # k) T =
     (if col T = RBT_RED then plug (x # k) (paint RBT_BLACK T)
      else if col (sib x) = RBT_RED then
        (let (T', fin) = black_case (fst (red_case x)) T; k' = snd (red_case x) # k
         in if fin then paint RBT_BLACK (plug k' T') else plug k' (paint RBT_BLACK T'))
      else
        (let (T', fin) = black_case x T
         in if fin then paint RBT_BLACK (plug k T') else pdel k T'))"

text \<open>What it keeps: the order, and the invariants up to the missing black node.\<close>

lemma black_case_order: "sib x \<noteq> Leaf \<Longrightarrow> addr_list (fst (black_case x T)) = addr_list (plug [x] T)"
  by (cases "(x, T)" rule: black_case.cases) (auto split: color.split tree.split)

lemma red_case_order:
  "sib x \<noteq> Leaf \<Longrightarrow> addr_list (plug (fst (red_case x) # snd (red_case x) # k) T) = addr_list (plug (x # k) T)"
  by (cases x rule: red_case.cases) (auto simp: addr_list_plug)

lemma black_not_Leaf: "0 < bheight T \<Longrightarrow> T \<noteq> Leaf"
  by auto

lemma red_case_sib:
  assumes "invc (sib x)" "invh (sib x)" "0 < bheight (sib x)" "col (sib x) = RBT_RED"
  shows "col (sib (fst (red_case x))) = RBT_BLACK \<and> invc (sib (fst (red_case x))) \<and> invh (sib (fst (red_case x)))
    \<and> bheight (sib (fst (red_case x))) = bheight (sib x) \<and> ccol (fst (red_case x)) = RBT_RED
    \<and> ccol (snd (red_case x)) = RBT_BLACK \<and> invc (sib (snd (red_case x))) \<and> invh (sib (snd (red_case x)))
    \<and> bheight (sib (snd (red_case x))) = bheight (sib x)"
  using assms by (cases x rule: red_case.cases) (auto simp: black_not_Leaf)

lemma invc_paint: "invc (paint RBT_BLACK T) \<Longrightarrow> col T = RBT_BLACK \<Longrightarrow> invc T"
  by (cases T rule: col.cases) auto

lemma black_case_inv:
  assumes "col T = RBT_BLACK" "invc T" "invh T" "invc (sib x)" "invh (sib x)"
    and "bheight (sib x) = Suc (bheight T)" "col (sib x) = RBT_BLACK" and "black_case x T = (T', fin)"
  shows "invh T' \<and> (if fin then invc T' else invc (paint RBT_BLACK T')) \<and> col T' = ccol x
    \<and> bheight T' + (if fin then 0 else 1) = Suc (bheight T) + (if ccol x = RBT_BLACK then 1 else 0) \<and> T' \<noteq> Leaf"
proof (cases "(x, T)" rule: black_case.cases)
  case (1 p cp a w cw b U)
  then show ?thesis using assms
    by (cases "col a"; cases "col b"; cases a rule: col.cases; cases b rule: col.cases) auto
next
  case (2 b w cw a p cp U)
  then show ?thesis using assms
    by (cases "col a"; cases "col b"; cases a rule: col.cases; cases b rule: col.cases) auto
qed (use assms in auto)

lemma addr_list_cong: "addr_list U = addr_list U' \<Longrightarrow> addr_list (plug k U) = addr_list (plug k U')"
  by (simp add: addr_list_plug)

lemma plug_one: "plug (x # k) T = plug k (plug [x] T)"
  by (cases x) simp_all

definition repaired :: "crumb list \<Rightarrow> ctree \<Rightarrow> ctree \<Rightarrow> bool" where
  "repaired k T U \<longleftrightarrow> invc U \<and> invh U \<and> col U = RBT_BLACK \<and> addr_list U = addr_list (plug k T)"

lemma col_path: "k \<noteq> [] \<Longrightarrow> col (plug k T) = ccol (last k)"
proof (induction k T rule: plug.induct)
  case (2 a c r k T)
  then show ?case by (cases "k = []") simp_all
next
  case (3 l a c k T)
  then show ?case by (cases "k = []") simp_all
qed simp

lemma repaired_done:
  assumes "invc T'" "invh T'" "col T' = RBT_RED \<longrightarrow> ctop k = RBT_BLACK" "cinvc k" "cinvh (bheight T') k"
    and "addr_list (plug k T') = addr_list (plug k' T)"
  shows "repaired k' T (paint RBT_BLACK (plug k T'))"
  using assms by (simp add: repaired_def invc_paint_black invc_plug invh_plug)

lemma repaired_plug:
  assumes "invc (paint RBT_BLACK T')" "invh T'" "col T' = RBT_RED" "cinvc k" "cinvh (Suc (bheight T')) k" "k \<noteq> []"
    and "top_black k" and "addr_list (plug k T') = addr_list (plug k' T)"
  shows "repaired k' T (plug k (paint RBT_BLACK T'))"
proof -
  have "T' \<noteq> Leaf" using assms(3) by auto
  then have "paint RBT_BLACK T' \<noteq> Leaf" by (cases T' rule: col.cases) auto
  then show ?thesis
    using assms by (simp add: repaired_def invc_plug invh_plug bheight_paint col_path top_black_def addr_list_plug)
qed

lemma pdel_inv:
  assumes "invc (paint RBT_BLACK T)" "invh T" "cinvc k" "cinvh (Suc (bheight T)) k" "top_black k"
  shows "repaired k T (pdel k T)"
  using assms
proof (induction k T rule: pdel.induct)
  case (1 T)
  then show ?case by (simp add: repaired_def)
next
  case (2 x k T)
  have x: "invc (sib x)" "invh (sib x)" "bheight (sib x) = Suc (bheight T)" "sib x \<noteq> Leaf" "cinvc k"
    "cinvh (Suc (bheight T) + (if ccol x = RBT_BLACK then 1 else 0)) k"
    "ccol x = RBT_RED \<longrightarrow> col (sib x) = RBT_BLACK \<and> ctop k = RBT_BLACK"
    using "2.prems" black_not_Leaf [of "sib x"] by auto
  have tk: "top_black k" using "2.prems"(5) by (auto simp: top_black_def split: if_splits)
  consider (red) "col T = RBT_RED" | (sib_red) "col T = RBT_BLACK" "col (sib x) = RBT_RED"
    | (black) "col T = RBT_BLACK" "col (sib x) = RBT_BLACK"
    by (meson color_cases)
  then show ?case
  proof cases
    case red
    then have "pdel (x # k) T = plug (x # k) (paint RBT_BLACK T)" by (simp del: plug.simps)
    moreover have "repaired (x # k) T (plug (x # k) (paint RBT_BLACK T))"
      by (rule repaired_plug) (use 2 red in auto)
    ultimately show ?thesis by simp
  next
    case sib_red
    obtain y z where yz: "red_case x = (y, z)" by force
    obtain T' fin where b: "black_case y T = (T', fin)" by force
    have r: "col (sib y) = RBT_BLACK" "invc (sib y)" "invh (sib y)" "bheight (sib y) = Suc (bheight T)"
      "ccol y = RBT_RED" "ccol z = RBT_BLACK" "invc (sib z)" "invh (sib z)" "bheight (sib z) = Suc (bheight T)"
      using red_case_sib [OF x(1,2) _ sib_red(2)] x(3) by (simp_all add: yz)
    have i: "invh T'" "if fin then invc T' else invc (paint RBT_BLACK T')" "col T' = RBT_RED"
      "bheight T' + (if fin then 0 else 1) = Suc (bheight T)"
      using black_case_inv [OF sib_red(1) invc_paint [OF "2.prems"(1) sib_red(1)] "2.prems"(2) r(2,3,4,1) b] r(5)
      by auto
    have bx: "ccol x = RBT_BLACK" using x(7) sib_red(2) by (cases "ccol x") auto
    have z: "cinvc (z # k)" "cinvh (Suc (bheight T)) (z # k)" "top_black (z # k)"
      using r x tk bx by (auto simp: top_black_def)
    have "sib y \<noteq> Leaf" using r(4) by auto
    then have "addr_list T' = addr_list (plug [y] T)" using black_case_order [of y T] b by simp
    then have "addr_list (plug (z # k) T') = addr_list (plug (y # z # k) T)"
      by (subst plug_one) (rule addr_list_cong)
    also have "\<dots> = addr_list (plug (x # k) T)" using red_case_order [OF x(4), of k T] yz by simp
    finally have o: "addr_list (plug (z # k) T') = addr_list (plug (x # k) T)" .
    have "pdel (x # k) T = (if fin then paint RBT_BLACK (plug (z # k) T') else plug (z # k) (paint RBT_BLACK T'))"
      using sib_red yz b by (simp del: plug.simps)
    moreover have "repaired (x # k) T (paint RBT_BLACK (plug (z # k) T'))" if fin
      by (rule repaired_done) (use that i z o r in auto)
    moreover have "repaired (x # k) T (plug (z # k) (paint RBT_BLACK T'))" if "\<not> fin"
      by (rule repaired_plug) (use that i z o in auto)
    ultimately show ?thesis by simp
  next
    case black
    obtain T' fin where b: "black_case x T = (T', fin)" by force
    have i: "invh T'" "if fin then invc T' else invc (paint RBT_BLACK T')" "col T' = ccol x"
      "bheight T' + (if fin then 0 else 1) = Suc (bheight T) + (if ccol x = RBT_BLACK then 1 else 0)"
      using black_case_inv [OF black(1) invc_paint [OF "2.prems"(1) black(1)] "2.prems"(2) x(1,2,3) black(2) b]
      by auto
    have "addr_list T' = addr_list (plug [x] T)" using black_case_order [OF x(4), of T] b by simp
    then have o: "addr_list (plug k T') = addr_list (plug (x # k) T)"
      by (subst plug_one) (rule addr_list_cong)
    have p: "pdel (x # k) T = (if fin then paint RBT_BLACK (plug k T') else pdel k T')"
      using black b by simp
    show ?thesis
    proof (cases fin)
      case True
      have "repaired (x # k) T (paint RBT_BLACK (plug k T'))"
        by (rule repaired_done) (use True i x o in auto)
      then show ?thesis using p True by simp
    next
      case False
      have "repaired k T' (pdel k T')"
        using "2.IH" [of "(T', fin)" T' fin] black b False i x(5,6) tk by simp
      then show ?thesis using p False o by (simp add: repaired_def)
    qed
  qed
qed

subsection \<open>One iteration on the heap\<close>

text \<open>
  The loop also reads the parent of \<open>g_nil\<close> when the subtree is empty: \<open>linked\<close> says that it has been
  set, \<open>calm\<close> that it stays.
\<close>

fun top :: "ctree \<Rightarrow> nat" where
  "top Leaf = g_nil"
| "top (Node l (a, c) r) = a"

lemma at_hole_top: "at_hole t k x T \<Longrightarrow> x = top T"
  by (cases T rule: top.cases) (auto simp: at_hole_def)

definition linked :: "bst \<Rightarrow> crumb list \<Rightarrow> nat \<Rightarrow> ctree \<Rightarrow> bool" where
  "linked t k x T \<longleftrightarrow> at_hole t k x T \<and> (T = Leaf \<longrightarrow> parent_of t g_nil = par k)"

lemma linked_parent: "linked t k x T \<Longrightarrow> parent_of t x = par k"
  by (cases T rule: col.cases) (auto simp: linked_def at_hole_def)

definition calm :: "bst \<Rightarrow> bst \<Rightarrow> bool" where
  "calm t t' \<longleftrightarrow> quiet t t' \<and> parent_of t' g_nil = parent_of t g_nil"

lemma calm_refl: "calm t t"
  by (simp add: calm_def quiet_refl)

lemma calm_trans: "calm t t1 \<Longrightarrow> calm t1 t2 \<Longrightarrow> calm t t2"
  by (auto simp: calm_def intro: quiet_trans)

lemma calm_color: "calm t t' \<Longrightarrow> x \<noteq> g_nil \<Longrightarrow> calm t (set_color x c t')"
  by (auto simp: calm_def intro: quiet_color)

lemma calm_nil: "calm t t' \<Longrightarrow> color_of t g_nil = RBT_BLACK \<Longrightarrow> color_of t' g_nil = RBT_BLACK"
  by (simp add: calm_def quiet_def)

lemma calm_left_rotate:
  assumes "calm t t'" and "x \<noteq> g_nil" and "right_of t' x \<noteq> g_nil"
  shows "calm t (rbt_left_rotate x t')"
proof -
  have "parent_of (rbt_left_rotate x t') g_nil = parent_of t' g_nil"
    using assms(2,3) by (simp add: rbt_left_rotate_def Let_def reparent_def relink_def)
  then show ?thesis using assms(1) by (simp add: calm_def quiet_rotate)
qed

lemma calm_right_rotate:
  assumes "calm t t'" and "x \<noteq> g_nil" and "left_of t' x \<noteq> g_nil"
  shows "calm t (rbt_right_rotate x t')"
proof -
  have "parent_of (rbt_right_rotate x t') g_nil = parent_of t' g_nil"
    using assms(2,3) by (simp add: rbt_right_rotate_def Let_def reparent_def relink_right_def)
  then show ?thesis using assms(1) by (simp add: calm_def quiet_rotate)
qed

lemma linked_calm: "calm t t' \<Longrightarrow> linked t k x T \<Longrightarrow> at_hole t' k' x T \<Longrightarrow> par k' = par k \<Longrightarrow> linked t' k' x T"
  by (simp add: linked_def calm_def)

lemma last_rotation_L:
  assumes p: "at_hole t k p (Node T (p, cp) (Node a (w, cw) b))" and red: "col b = RBT_RED"
    and nil: "color_of t g_nil = RBT_BLACK"
  defines "t' \<equiv> rbt_left_rotate p (set_color (right_of t w) RBT_BLACK (set_color p RBT_BLACK (set_color w (color_of t p) t)))"
  shows "at_hole t' k w (Node (Node T (p, RBT_BLACK) a) (w, cp) (paint RBT_BLACK b)) \<and> calm t t'"
proof -
  have cp: "color_of t p = cp" and rp: "right_of t p = w" and ne: "p \<noteq> g_nil" "w \<noteq> g_nil" "p \<noteq> w"
    using p by (auto simp: at_hole_def)
  have b: "b \<noteq> Leaf" using red by auto
  define t1 where "t1 = set_color w cp t"
  define t2 where "t2 = set_color p RBT_BLACK t1"
  define t3 where "t3 = set_color (right_of t w) RBT_BLACK t2"
  have 1: "at_hole t1 k p (Node T (p, cp) (Node a (w, cp) b))"
    using at_hole_color [OF at_hole_down_R [OF p, unfolded rp]] rp ne by (simp add: t1_def at_hole_up_R)
  have 2: "at_hole t2 k p (Node T (p, RBT_BLACK) (Node a (w, cp) b))"
    unfolding t2_def by (rule at_hole_color [OF 1])
  have rw: "right_of t2 w = right_of t w" "right_of t2 p = w" using ne rp by (simp_all add: t2_def t1_def)
  have w: "at_hole t2 (InR T p RBT_BLACK # k) w (Node a (w, cp) b)"
    using at_hole_down_R [OF 2] rw by simp
  have "at_hole t3 (InR a w cp # InR T p RBT_BLACK # k) (right_of t w) (paint RBT_BLACK b)"
    using at_hole_paint [OF at_hole_down_R [OF w] b] by (simp add: t3_def rw)
  then have 3: "at_hole t3 k p (Node T (p, RBT_BLACK) (Node a (w, cp) (paint RBT_BLACK b)))"
    by (simp add: at_hole_up_R)
  have "color_of t (right_of t w) = RBT_RED"
    using at_hole_col [OF at_hole_down_R [OF at_hole_down_R [OF p, unfolded rp]] nil] red by simp
  then have rn: "right_of t w \<noteq> g_nil" using red_not_nil nil by blast
  have "calm t t3" unfolding t3_def t2_def t1_def by (intro calm_color calm_refl ne rn)
  moreover have "right_of t3 p \<noteq> g_nil" using 3 ne(2) by (simp add: at_hole_def)
  ultimately have "calm t (rbt_left_rotate p t3)" using ne(1) calm_left_rotate by blast
  moreover have "t' = rbt_left_rotate p t3" by (simp add: t'_def t3_def t2_def t1_def cp)
  ultimately show ?thesis using left_rotate_at [OF 3] by simp
qed

lemma last_rotation_R:
  assumes p: "at_hole t k p (Node (Node b (w, cw) a) (p, cp) T)" and red: "col b = RBT_RED"
    and nil: "color_of t g_nil = RBT_BLACK"
  defines "t' \<equiv> rbt_right_rotate p (set_color (left_of t w) RBT_BLACK (set_color p RBT_BLACK (set_color w (color_of t p) t)))"
  shows "at_hole t' k w (Node (paint RBT_BLACK b) (w, cp) (Node a (p, RBT_BLACK) T)) \<and> calm t t'"
proof -
  have cp: "color_of t p = cp" and lp: "left_of t p = w" and ne: "p \<noteq> g_nil" "w \<noteq> g_nil" "p \<noteq> w"
    using p by (auto simp: at_hole_def)
  have b: "b \<noteq> Leaf" using red by auto
  define t1 where "t1 = set_color w cp t"
  define t2 where "t2 = set_color p RBT_BLACK t1"
  define t3 where "t3 = set_color (left_of t w) RBT_BLACK t2"
  have 1: "at_hole t1 k p (Node (Node b (w, cp) a) (p, cp) T)"
    using at_hole_color [OF at_hole_down_L [OF p, unfolded lp]] lp ne by (simp add: t1_def at_hole_up_L)
  have 2: "at_hole t2 k p (Node (Node b (w, cp) a) (p, RBT_BLACK) T)"
    unfolding t2_def by (rule at_hole_color [OF 1])
  have lw: "left_of t2 w = left_of t w" "left_of t2 p = w" using ne lp by (simp_all add: t2_def t1_def)
  have w: "at_hole t2 (InL p RBT_BLACK T # k) w (Node b (w, cp) a)"
    using at_hole_down_L [OF 2] lw by simp
  have "at_hole t3 (InL w cp a # InL p RBT_BLACK T # k) (left_of t w) (paint RBT_BLACK b)"
    using at_hole_paint [OF at_hole_down_L [OF w] b] by (simp add: t3_def lw)
  then have 3: "at_hole t3 k p (Node (Node (paint RBT_BLACK b) (w, cp) a) (p, RBT_BLACK) T)"
    by (simp add: at_hole_up_L)
  have "color_of t (left_of t w) = RBT_RED"
    using at_hole_col [OF at_hole_down_L [OF at_hole_down_L [OF p, unfolded lp]] nil] red by simp
  then have rn: "left_of t w \<noteq> g_nil" using red_not_nil nil by blast
  have "calm t t3" unfolding t3_def t2_def t1_def by (intro calm_color calm_refl ne rn)
  moreover have "left_of t3 p \<noteq> g_nil" using 3 ne(2) by (simp add: at_hole_def)
  ultimately have "calm t (rbt_right_rotate p t3)" using ne(1) calm_right_rotate by blast
  moreover have "t' = rbt_right_rotate p t3" by (simp add: t'_def t3_def t2_def t1_def cp)
  ultimately show ?thesis using right_rotate_at [OF 3] by simp
qed

lemma links_color:
  "left_of (set_color x c t) y = left_of t y" "right_of (set_color x c t) y = right_of t y"
  "parent_of (set_color x c t) y = parent_of t y"
  by simp_all

definition after_step :: "bst \<Rightarrow> bst \<times> nat \<Rightarrow> crumb list \<Rightarrow> ctree \<times> bool \<Rightarrow> bool" where
  "after_step t res k out \<longleftrightarrow> calm t (fst res)
     \<and> (if snd out then snd res = bt_root (fst res) \<and> (\<exists>q. at_hole (fst res) k q (fst out))
        else at_hole (fst res) k (snd res) (fst out))"

lemma black_step_L:
  assumes x: "linked t (InL p cp s # k) x T" and s: "col s = RBT_BLACK" "s \<noteq> Leaf"
    and nil: "color_of t g_nil = RBT_BLACK"
  shows "after_step t (delete_fix_left t x) k (black_case (InL p cp s) T)"
proof -
  obtain a w b where sw: "s = Node a (w, RBT_BLACK) b" using s by (cases s rule: col.cases) auto
  have xp: "parent_of t x = p" using linked_parent [OF x] by simp
  have p: "at_hole t k p (Node T (p, cp) (Node a (w, RBT_BLACK) b))" and lp: "left_of t p = x"
    using x by (simp_all add: linked_def at_hole_up_L sw)
  have rp: "right_of t p = w" and ne: "p \<noteq> g_nil" "w \<noteq> g_nil" "p \<noteq> w" and cw: "color_of t w = RBT_BLACK"
    using p by (auto simp: at_hole_def)
  have w: "at_hole t (InR T p cp # k) w (Node a (w, RBT_BLACK) b)" using at_hole_down_R [OF p] rp by simp
  have ca: "color_of t (left_of t w) = col a" using at_hole_col [OF at_hole_down_L [OF w] nil] by simp
  have cb: "color_of t (right_of t w) = col b" using at_hole_col [OF at_hole_down_R [OF w] nil] by simp
  consider (both) "col a = RBT_BLACK" "col b = RBT_BLACK" | (far) "col b = RBT_RED"
    | (near) "col b = RBT_BLACK" "col a = RBT_RED" by (meson color_cases)
  then show ?thesis
  proof cases
    case both
    have "delete_fix_left t x = (set_color w RBT_RED t, p)"
      by (simp add: delete_fix_left_def xp rp cw ca cb both)
    moreover have "at_hole (set_color w RBT_RED t) k p (Node T (p, cp) (Node a (w, RBT_RED) b))"
      using at_hole_color [OF w, of RBT_RED] rp ne by (simp add: at_hole_up_R)
    ultimately show ?thesis
      using both calm_color [OF calm_refl ne(2)] by (simp add: after_step_def sw)
  next
    case far
    have "delete_fix_left t x = (let t' = rbt_left_rotate p (set_color (right_of t w) RBT_BLACK
        (set_color p RBT_BLACK (set_color w (color_of t p) t))) in (t', bt_root t'))"
      using ne by (simp add: delete_fix_left_def xp rp cw cb far)
    then show ?thesis
      using last_rotation_L [OF p far nil] far by (auto simp: after_step_def sw Let_def)
  next
    case near
    obtain aa v ab where a: "a = Node aa (v, RBT_RED) ab" using near(2) by (cases a rule: col.cases) auto
    have lw: "left_of t w = v" and v: "v \<noteq> g_nil" "v \<noteq> w" "v \<noteq> p" using p a by (auto simp: at_hole_def)
    define t1 where "t1 = set_color v RBT_BLACK t"
    define t2 where "t2 = set_color w RBT_RED t1"
    define t3 where "t3 = rbt_right_rotate w t2"
    have "at_hole t1 (InL w RBT_BLACK b # InR T p cp # k) v (Node aa (v, RBT_BLACK) ab)"
      unfolding t1_def using at_hole_color [of t _ v aa RBT_RED ab RBT_BLACK] at_hole_down_L [OF w] lw a by simp
    then have "at_hole t1 (InR T p cp # k) w (Node (Node aa (v, RBT_BLACK) ab) (w, RBT_BLACK) b)"
      by (simp add: at_hole_up_L)
    then have 2: "at_hole t2 (InR T p cp # k) w (Node (Node aa (v, RBT_BLACK) ab) (w, RBT_RED) b)"
      unfolding t2_def by (rule at_hole_color)
    have 3: "at_hole t3 (InR T p cp # k) v (Node aa (v, RBT_BLACK) (Node ab (w, RBT_RED) b))"
      unfolding t3_def by (rule right_rotate_at [OF 2])
    have p3: "at_hole t3 k p (Node T (p, cp) (Node aa (v, RBT_BLACK) (Node ab (w, RBT_RED) b)))"
      and rp3: "right_of t3 p = v" using 3 by (simp_all add: at_hole_up_R)
    have "left_of t2 w = v" using lw v by (auto simp: t2_def t1_def)
    then have c3: "calm t t3"
      unfolding t3_def using v ne by (intro calm_right_rotate) (auto simp: t2_def t1_def intro: calm_color calm_refl)
    have "left_of t3 p = x"
      using at_hole_top [OF at_hole_down_L [OF p3]] at_hole_top [OF at_hole_down_L [OF p]] lp by simp
    then have "linked t3 (InL p cp (Node aa (v, RBT_BLACK) (Node ab (w, RBT_RED) b)) # k) x T"
      using linked_calm [OF c3 x] at_hole_down_L [OF p3] by simp
    then have xp3: "parent_of t3 x = p" using linked_parent by fastforce
    have "delete_fix_left t x = (let t' = rbt_left_rotate p (set_color (right_of t3 v) RBT_BLACK
        (set_color p RBT_BLACK (set_color v (color_of t3 p) t3))) in (t', bt_root t'))"
      using ne v near unfolding delete_fix_left_def
      by (simp add: xp rp cw ca [unfolded lw] cb lw links_color t1_def [symmetric] t2_def [symmetric] t3_def [symmetric] xp3 rp3 Let_def
          del: upd_simps)
    then show ?thesis
      using last_rotation_L [OF p3 _ calm_nil [OF c3 nil]] near calm_trans [OF c3]
      by (auto simp: after_step_def sw Let_def a)
  qed
qed

lemma black_step_R:
  assumes x: "linked t (InR s p cp # k) x T" and s: "col s = RBT_BLACK" "s \<noteq> Leaf"
    and nil: "color_of t g_nil = RBT_BLACK"
  shows "after_step t (delete_fix_right t x) k (black_case (InR s p cp) T)"
proof -
  obtain a w b where sw: "s = Node b (w, RBT_BLACK) a" using s by (cases s rule: col.cases) auto
  have xp: "parent_of t x = p" using linked_parent [OF x] by simp
  have p: "at_hole t k p (Node (Node b (w, RBT_BLACK) a) (p, cp) T)" and rp: "right_of t p = x"
    using x by (simp_all add: linked_def at_hole_up_R sw)
  have lp: "left_of t p = w" and ne: "p \<noteq> g_nil" "w \<noteq> g_nil" "p \<noteq> w" and cw: "color_of t w = RBT_BLACK"
    using p by (auto simp: at_hole_def)
  have w: "at_hole t (InL p cp T # k) w (Node b (w, RBT_BLACK) a)" using at_hole_down_L [OF p] lp by simp
  have ca: "color_of t (right_of t w) = col a" using at_hole_col [OF at_hole_down_R [OF w] nil] by simp
  have cb: "color_of t (left_of t w) = col b" using at_hole_col [OF at_hole_down_L [OF w] nil] by simp
  consider (both) "col a = RBT_BLACK" "col b = RBT_BLACK" | (far) "col b = RBT_RED"
    | (near) "col b = RBT_BLACK" "col a = RBT_RED" by (meson color_cases)
  then show ?thesis
  proof cases
    case both
    have "delete_fix_right t x = (set_color w RBT_RED t, p)"
      by (simp add: delete_fix_right_def xp lp cw ca cb both)
    moreover have "at_hole (set_color w RBT_RED t) k p (Node (Node b (w, RBT_RED) a) (p, cp) T)"
      using at_hole_color [OF w, of RBT_RED] lp ne by (simp add: at_hole_up_L)
    ultimately show ?thesis
      using both calm_color [OF calm_refl ne(2)] by (simp add: after_step_def sw)
  next
    case far
    have "delete_fix_right t x = (let t' = rbt_right_rotate p (set_color (left_of t w) RBT_BLACK
        (set_color p RBT_BLACK (set_color w (color_of t p) t))) in (t', bt_root t'))"
      using ne by (simp add: delete_fix_right_def xp lp cw cb far)
    then show ?thesis
      using last_rotation_R [OF p far nil] far by (auto simp: after_step_def sw Let_def)
  next
    case near
    obtain aa v ab where a: "a = Node ab (v, RBT_RED) aa" using near(2) by (cases a rule: col.cases) auto
    have rw: "right_of t w = v" and v: "v \<noteq> g_nil" "v \<noteq> w" "v \<noteq> p" using p a by (auto simp: at_hole_def)
    define t1 where "t1 = set_color v RBT_BLACK t"
    define t2 where "t2 = set_color w RBT_RED t1"
    define t3 where "t3 = rbt_left_rotate w t2"
    have "at_hole t1 (InR b w RBT_BLACK # InL p cp T # k) v (Node ab (v, RBT_BLACK) aa)"
      unfolding t1_def using at_hole_color [of t _ v ab RBT_RED aa RBT_BLACK] at_hole_down_R [OF w] rw a by simp
    then have "at_hole t1 (InL p cp T # k) w (Node b (w, RBT_BLACK) (Node ab (v, RBT_BLACK) aa))"
      by (simp add: at_hole_up_R)
    then have 2: "at_hole t2 (InL p cp T # k) w (Node b (w, RBT_RED) (Node ab (v, RBT_BLACK) aa))"
      unfolding t2_def by (rule at_hole_color)
    have 3: "at_hole t3 (InL p cp T # k) v (Node (Node b (w, RBT_RED) ab) (v, RBT_BLACK) aa)"
      unfolding t3_def by (rule left_rotate_at [OF 2])
    have p3: "at_hole t3 k p (Node (Node (Node b (w, RBT_RED) ab) (v, RBT_BLACK) aa) (p, cp) T)"
      and lp3: "left_of t3 p = v" using 3 by (simp_all add: at_hole_up_L)
    have "right_of t2 w = v" using rw v by (auto simp: t2_def t1_def)
    then have c3: "calm t t3"
      unfolding t3_def using v ne by (intro calm_left_rotate) (auto simp: t2_def t1_def intro: calm_color calm_refl)
    have "right_of t3 p = x"
      using at_hole_top [OF at_hole_down_R [OF p3]] at_hole_top [OF at_hole_down_R [OF p]] rp by simp
    then have "linked t3 (InR (Node (Node b (w, RBT_RED) ab) (v, RBT_BLACK) aa) p cp # k) x T"
      using linked_calm [OF c3 x] at_hole_down_R [OF p3] by simp
    then have xp3: "parent_of t3 x = p" using linked_parent by fastforce
    have "delete_fix_right t x = (let t' = rbt_right_rotate p (set_color (left_of t3 v) RBT_BLACK
        (set_color p RBT_BLACK (set_color v (color_of t3 p) t3))) in (t', bt_root t'))"
      using ne v near unfolding delete_fix_right_def
      by (simp add: xp lp cw ca [unfolded rw] cb rw links_color t1_def [symmetric] t2_def [symmetric]
          t3_def [symmetric] xp3 lp3 Let_def del: upd_simps)
    then show ?thesis
      using last_rotation_R [OF p3 _ calm_nil [OF c3 nil]] near calm_trans [OF c3]
      by (auto simp: after_step_def sw Let_def a)
  qed
qed

lemma red_sibling_L:
  assumes x: "linked t (InL p cp s # k) x T" and s: "s = Node a (w, RBT_RED) b" and a: "col a = RBT_BLACK"
    and nil: "color_of t g_nil = RBT_BLACK"
  shows "\<exists>t'. linked t' (InL p RBT_RED a # InL w RBT_BLACK b # k) x T \<and> calm t t'
    \<and> delete_fix_left t x = delete_fix_left t' x"
proof -
  have xp: "parent_of t x = p" using linked_parent [OF x] by simp
  have p: "at_hole t k p (Node T (p, cp) (Node a (w, RBT_RED) b))" and lp: "left_of t p = x"
    using x by (simp_all add: linked_def at_hole_up_L s)
  have rp: "right_of t p = w" and ne: "p \<noteq> g_nil" "w \<noteq> g_nil" "p \<noteq> w" and cw: "color_of t w = RBT_RED"
    using p by (auto simp: at_hole_def)
  define t1 where "t1 = set_color w RBT_BLACK t"
  define t2 where "t2 = set_color p RBT_RED t1"
  define t' where "t' = rbt_left_rotate p t2"
  have "at_hole t1 k p (Node T (p, cp) (Node a (w, RBT_BLACK) b))"
    using at_hole_color [OF at_hole_down_R [OF p, unfolded rp]] rp ne by (simp add: t1_def at_hole_up_R)
  then have 2: "at_hole t2 k p (Node T (p, RBT_RED) (Node a (w, RBT_BLACK) b))"
    unfolding t2_def by (rule at_hole_color)
  have 3: "at_hole t' k w (Node (Node T (p, RBT_RED) a) (w, RBT_BLACK) b)"
    unfolding t'_def by (rule left_rotate_at [OF 2])
  have "left_of t' w = p" using 3 by (simp add: at_hole_def)
  then have p3: "at_hole t' (InL w RBT_BLACK b # k) p (Node T (p, RBT_RED) a)"
    using at_hole_down_L [OF 3] by simp
  have "right_of t2 p = w" by (simp add: t2_def t1_def rp links_color del: upd_simps)
  then have c: "calm t t'"
    unfolding t'_def using ne by (intro calm_left_rotate) (auto simp: t2_def t1_def intro: calm_color calm_refl)
  have "left_of t' p = x"
    using at_hole_top [OF at_hole_down_L [OF p3]] at_hole_top [OF at_hole_down_L [OF p]] lp by simp
  then have l: "linked t' (InL p RBT_RED a # InL w RBT_BLACK b # k) x T"
    using linked_calm [OF c x] at_hole_down_L [OF p3] by simp
  have xp': "parent_of t' x = p" using linked_parent [OF l] by simp
  have ca: "color_of t' (right_of t' p) = RBT_BLACK"
    using at_hole_col [OF at_hole_down_R [OF p3] calm_nil [OF c nil]] a by simp
  have "delete_fix_left t x = delete_fix_left t' x"
    unfolding delete_fix_left_def
    by (simp add: xp rp cw t1_def [symmetric] t2_def [symmetric] t'_def [symmetric] xp' ca Let_def del: upd_simps)
  then show ?thesis using l c by blast
qed

lemma red_sibling_R:
  assumes x: "linked t (InR s p cp # k) x T" and s: "s = Node b (w, RBT_RED) a" and a: "col a = RBT_BLACK"
    and nil: "color_of t g_nil = RBT_BLACK"
  shows "\<exists>t'. linked t' (InR a p RBT_RED # InR b w RBT_BLACK # k) x T \<and> calm t t'
    \<and> delete_fix_right t x = delete_fix_right t' x"
proof -
  have xp: "parent_of t x = p" using linked_parent [OF x] by simp
  have p: "at_hole t k p (Node (Node b (w, RBT_RED) a) (p, cp) T)" and rp: "right_of t p = x"
    using x by (simp_all add: linked_def at_hole_up_R s)
  have lp: "left_of t p = w" and ne: "p \<noteq> g_nil" "w \<noteq> g_nil" "p \<noteq> w" and cw: "color_of t w = RBT_RED"
    using p by (auto simp: at_hole_def)
  define t1 where "t1 = set_color w RBT_BLACK t"
  define t2 where "t2 = set_color p RBT_RED t1"
  define t' where "t' = rbt_right_rotate p t2"
  have "at_hole t1 k p (Node (Node b (w, RBT_BLACK) a) (p, cp) T)"
    using at_hole_color [OF at_hole_down_L [OF p, unfolded lp]] lp ne by (simp add: t1_def at_hole_up_L)
  then have 2: "at_hole t2 k p (Node (Node b (w, RBT_BLACK) a) (p, RBT_RED) T)"
    unfolding t2_def by (rule at_hole_color)
  have 3: "at_hole t' k w (Node b (w, RBT_BLACK) (Node a (p, RBT_RED) T))"
    unfolding t'_def by (rule right_rotate_at [OF 2])
  have "right_of t' w = p" using 3 by (simp add: at_hole_def)
  then have p3: "at_hole t' (InR b w RBT_BLACK # k) p (Node a (p, RBT_RED) T)"
    using at_hole_down_R [OF 3] by simp
  have "left_of t2 p = w" by (simp add: t2_def t1_def lp links_color del: upd_simps)
  then have c: "calm t t'"
    unfolding t'_def using ne by (intro calm_right_rotate) (auto simp: t2_def t1_def intro: calm_color calm_refl)
  have "right_of t' p = x"
    using at_hole_top [OF at_hole_down_R [OF p3]] at_hole_top [OF at_hole_down_R [OF p]] rp by simp
  then have l: "linked t' (InR a p RBT_RED # InR b w RBT_BLACK # k) x T"
    using linked_calm [OF c x] at_hole_down_R [OF p3] by simp
  have xp': "parent_of t' x = p" using linked_parent [OF l] by simp
  have ca: "color_of t' (left_of t' p) = RBT_BLACK"
    using at_hole_col [OF at_hole_down_L [OF p3] calm_nil [OF c nil]] a by simp
  have "delete_fix_right t x = delete_fix_right t' x"
    unfolding delete_fix_right_def
    by (simp add: xp lp cw t1_def [symmetric] t2_def [symmetric] t'_def [symmetric] xp' ca Let_def del: upd_simps)
  then show ?thesis using l c by blast
qed

subsection \<open>The loop on the heap\<close>

lemma side_L:
  assumes "linked t (InL p cp s # k) x T"
  shows "x = left_of t (parent_of t x)"
proof -
  have "parent_of t x = p" using linked_parent [OF assms] by simp
  moreover have "left_of t p = x" using assms by (simp add: linked_def at_hole_up_L)
  ultimately show ?thesis by simp
qed

lemma top_in: "T \<noteq> Leaf \<Longrightarrow> top T \<in> addrs T"
  by (cases T rule: top.cases) auto

lemma top_notin: "addrs T \<inter> S = {} \<Longrightarrow> g_nil \<notin> S \<Longrightarrow> top T \<notin> S"
  by (cases T rule: top.cases) auto

lemma side_R:
  assumes x: "linked t (InR s p cp # k) x T" and s: "s \<noteq> Leaf"
  shows "x \<noteq> left_of t (parent_of t x)"
proof -
  have p: "at_hole t k p (Node s (p, cp) T)" and rp: "right_of t p = x"
    using x by (simp_all add: linked_def at_hole_up_R)
  have "x = top T" "left_of t p = top s"
    using at_hole_top [OF at_hole_down_R [OF p]] at_hole_top [OF at_hole_down_L [OF p]] rp by simp_all
  moreover have "addrs T \<inter> addrs s = {}" "rep t p (left_of t p) s" using p by (auto simp: at_hole_def)
  then have "top T \<notin> addrs s" using rep_not_nil by (intro top_notin) auto
  moreover have "parent_of t x = p" using linked_parent [OF x] by simp
  ultimately show ?thesis using top_in [OF s] by metis
qed

lemma delete_step_black:
  assumes "linked t (y # k) x T" "sib y \<noteq> Leaf" "col (sib y) = RBT_BLACK" "color_of t g_nil = RBT_BLACK"
  shows "after_step t (delete_fix_step t x) k (black_case y T)"
  using assms black_step_L [of t] black_step_R [of t] side_L [of t] side_R [of t]
  by (cases y) (simp_all add: delete_fix_step_def)

lemma after_step_calm: "calm t t' \<Longrightarrow> after_step t' res k out \<Longrightarrow> after_step t res k out"
  by (auto simp: after_step_def intro: calm_trans)

lemma delete_step_red:
  assumes x: "linked t (y # k) x T" and y: "invc (sib y)" "col (sib y) = RBT_RED"
    "sib (fst (red_case y)) \<noteq> Leaf" and nil: "color_of t g_nil = RBT_BLACK"
  shows "after_step t (delete_fix_step t x) (snd (red_case y) # k) (black_case (fst (red_case y)) T)"
proof (cases y)
  case (InL p cp s)
  obtain a w b where s: "s = Node a (w, RBT_RED) b" using y(2) InL by (cases s rule: col.cases) auto
  have a: "a \<noteq> Leaf" "col a = RBT_BLACK" using y InL s by auto
  obtain t' where t': "linked t' (InL p RBT_RED a # InL w RBT_BLACK b # k) x T" "calm t t'"
      "delete_fix_left t x = delete_fix_left t' x"
    using red_sibling_L [of t p cp s k x T, OF _ s a(2) nil] x InL by blast
  have "delete_fix_step t x = delete_fix_left t' x"
    using side_L [of t] x InL t'(3) by (simp add: delete_fix_step_def)
  then show ?thesis
    using after_step_calm [OF t'(2) black_step_L [OF t'(1) a(2,1) calm_nil [OF t'(2) nil]]] InL s by simp
next
  case (InR s p cp)
  obtain a w b where s: "s = Node b (w, RBT_RED) a" using y(2) InR by (cases s rule: col.cases) auto
  have a: "a \<noteq> Leaf" "col a = RBT_BLACK" using y InR s by auto
  obtain t' where t': "linked t' (InR a p RBT_RED # InR b w RBT_BLACK # k) x T" "calm t t'"
      "delete_fix_right t x = delete_fix_right t' x"
    using red_sibling_R [of t s p cp k x T, OF _ s a(2) nil] x InR by blast
  have "delete_fix_step t x = delete_fix_right t' x"
    using side_R [of t] x InR s t'(3) by (simp add: delete_fix_step_def)
  then show ?thesis
    using after_step_calm [OF t'(2) black_step_R [OF t'(1) a(2,1) calm_nil [OF t'(2) nil]]] InR s by simp
qed

lemma delete_fixup_unfold:
  "rbt_delete_fixup t x =
     (if x \<noteq> bt_root t \<and> color_of t x = RBT_BLACK
      then (let (t', x') = delete_fix_step t x in rbt_delete_fixup t' x') else Some (set_color x RBT_BLACK t))"
  unfolding rbt_delete_fixup_def by (subst delete_fix_loop.simps) (simp add: case_prod_beta)

lemma root_in_path: "crest t k \<Longrightarrow> k \<noteq> [] \<Longrightarrow> bt_root t \<in> caddrs k"
proof (induction k rule: caddrs.induct)
  case (2 a c r k)
  then show ?case by (cases "k = []") auto
next
  case (3 l a c k)
  then show ?case by (cases "k = []") auto
qed simp

lemma not_root:
  assumes x: "at_hole t k x T" and k: "k \<noteq> []"
  shows "x \<noteq> bt_root t"
proof -
  have c: "crest t k" "addrs T \<inter> caddrs k = {}" using x by (simp_all add: at_hole_def)
  have "top T \<notin> caddrs k" by (rule top_notin [OF c(2) crest_not_nil [OF c(1)]])
  then show ?thesis using at_hole_top [OF x] root_in_path [OF c(1) k] by auto
qed

lemma paint_end:
  assumes x: "at_hole t k x T" and nil: "color_of t g_nil = RBT_BLACK"
  shows "at_hole (set_color x RBT_BLACK t) k x (paint RBT_BLACK T) \<and> calm t (set_color x RBT_BLACK t)"
proof (cases "T = Leaf")
  case True
  then have "x = g_nil" using x by (simp add: at_hole_def)
  moreover have "g_nil \<notin> caddrs k" using x crest_not_nil by (auto simp: at_hole_def)
  ultimately show ?thesis
    using x nil True by (auto simp: at_hole_upd calm_def quiet_def same_data_def)
next
  case False
  then have "x \<noteq> g_nil" using x rep_nil_iff by (auto simp: at_hole_def)
  then show ?thesis using at_hole_paint [OF x False] calm_color [OF calm_refl] by simp
qed

lemma fixup_stops:
  assumes "at_hole t k x T" "color_of t g_nil = RBT_BLACK" "k = [] \<or> col T = RBT_RED"
  shows "\<exists>t'. rbt_delete_fixup t x = Some t' \<and> holds t' (plug k (paint RBT_BLACK T)) \<and> calm t t'"
proof -
  have "x = bt_root t \<or> color_of t x = RBT_RED"
    using assms at_hole_col [OF assms(1,2)] by (auto simp: at_hole_def)
  then have "rbt_delete_fixup t x = Some (set_color x RBT_BLACK t)" by (subst delete_fixup_unfold) auto
  then show ?thesis using paint_end [OF assms(1,2)] at_hole_root by blast
qed

definition fixup_gives :: "bst \<Rightarrow> nat \<Rightarrow> ctree \<Rightarrow> bool" where
  "fixup_gives t x U \<longleftrightarrow> (\<exists>t'. rbt_delete_fixup t x = Some t' \<and> holds t' U \<and> calm t t')"

lemma fixup_finished:
  assumes "after_step t (t', x') k (T', True)" "color_of t g_nil = RBT_BLACK"
  shows "fixup_gives t' x' (paint RBT_BLACK (plug k T'))"
proof -
  obtain q where q: "at_hole t' k q T'" "x' = bt_root t'" "calm t t'" using assms(1) by (auto simp: after_step_def)
  then have "at_hole t' [] x' (plug k T')" using at_hole_root by (auto simp: holds_def)
  then show ?thesis using fixup_stops calm_nil [OF q(3) assms(2)] by (fastforce simp: fixup_gives_def)
qed

lemma fixup_step_gives:
  assumes "at_hole t (y # k) x T" "color_of t g_nil = RBT_BLACK" "col T = RBT_BLACK"
    and "delete_fix_step t x = (t', x')" "fixup_gives t' x' U" "calm t t'"
  shows "fixup_gives t x U"
proof -
  have "rbt_delete_fixup t x = rbt_delete_fixup t' x'"
    using not_root [OF assms(1)] at_hole_col [OF assms(1,2)] assms(3,4) by (subst delete_fixup_unfold) simp
  then show ?thesis using assms(5,6) calm_trans by (auto simp: fixup_gives_def)
qed

lemma delete_fixup_correct:
  assumes "linked t k x T" "color_of t g_nil = RBT_BLACK"
    and "invc (paint RBT_BLACK T)" "invh T" "cinvc k" "cinvh (Suc (bheight T)) k"
  shows "fixup_gives t x (pdel k T)"
  using assms
proof (induction k T arbitrary: t x rule: pdel.induct)
  case (1 T)
  then show ?case using fixup_stops [of t "[]" x T] by (auto simp: fixup_gives_def linked_def)
next
  case (2 y k T)
  have at: "at_hole t (y # k) x T" using "2.prems"(1) by (simp add: linked_def)
  have y: "invc (sib y)" "invh (sib y)" "bheight (sib y) = Suc (bheight T)" "sib y \<noteq> Leaf" "cinvc k"
    "cinvh (Suc (bheight T) + (if ccol y = RBT_BLACK then 1 else 0)) k"
    using "2.prems" black_not_Leaf [of "sib y"] by auto
  obtain t' x' where d: "delete_fix_step t x = (t', x')" by force
  consider (red) "col T = RBT_RED" | (sib_red) "col T = RBT_BLACK" "col (sib y) = RBT_RED"
    | (black) "col T = RBT_BLACK" "col (sib y) = RBT_BLACK"
    by (meson color_cases)
  then show ?case
  proof cases
    case red
    then show ?thesis using fixup_stops [OF at "2.prems"(2)] by (simp add: fixup_gives_def del: plug.simps)
  next
    case sib_red
    obtain u v where uv: "red_case y = (u, v)" by force
    have r: "col (sib u) = RBT_BLACK" "invc (sib u)" "invh (sib u)" "bheight (sib u) = Suc (bheight T)"
      "ccol u = RBT_RED"
      using red_case_sib [OF y(1,2) _ sib_red(2)] y(3) by (simp_all add: uv)
    obtain T' fin where b: "black_case u T = (T', fin)" by force
    have i: "col T' = RBT_RED"
      using black_case_inv [OF sib_red(1) invc_paint [OF "2.prems"(3) sib_red(1)] "2.prems"(4) r(2,3,4,1) b] r(5)
      by auto
    have "sib u \<noteq> Leaf" using r(4) by auto
    then have a: "after_step t (t', x') (v # k) (T', fin)"
      using delete_step_red [OF "2.prems"(1) y(1) sib_red(2) _ "2.prems"(2)] by (simp add: uv b d)
    have c: "calm t t'" "color_of t' g_nil = RBT_BLACK"
      using a calm_nil "2.prems"(2) by (auto simp: after_step_def)
    have "fixup_gives t' x' (if fin then paint RBT_BLACK (plug (v # k) T') else plug (v # k) (paint RBT_BLACK T'))"
    proof (cases fin)
      case True
      then show ?thesis using fixup_finished [of t t' x' "v # k" T'] a "2.prems"(2) by (simp del: plug.simps)
    next
      case False
      then have "at_hole t' (v # k) x' T'" using a by (simp add: after_step_def)
      then show ?thesis using fixup_stops [OF _ c(2)] i False by (simp add: fixup_gives_def del: plug.simps)
    qed
    then have "fixup_gives t' x' (pdel (y # k) T)" using sib_red uv b by (simp add: Let_def del: plug.simps)
    then show ?thesis by (rule fixup_step_gives [OF at "2.prems"(2) sib_red(1) d _ c(1)])
  next
    case black
    obtain T' fin where b: "black_case y T = (T', fin)" by force
    have i: "invh T'" "fin \<or> invc (paint RBT_BLACK T')" "T' \<noteq> Leaf"
      "bheight T' + (if fin then 0 else 1) = Suc (bheight T) + (if ccol y = RBT_BLACK then 1 else 0)"
      using black_case_inv [OF black(1) invc_paint [OF "2.prems"(3) black(1)] "2.prems"(4) y(1,2,3) black(2) b]
      by (auto split: if_splits)
    have a: "after_step t (t', x') k (T', fin)"
      using delete_step_black [OF "2.prems"(1) y(4) black(2) "2.prems"(2)] by (simp add: b d)
    have c: "calm t t'" "color_of t' g_nil = RBT_BLACK"
      using a calm_nil "2.prems"(2) by (auto simp: after_step_def)
    have "fixup_gives t' x' (if fin then paint RBT_BLACK (plug k T') else pdel k T')"
    proof (cases fin)
      case True
      then show ?thesis using fixup_finished [of t t' x' k T'] a "2.prems"(2) by simp
    next
      case False
      then have "linked t' k x' T'" using a i(3) by (simp add: after_step_def linked_def)
      then show ?thesis
        using "2.IH" [of "(T', fin)" T' fin t' x'] black b False i y(5,6) c(2) by simp
    qed
    then have "fixup_gives t' x' (pdel (y # k) T)" using black b by simp
    then show ?thesis by (rule fixup_step_gives [OF at "2.prems"(2) black(1) d _ c(1)])
  qed
qed

subsection \<open>Taking a node out of the tree\<close>

lemma rep_set_parent: "rep t q0 p T \<Longrightarrow> dist T \<Longrightarrow> rep (set_parent p q t) q p T"
  by (cases T rule: addrs.cases) auto

lemma transplant_eq:
  assumes "hole t k = u" "parent_of t u = par k" "crest t k" "u \<notin> caddrs k" "u \<noteq> g_nil"
  shows "rbt_transplant u v t = set_parent v (par k) (set_hole k v t)"
  using relink_hole(1) [OF assms, of v] assms by (simp add: rbt_transplant_def)

lemma transplant_linked:
  assumes "hole t k = u" "parent_of t u = par k" "crest t k" "u \<notin> caddrs k" "u \<noteq> g_nil"
    and "rep t q v V" "dist V" "cdist k" "addrs V \<inter> caddrs k = {}"
  shows "linked (rbt_transplant u v t) k v V"
proof -
  have v: "v \<notin> caddrs k"
    using root_notin [OF assms(6,9)] crest_not_nil [OF assms(3)] by simp
  have "rep (set_hole k v t) q v V" using assms by simp
  then have "rep (set_parent v (par k) (set_hole k v t)) (par k) v V" by (rule rep_set_parent [OF _ assms(7)])
  moreover have "v = g_nil" if "V = Leaf" using that assms(6) by simp
  ultimately show ?thesis
    using assms v by (auto simp: linked_def at_hole_def transplant_eq [OF assms(1-5)])
qed

text \<open>Putting \<open>y\<close>, which already has the right subtree, in the place of \<open>z\<close>.\<close>

definition replace_node :: "nat \<Rightarrow> nat \<Rightarrow> bst \<Rightarrow> bst" where
  "replace_node z y t =
     (let t = rbt_transplant z y t;
          t = set_left y (left_of t z) t;
          t = set_parent (left_of t y) y t
      in set_color y (color_of t z) t)"

lemma replace_node_at:
  assumes z: "hole t k = z" "parent_of t z = par k" "crest t k" "z \<notin> caddrs k" "z \<noteq> g_nil" "color_of t z = c"
    and l: "rep t z (left_of t z) l" "dist l" "l \<noteq> Leaf" and r: "rep t y (right_of t y) R" "dist R"
    and y: "y \<noteq> g_nil" "y \<noteq> z" "y \<notin> addrs l" "y \<notin> addrs R" "y \<notin> caddrs k" "z \<notin> addrs l"
    and d: "addrs l \<inter> addrs R = {}" "addrs l \<inter> caddrs k = {}" "addrs R \<inter> caddrs k = {}" "cdist k"
  shows "at_hole (replace_node z y t) k y (Node l (y, c) R) \<and> parent_of (replace_node z y t) g_nil = parent_of t g_nil"
proof -
  define p where "p = left_of t z"
  have p: "p \<in> addrs l" using rep_addr [OF l(1,3)] by (simp add: p_def)
  then have pn: "p \<noteq> g_nil" "p \<notin> addrs R" "p \<notin> caddrs k" "p \<noteq> y" "p \<noteq> z"
    using rep_not_nil [OF l(1)] d y by auto
  define t1 where "t1 = set_parent y (par k) (set_hole k y t)"
  have zy: "bt_node t1 z = bt_node t z" using z y by (simp add: t1_def)
  have e: "replace_node z y t = set_color y c (set_parent p y (set_left y p t1))"
    using z y(1,2) pn by (simp add: replace_node_def Let_def transplant_eq [OF z(1-5)] t1_def [symmetric] zy p_def [symmetric])
  have "rep t1 z p l" using l y d by (simp add: t1_def p_def)
  then have "rep (set_parent p y (set_left y p t1)) y p l"
    using l(2) y(3) by (intro rep_set_parent [of _ z]) simp_all
  moreover have "rep t1 y (right_of t y) R" using r y d by (simp add: t1_def)
  ultimately show ?thesis
    unfolding e using z l(2) r(2) y d pn by (simp add: at_hole_def t1_def Int_Un_distrib2)
qed

subsection \<open>The node that follows\<close>

fun to_left :: "crumb \<Rightarrow> bool" where
  "to_left (InL a c r) \<longleftrightarrow> True"
| "to_left (InR l a c) \<longleftrightarrow> False"

lemma plug_append: "plug (m @ k) T = plug k (plug m T)"
  by (induction m T rule: plug.induct) simp_all

lemma minimum_correct:
  "at_hole t k x T \<Longrightarrow> T \<noteq> Leaf \<Longrightarrow>
     \<exists>m y c r. rbt_minimum t x = Some y \<and> at_hole t (m @ k) y (Node Leaf (y, c) r)
       \<and> plug m (Node Leaf (y, c) r) = T \<and> list_all to_left m"
proof (induction T arbitrary: k x rule: addrs.induct)
  case (2 l a c r)
  have x: "x = a" using 2(3) by (simp add: at_hole_def)
  have l: "at_hole t (InL a c r # k) (left_of t a) l" using at_hole_down_L 2(3) x by simp
  show ?case
  proof (cases "l = Leaf")
    case True
    then have "rbt_minimum t x = Some x" using l x by (subst rbt_minimum.simps) (simp add: at_hole_def)
    then show ?thesis using 2(3) x True by (intro exI [of _ "[]"]) simp
  next
    case False
    then have "left_of t a \<noteq> g_nil" using l rep_nil_iff by (auto simp: at_hole_def)
    then have "rbt_minimum t x = rbt_minimum t (left_of t a)" using x by (subst rbt_minimum.simps) simp
    moreover obtain m y d s where m: "rbt_minimum t (left_of t a) = Some y"
        "at_hole t (m @ InL a c r # k) y (Node Leaf (y, d) s)" "plug m (Node Leaf (y, d) s) = l" "list_all to_left m"
      using 2(1) [OF l False] by blast
    ultimately show ?thesis
      by (intro exI [of _ "m @ [InL a c r]"] exI [of _ y] exI [of _ d] exI [of _ s]) (simp add: plug_append)
  qed
qed simp

text \<open>
  What is left when a node is taken out: the path \<open>k'\<close> and the subtree \<open>X\<close> at its end, which
  lacks a black node if the colour \<open>yc\<close> is black.
\<close>

definition taken_out :: "crumb list \<Rightarrow> ctree \<Rightarrow> color \<Rightarrow> ctree \<Rightarrow> crumb list \<Rightarrow> ctree \<Rightarrow> color \<Rightarrow> bool" where
  "taken_out k l c r k' X yc \<longleftrightarrow>
     l = Leaf \<and> k' = k \<and> X = r \<and> yc = c \<or> r = Leaf \<and> k' = k \<and> X = l \<and> yc = c
     \<or> (\<exists>m y. l \<noteq> Leaf \<and> r = plug m (Node Leaf (y, yc) X) \<and> k' = m @ InR l y c # k \<and> list_all to_left m)"

lemma before_append: "before (m @ k) = before k @ before m" "after (m @ k) = after m @ after k"
  by (induction m rule: before.induct) simp_all

lemma taken_out_order:
  assumes "taken_out k l c r k' X yc"
  shows "addr_list (plug k' X) = before k @ addr_list l @ addr_list r @ after k"
proof -
  have "before m = []" if "list_all to_left m" for m
    using that by (induction m rule: before.induct) auto
  then show ?thesis
    using assms by (auto simp: taken_out_def addr_list_plug plug_append before_append)
qed

lemma plug_parts: "invc (plug m T) \<Longrightarrow> invc T" "invh (plug m T) \<Longrightarrow> invh T"
  by (simp_all add: invc_plug invh_plug)

lemma taken_out_inv:
  assumes inv: "invc (plug k (Node l (z, c) r))" "invh (plug k (Node l (z, c) r))" "col (plug k (Node l (z, c) r)) = RBT_BLACK"
    and out: "taken_out k l c r k' X yc"
  shows "invc X \<and> invh X \<and> cinvc k' \<and> cinvh (bheight X + (if yc = RBT_BLACK then 1 else 0)) k' \<and> top_black k'
    \<and> (yc = RBT_RED \<longrightarrow> col X = RBT_BLACK \<and> k' \<noteq> [])"
proof -
  have i: "invc (Node l (z, c) r)" "cinvc k" "c = RBT_RED \<longrightarrow> ctop k = RBT_BLACK" "invh (Node l (z, c) r)"
      "cinvh (bheight (Node l (z, c) r)) k"
    using inv by (auto simp: invc_plug invh_plug)
  have "top_black k" using inv(3) col_path [of k "Node l (z, c) r"] by (cases "k = []") (simp_all add: top_black_def)
  moreover have "k = [] \<longrightarrow> c = RBT_BLACK" using inv(3) by auto
  ultimately have tb: "top_black k" "k = [] \<longrightarrow> c = RBT_BLACK" by simp_all
  consider (one) "l = Leaf \<and> k' = k \<and> X = r \<and> yc = c \<or> r = Leaf \<and> k' = k \<and> X = l \<and> yc = c"
    | (two) m y where "r = plug m (Node Leaf (y, yc) X)" "k' = m @ InR l y c # k"
    using out by (auto simp: taken_out_def)
  then show ?thesis
  proof cases
    case one
    then show ?thesis using i tb by auto
  next
    case two
    have p: "plug k' (Node Leaf (y, yc) X) = plug k (Node l (y, c) r)" by (simp add: two plug_append)
    have "invc (plug k' (Node Leaf (y, yc) X))" "invh (plug k' (Node Leaf (y, yc) X))"
      unfolding p using i by (auto simp: invc_plug invh_plug)
    then have "invc (Node Leaf (y, yc) X)" "invh (Node Leaf (y, yc) X)" "cinvc k'"
      "cinvh (bheight (Node Leaf (y, yc) X)) k'"
      by (auto simp: invc_plug invh_plug simp del: invc.simps invh.simps bheight.simps)
    moreover have "top_black k'" using tb by (auto simp: two top_black_def split: if_splits)
    ultimately show ?thesis by (auto simp: two(2))
  qed
qed

lemma transplant_data: "same_data t (rbt_transplant u v t)" "color_of (rbt_transplant u v t) a = color_of t a"
  by (auto simp: rbt_transplant_def Let_def same_data_def)

lemma replace_data:
  "same_data t (replace_node z y t)" "y \<noteq> g_nil \<Longrightarrow> color_of (replace_node z y t) g_nil = color_of t g_nil"
  using transplant_data(1) [of t z y]
  by (auto simp: replace_node_def Let_def transplant_data same_data_def simp del: upd_simps(1) simp: upd_data)
    (simp_all add: transplant_data)

lemma at_hole_parts:
  "at_hole t k p T \<Longrightarrow> rep t (par k) p T \<and> hole t k = p \<and> crest t k \<and> dist T \<and> cdist k \<and> addrs T \<inter> caddrs k = {}"
  by (simp add: at_hole_def)

lemma linked_plug: "at_hole t k p (plug m T) \<Longrightarrow> \<exists>q. at_hole t (m @ k) q T"
proof (induction m T arbitrary: p rule: plug.induct)
  case (2 a c r m T)
  then show ?case using at_hole_down_L by (metis append_Cons at_hole_addr plug.simps(2))
next
  case (3 l a c m T)
  then show ?case using at_hole_down_R by (metis append_Cons at_hole_addr plug.simps(3))
qed auto

definition detach_next :: "nat \<Rightarrow> nat \<Rightarrow> bst \<Rightarrow> bst" where
  \<comment> \<open>takes the successor \<open>y\<close> out of the right subtree of \<open>z\<close> and hangs what is left of that below \<open>y\<close>\<close>
  "detach_next z y t =
     (let x = right_of t y
      in if parent_of t y = z then set_parent x y t
         else let t = rbt_transplant y x t;
                  t = set_right y (right_of t z) t
              in set_parent (right_of t y) y t)"

lemma unlink_two:
  "left_of t z \<noteq> g_nil \<Longrightarrow> right_of t z \<noteq> g_nil \<Longrightarrow>
     unlink z t = map_option (\<lambda>y. (replace_node z y (detach_next z y t), right_of t y, color_of t y))
       (rbt_minimum t (right_of t z))"
  by (cases "rbt_minimum t (right_of t z)") (simp_all add: unlink_def replace_node_def detach_next_def Let_def)

lemma detach_data:
  "same_data t (detach_next z y t)" "color_of (detach_next z y t) g_nil = color_of t g_nil"
  using transplant_data(1) [of t y "right_of t y"]
  by (auto simp: detach_next_def Let_def transplant_data same_data_def)

lemma detach_near:
  assumes z: "at_hole t k z (Node l (z, c) (Node Leaf (y, yc) X))" and l: "l \<noteq> Leaf"
  defines "t' \<equiv> replace_node z y (detach_next z y t)"
  shows "linked t' (InR l y c # k) (right_of t y) X"
proof -
  let ?x = "right_of t y"
  have rz: "right_of t z = y" "parent_of t y = z" using z by (simp_all add: at_hole_def)
  have d: "detach_next z y t = set_parent ?x y t" by (simp add: detach_next_def rz)
  have x: "rep t y ?x X" "dist X" "y \<notin> addrs X" "y \<noteq> g_nil" using z by (auto simp: at_hole_def)
  then have xn: "?x = top X" "?x \<noteq> y" "rep (set_parent ?x y t) y ?x X"
    using left_notin [OF x(1,3,4)] rep_set_parent [OF x(1,2)] by (simp_all) (cases X rule: top.cases; simp)
  have f: "hole t k = z" "parent_of t z = par k" "crest t k" "z \<notin> caddrs k" "z \<noteq> g_nil" "color_of t z = c"
    "rep t z (left_of t z) l" "dist l" "y \<noteq> z" "y \<notin> addrs l" "y \<notin> caddrs k" "z \<notin> addrs l" "cdist k"
    "addrs l \<inter> addrs X = {}" "addrs l \<inter> caddrs k = {}" "addrs X \<inter> caddrs k = {}" "z \<notin> addrs X"
    using z by (auto simp: at_hole_def)
  have "addrs X \<inter> insert z (addrs l \<union> caddrs k) = {}" using f by auto
  moreover have "g_nil \<notin> insert z (addrs l \<union> caddrs k)"
    using rep_not_nil [OF f(7)] crest_not_nil [OF f(3)] f(5) by simp
  ultimately have "?x \<notin> insert z (addrs l \<union> caddrs k)" using root_notin [OF x(1)] by blast
  then have o: "?x \<noteq> z" "?x \<notin> addrs l" "?x \<notin> caddrs k" by simp_all
  let ?t = "set_parent ?x y t"
  have g: "hole ?t k = z" "parent_of ?t z = par k" "crest ?t k" "color_of ?t z = c" "rep ?t z (left_of ?t z) l"
    "rep ?t y (right_of ?t y) X"
    using f o xn(2,3) by simp_all
  have "at_hole t' k y (Node l (y, c) X) \<and> parent_of t' g_nil = parent_of ?t g_nil"
    unfolding t'_def d
    by (rule replace_node_at [OF g(1,2,3) f(4,5) g(4,5) f(8) l g(6) x(2,4) f(9,10) x(3) f(11,12,14,15,16,13)])
  then have 1: "at_hole t' k y (Node l (y, c) X)" "parent_of t' g_nil = parent_of (set_parent ?x y t) g_nil" by auto
  have "at_hole t' (InR l y c # k) ?x X"
    using at_hole_down_R [OF 1(1)] at_hole_top [OF at_hole_down_R [OF 1(1)]] xn(1) by simp
  moreover have "parent_of t' g_nil = y" if "X = Leaf" using 1(2) xn(1) that by simp
  ultimately show ?thesis by (simp add: linked_def)
qed

lemma at_hole_plug_up: "at_hole t (m @ k) q T \<Longrightarrow> \<exists>p. at_hole t k p (plug m T)"
proof (induction m T arbitrary: q rule: plug.induct)
  case (2 a c r m T)
  then have "at_hole t (m @ k) a (Node T (a, c) r)" by (simp add: at_hole_up_L)
  then show ?case using 2(1) by simp
next
  case (3 l a c m T)
  then have "at_hole t (m @ k) a (Node l (a, c) T)" by (simp add: at_hole_up_R)
  then show ?case using 3(1) by simp
qed auto

lemma par_append: "m \<noteq> [] \<Longrightarrow> par (m @ k) = par m"
  by (cases m rule: par.cases) auto

lemma plug_crumbs_not_Leaf: "m \<noteq> [] \<Longrightarrow> plug m T \<noteq> Leaf"
  by (cases m rule: par.cases) (auto simp: plug_not_Leaf)

lemma detach_far:
  assumes z: "at_hole t k z (Node l (z, c) (plug m (Node Leaf (y, yc) X)))" and l: "l \<noteq> Leaf" and m: "m \<noteq> []"
    and y: "at_hole t (m @ InR l z c # k) y (Node Leaf (y, yc) X)"
  defines "t' \<equiv> replace_node z y (detach_next z y t)"
  shows "linked t' (m @ InR l y c # k) (right_of t y) X"
proof -
  let ?x = "right_of t y" and ?km = "m @ InR l z c # k" and ?R = "plug m X"
  have f: "z \<notin> caddrs k" "z \<noteq> g_nil" "dist l" "y \<noteq> z" "y \<notin> addrs l" "y \<notin> caddrs k" "z \<notin> addrs l" "cdist k"
    "z \<notin> caddrs m" "y \<notin> caddrs m" "y \<notin> addrs X" "dist ?R" "addrs l \<inter> addrs ?R = {}" "addrs l \<inter> caddrs k = {}"
    "addrs ?R \<inter> caddrs k = {}" "z \<notin> addrs ?R"
    using z by (auto simp: at_hole_def addrs_plug dist_plug)
  have h: "hole t ?km = y" "parent_of t y = par ?km" "crest t ?km" "y \<notin> caddrs ?km" "y \<noteq> g_nil" "rep t y ?x X"
    "dist X" "cdist ?km" "addrs X \<inter> caddrs ?km = {}"
    using y by (simp_all add: at_hole_def)
  have "parent_of t y = par m" using h(2) m by (simp add: par_append)
  then have py: "parent_of t y \<noteq> z" using par_caddrs [OF m] f(9) by auto
  define t1 where "t1 = rbt_transplant y ?x t"
  have t1: "linked t1 ?km ?x X" unfolding t1_def by (rule transplant_linked [OF h])
  then obtain p where "at_hole t1 (InR l z c # k) p ?R"
    using at_hole_plug_up unfolding linked_def by blast
  then have z1: "at_hole t1 k z (Node l (z, c) ?R)" and p: "right_of t1 z = p" by (simp_all add: at_hole_up_R)
  have R: "?R \<noteq> Leaf" by (rule plug_crumbs_not_Leaf [OF m])
  have R1: "rep t1 z p ?R" using z1 p by (simp add: at_hole_def)
  then have pn: "p \<in> addrs ?R" "p \<noteq> g_nil" using rep_addr [OF R1 R] rep_nil_iff [OF R1] R by simp_all
  have yR: "y \<notin> addrs ?R" using f by (simp add: addrs_plug)
  define t2 where "t2 = set_right y p t1"
  define t3 where "t3 = set_parent p y t2"
  have d: "detach_next z y t = t3"
    using py f(4) p by (simp add: detach_next_def t1_def [symmetric] t2_def t3_def)
  have o: "p \<noteq> z" "p \<noteq> y" "p \<notin> addrs l" "p \<notin> caddrs k" using pn f yR by auto
  have "rep t2 z p ?R" using R1 yR by (simp add: t2_def)
  then have "rep t3 y p ?R" unfolding t3_def by (rule rep_set_parent [OF _ f(12)])
  moreover have "right_of t3 y = p" using o by (simp add: t3_def t2_def)
  ultimately have g: "hole t3 k = z" "parent_of t3 z = par k" "crest t3 k" "color_of t3 z = c"
    "rep t3 z (left_of t3 z) l" "rep t3 y (right_of t3 y) ?R"
    using z1 o f by (simp_all add: at_hole_def t3_def t2_def)
  have "at_hole t' k y (Node l (y, c) ?R) \<and> parent_of t' g_nil = parent_of t3 g_nil"
    unfolding t'_def d
    by (rule replace_node_at [OF g(1,2,3) f(1,2) g(4,5) f(3) l g(6) f(12) h(5) f(4,5) yR f(6,7,13,14,15,8)])
  then have e: "at_hole t' k y (Node l (y, c) ?R)" "parent_of t' g_nil = parent_of t1 g_nil"
    using pn h(5) by (simp_all add: t3_def t2_def)
  obtain q where q: "at_hole t' (m @ InR l y c # k) q X"
    using linked_plug [OF at_hole_down_R [OF e(1)]] by blast
  have "q = ?x" using at_hole_top [OF q] t1 at_hole_top by (auto simp: linked_def)
  then show ?thesis using q e(2) t1 m by (auto simp: linked_def par_append)
qed

lemma unlink_correct:
  assumes z: "at_hole t k z (Node l (z, c) r)"
  shows "\<exists>t' x k' X yc. unlink z t = Some (t', x, yc) \<and> linked t' k' x X \<and> taken_out k l c r k' X yc \<and> quiet t t'"
proof -
  have f: "hole t k = z" "parent_of t z = par k" "crest t k" "z \<notin> caddrs k" "z \<noteq> g_nil" "cdist k"
    and l: "rep t z (left_of t z) l" "dist l" "addrs l \<inter> caddrs k = {}"
    and r: "rep t z (right_of t z) r" "dist r" "addrs r \<inter> caddrs k = {}" and c: "color_of t z = c"
    using z by (auto simp: at_hole_def)
  have qt: "quiet t (rbt_transplant z v t)" for v by (simp add: quiet_def transplant_data)
  consider (left) "l = Leaf" | (right) "l \<noteq> Leaf" "r = Leaf" | (two) "l \<noteq> Leaf" "r \<noteq> Leaf" by blast
  then show ?thesis
  proof cases
    case left
    then have "unlink z t = Some (rbt_transplant z (right_of t z) t, right_of t z, c)"
      using l(1) c by (simp add: unlink_def Let_def)
    then show ?thesis using transplant_linked [OF f(1-5) r(1,2) f(6) r(3)] qt left by (auto simp: taken_out_def)
  next
    case right
    then have "unlink z t = Some (rbt_transplant z (left_of t z) t, left_of t z, c)"
      using l(1) r(1) c rep_nil_iff [OF l(1)] by (simp add: unlink_def Let_def)
    then show ?thesis using transplant_linked [OF f(1-5) l(1,2) f(6) l(3)] qt right by (auto simp: taken_out_def)
  next
    case two
    have n: "left_of t z \<noteq> g_nil" "right_of t z \<noteq> g_nil"
      using rep_nil_iff [OF l(1)] rep_nil_iff [OF r(1)] two by simp_all
    obtain m y yc X where m: "rbt_minimum t (right_of t z) = Some y"
        "at_hole t (m @ InR l z c # k) y (Node Leaf (y, yc) X)" "r = plug m (Node Leaf (y, yc) X)" "list_all to_left m"
      using minimum_correct [OF at_hole_down_R [OF z] two(2)] by blast
    let ?t = "replace_node z y (detach_next z y t)"
    have "y \<noteq> g_nil" "color_of t y = yc" using m(2) by (simp_all add: at_hole_def)
    then have u: "unlink z t = Some (?t, right_of t y, yc)" and q: "quiet t ?t"
      using unlink_two [OF n] m(1) replace_data detach_data same_data_trans by (fastforce simp: quiet_def)+
    have "linked ?t (m @ InR l y c # k) (right_of t y) X"
    proof (cases "m = []")
      case True
      then show ?thesis using detach_near [OF _ two(1)] z m(3) by simp
    next
      case False
      then show ?thesis using detach_far [OF _ two(1) False m(2)] z m(3) by simp
    qed
    then show ?thesis using u q m(3,4) two(1) unfolding taken_out_def by blast
  qed
qed

subsection \<open>The node to delete\<close>

lemma find_node_correct:
  assumes "at_hole t k x T" and "\<forall>a \<in> addrs T. bn_user (bt_node t a) \<noteq> None"
    and "sorted (map nm (index_users t T))"
  shows "\<exists>z. find_node nm t name x = Some z
    \<and> (if name \<in> nm ` set (index_users t T)
       then \<exists>k' l c r. at_hole t k' z (Node l (z, c) r) \<and> plug k' (Node l (z, c) r) = plug k T \<and> nm (user_at t z) = name
       else z = g_nil)"
  using assms
proof (induction T arbitrary: k x rule: addrs.induct)
  case 1
  then have "x = g_nil" by (simp add: at_hole_def)
  then show ?case by (subst find_node.simps) (simp add: index_users_def)
next
  case (2 l a c r)
  obtain u where u: "bn_user (bt_node t a) = Some u" using 2(4) by auto
  have x: "x = a" "x \<noteq> g_nil" using 2(3) by (simp_all add: at_hole_def)
  have us: "index_users t (Node l (a, c) r) = index_users t l @ u # index_users t r"
    using u by (simp add: index_users_def user_at_def)
  have sl: "sorted (map nm (index_users t l))" "sorted (map nm (index_users t r))"
    "\<forall>v \<in> set (index_users t l). nm v \<le> nm u" "\<forall>v \<in> set (index_users t r). nm u \<le> nm v"
    using 2(5) unfolding us by (auto simp: sorted_append)
  have L: "at_hole t (InL a c r # k) (left_of t a) l" and R: "at_hole t (InR l a c # k) (right_of t a) r"
    using at_hole_down_L at_hole_down_R 2(3) x by simp_all
  have un: "\<forall>a \<in> addrs l. bn_user (bt_node t a) \<noteq> None" "\<forall>a \<in> addrs r. bn_user (bt_node t a) \<noteq> None"
    using 2(4) by auto
  consider "name = nm u" | "name < nm u" | "nm u < name" by (rule linorder_cases) auto
  then show ?case
  proof cases
    case 1
    then have "find_node nm t name x = Some x" using u x by (subst find_node.simps) simp
    then show ?thesis using 1 2(3) x u unfolding us by (force simp: user_at_def)
  next
    case 2
    then have "name \<notin> nm ` set (index_users t r)" using sl(4) by auto
    then have e: "name \<in> nm ` set (index_users t (Node l (a, c) r)) \<longleftrightarrow> name \<in> nm ` set (index_users t l)"
      using 2 unfolding us by auto
    have f: "find_node nm t name x = find_node nm t name (left_of t a)"
      using 2 u x strcmp_less [of name "nm u"] by (subst find_node.simps) auto
    show ?thesis using "2.IH"(1) [OF L un(1) sl(1)] unfolding e f by (simp only: plug.simps)
  next
    case 3
    then have "name \<notin> nm ` set (index_users t l)" using sl(3) by auto
    then have e: "name \<in> nm ` set (index_users t (Node l (a, c) r)) \<longleftrightarrow> name \<in> nm ` set (index_users t r)"
      using 3 unfolding us by auto
    have "\<not> strcmp name (nm u) < 0" "strcmp name (nm u) \<noteq> 0"
      using 3 strcmp_less [of name "nm u"] by auto
    then have f: "find_node nm t name x = find_node nm t name (right_of t a)"
      using u x by (subst find_node.simps) auto
    show ?thesis using "2.IH"(2) [OF R un(2) sl(2)] unfolding e f by (simp only: plug.simps)
  qed
qed

text \<open>The effect of a deletion on the nodes: only \<open>z\<close> is marked unused.\<close>

definition frees_node :: "nat \<Rightarrow> bst \<Rightarrow> bst \<Rightarrow> bool" where
  "frees_node z t t' \<longleftrightarrow> (\<forall>a. bn_user (bt_node t' a) = bn_user (bt_node t a)
     \<and> bn_used (bt_node t' a) = (if a = z then False else bn_used (bt_node t a)))"

lemma addr_list_holds: "holds t T \<Longrightarrow> distinct (addr_list T)"
proof -
  have "dist U \<Longrightarrow> distinct (addr_list U)" for U
  proof (induction U rule: dist.induct)
    case (2 l a c r)
    then show ?case using set_addr_list [of l] set_addr_list [of r] by (simp del: set_map)
  qed simp
  then show "holds t T \<Longrightarrow> distinct (addr_list T)" by (simp add: holds_def at_hole_def)
qed

lemma remove_node:
  assumes z: "at_hole t k z (Node l (z, c) r)" and T: "T = plug k (Node l (z, c) r)"
    and inv: "invc T" "invh T" "col T = RBT_BLACK" and nil: "color_of t g_nil = RBT_BLACK"
  shows "\<exists>t1 x yc t' T'. unlink z t = Some (t1, x, yc)
    \<and> (if yc = RBT_BLACK then rbt_delete_fixup (upd z (\<lambda>n. n\<lparr>bn_used := False\<rparr>) t1) x
       else Some (upd z (\<lambda>n. n\<lparr>bn_used := False\<rparr>) t1)) = Some t'
    \<and> holds t' T' \<and> invc T' \<and> invh T' \<and> col T' = RBT_BLACK \<and> color_of t' g_nil = RBT_BLACK
    \<and> addr_list T' = before k @ addr_list l @ addr_list r @ after k \<and> bt_size t' = bt_size t \<and> frees_node z t t'"
proof -
  obtain t1 x k' X yc where u: "unlink z t = Some (t1, x, yc)" "linked t1 k' x X" "taken_out k l c r k' X yc" "quiet t t1"
    using unlink_correct [OF z] by blast
  let ?t = "upd z (\<lambda>n. n\<lparr>bn_used := False\<rparr>) t1"
  have o: "addr_list (plug k' X) = before k @ addr_list l @ addr_list r @ after k"
    by (rule taken_out_order [OF u(3)])
  have i: "invc X" "invh X" "cinvc k'" "cinvh (bheight X + (if yc = RBT_BLACK then 1 else 0)) k'" "top_black k'"
      "yc = RBT_RED \<longrightarrow> col X = RBT_BLACK \<and> k' \<noteq> []"
    using taken_out_inv [OF _ _ _ u(3)] inv T by blast+
  have "distinct (addr_list (plug k (Node l (z, c) r)))" using addr_list_holds at_hole_root [OF z] .
  then have "z \<notin> set (addr_list (plug k' X))" unfolding o by (simp add: addr_list_plug)
  then have zn: "z \<notin> addrs X" "z \<notin> caddrs k'" "z \<noteq> g_nil"
    using z unfolding set_addr_list addrs_plug by (auto simp: at_hole_def)
  have l: "linked ?t k' x X" using u(2) zn by (simp add: linked_def at_hole_upd)
  have nil': "color_of ?t g_nil = RBT_BLACK" using u(4) nil zn by (simp add: quiet_def)
  have f: "frees_node z t ?t" "bt_size ?t = bt_size t" using u(4) by (simp_all add: frees_node_def quiet_def same_data_def)
  show ?thesis
  proof (cases "yc = RBT_BLACK")
    case True
    obtain t' where t': "rbt_delete_fixup ?t x = Some t'" "holds t' (pdel k' X)" "calm ?t t'"
      using delete_fixup_correct [OF l nil' invc_paint_black [OF i(1)] i(2,3)] i(4) True by (auto simp: fixup_gives_def)
    have "repaired k' X (pdel k' X)"
      by (rule pdel_inv) (use i True invc_paint_black in simp_all)
    moreover have "frees_node z t t'" "bt_size t' = bt_size t" "color_of t' g_nil = RBT_BLACK"
      using t'(3) f calm_nil [OF t'(3) nil'] by (auto simp: calm_def quiet_def same_data_def frees_node_def)
    ultimately show ?thesis using u(1) t'(1,2) True o by (auto simp: repaired_def)
  next
    case False
    then have r: "yc = RBT_RED" by (simp add: color_cases)
    have "holds ?t (plug k' X)" using l at_hole_root unfolding linked_def by blast
    moreover have "invc (plug k' X)" "invh (plug k' X)" using i r by (auto simp: invc_plug invh_plug)
    moreover have "col (plug k' X) = RBT_BLACK"
      using i(5,6) r by (simp add: col_path top_black_def)
    ultimately show ?thesis using u(1) False o f nil' by auto
  qed
qed

lemma index_delete:
  assumes inv: "index_inv nm t T"
  shows "\<exists>rc t' T'. bst_delete nm name t = Some (rc, t') \<and> index_inv nm t' T'
    \<and> (if name \<in> nm ` set (index_users t T)
       then rc = 0 \<and> (\<exists>us u vs z. index_users t T = us @ u # vs \<and> nm u = name \<and> index_users t' T' = us @ vs
         \<and> z \<in> addrs T \<and> user_at t z = u \<and> addrs T' = addrs T - {z} \<and> frees_node z t t')
       else rc = -1 \<and> t' = t \<and> T' = T)"
proof -
  have i: "at_hole t [] (bt_root t) T" "invc T" "invh T" "col T = RBT_BLACK" "color_of t g_nil = RBT_BLACK"
      "\<forall>a \<in> addrs T. bn_user (bt_node t a) \<noteq> None" "sorted (map nm (index_users t T))" "bt_size t = int (size T)"
    using inv by (auto simp: index_inv_def holds_def)
  obtain z where f: "find_node nm t name (bt_root t) = Some z"
      "if name \<in> nm ` set (index_users t T)
       then \<exists>k l c r. at_hole t k z (Node l (z, c) r) \<and> plug k (Node l (z, c) r) = plug [] T \<and> nm (user_at t z) = name
       else z = g_nil"
    using find_node_correct [OF i(1,6,7), of name] by blast
  show ?thesis
  proof (cases "name \<in> nm ` set (index_users t T)")
    case False
    then have "bst_delete nm name t = Some (-1, t)" using f by (simp add: bst_delete_def)
    then show ?thesis using inv False by auto
  next
    case True
    obtain k l c r where z: "at_hole t k z (Node l (z, c) r)" "plug k (Node l (z, c) r) = T" "nm (user_at t z) = name"
      using f(2) [unfolded if_P [OF True] plug.simps(1)] by blast
    obtain t1 x yc t' T' where d: "unlink z t = Some (t1, x, yc)"
        "(if yc = RBT_BLACK then rbt_delete_fixup (upd z (\<lambda>n. n\<lparr>bn_used := False\<rparr>) t1) x
          else Some (upd z (\<lambda>n. n\<lparr>bn_used := False\<rparr>) t1)) = Some t'"
        "holds t' T'" "invc T'" "invh T'" "col T' = RBT_BLACK" "color_of t' g_nil = RBT_BLACK"
        "addr_list T' = before k @ addr_list l @ addr_list r @ after k" "bt_size t' = bt_size t" "frees_node z t t'"
      using remove_node [OF z(1) z(2) [symmetric] i(2-5)] by blast
    let ?t = "t'\<lparr>bt_size := bt_size t' - 1\<rparr>"
    have "z \<noteq> g_nil" using z(1) by (simp add: at_hole_def)
    then have del: "bst_delete nm name t = Some (0, ?t)"
      using f(1) d(1,2) by (simp add: bst_delete_def)
    have al: "addr_list T = (before k @ addr_list l) @ z # addr_list r @ after k"
      by (simp add: z(2) [symmetric] addr_list_plug)
    have al': "addr_list T' = (before k @ addr_list l) @ addr_list r @ after k" using d(8) by simp
    have same: "user_at ?t = user_at t" using d(10) by (auto simp: user_at_def frees_node_def)
    let ?us = "map (user_at t) (before k @ addr_list l)" and ?vs = "map (user_at t) (addr_list r @ after k)"
    have us: "index_users t T = ?us @ user_at t z # ?vs" "index_users ?t T' = ?us @ ?vs"
      unfolding index_users_def same al al' by simp_all
    have dist: "distinct (addr_list T)" using addr_list_holds inv unfolding index_inv_def by blast
    have ad: "addrs T' = addrs T - {z}" "z \<in> addrs T"
      using dist unfolding set_addr_list [symmetric] al al' by auto
    have "size T = length (addr_list T)" "size T' = length (addr_list T')" by simp_all
    then have sz: "size T = Suc (size T')" unfolding al al' by simp
    have "sorted (map nm (index_users ?t T'))"
      using i(7) unfolding us by (auto simp: sorted_append)
    moreover have "holds ?t T'" using d(3) by (simp add: holds_def at_hole_size)
    moreover have "\<forall>a \<in> addrs T'. bn_user (bt_node ?t a) \<noteq> None"
      using d(10) i(6) ad(1) by (simp add: frees_node_def)
    moreover have "bt_size ?t = int (size T')" using d(9) i(8) sz by simp
    ultimately have "index_inv nm ?t T'" using d(4-7) unfolding index_inv_def by simp
    moreover have "frees_node z t ?t" using d(10) by (simp add: frees_node_def)
    ultimately show ?thesis using del True us ad z(3)
      by (intro exI [of _ 0] exI [of _ ?t] exI [of _ T']) (simp only: if_True simp_thms, blast)
  qed
qed

subsection \<open>Properties\<close>

text \<open>
  C5: deletion refines deletion from the sorted list.  It always ends and keeps the heap a red-black
  tree in name order; when a user has the name, exactly one such user is taken out of the list, the
  other nodes and their order stay, and the node is marked unused; otherwise the result is -1 and
  nothing changes.
\<close>
theorem bst_delete_refines:
  assumes "index_inv nm t T"
  shows "\<exists>rc t' T'. bst_delete nm name t = Some (rc, t') \<and> index_inv nm t' T'
    \<and> (if name \<in> nm ` set (index_users t T)
       then rc = 0 \<and> (\<exists>us u vs z. index_users t T = us @ u # vs \<and> nm u = name \<and> index_users t' T' = us @ vs
         \<and> z \<in> addrs T \<and> user_at t z = u \<and> addrs T' = addrs T - {z} \<and> frees_node z t t')
       else rc = -1 \<and> t' = t \<and> T' = T)"
  by (rule index_delete) (rule assms)

definition one_user :: bst where
  \<comment> \<open>a tree of one node\<close>
  "one_user = \<lparr>bt_root = 1, bt_size = 1, bt_node = (\<lambda>_. empty_node)(1 := empty_node\<lparr>bn_user := Some 7\<rparr>)\<rparr>"

lemma one_user_inv: "index_inv nm one_user (Node Leaf (1, RBT_BLACK) Leaf)"
  by (simp add: index_inv_def one_user_def holds_def at_hole_def index_users_def empty_node_def)

lemma bst_delete_refines_witness:
  "\<exists>t' T'. bst_delete (\<lambda>_. ''bob'') ''bob'' one_user = Some (0, t') \<and> index_users t' T' = []"
proof -
  have "index_users one_user (Node Leaf (1, RBT_BLACK) Leaf) = [7]"
    by (simp add: index_users_def user_at_def one_user_def)
  then show ?thesis
    using bst_delete_refines [OF one_user_inv, of "\<lambda>_. ''bob''" "''bob''"] by (fastforce simp: Cons_eq_append_conv)
qed

end
