(* ===== verification/User_Store.thy ===== *)
theory User_Store
  imports User_Index
begin

text \<open>
  The user store of \<open>src/user_store.c\<close>: one region of shared memory with a pool of list nodes, a
  pool of tree nodes and a header.  A list node is named by its index in the list pool (node 0 is
  the list head), a stored offset is a \<open>nat option\<close> with \<open>None\<close> for offset 0.  The index over the
  users is the heap of \<open>User_Index\<close>; \<open>us_root\<close> is the copy of its root in the shared header.
  Operations hold the process-shared mutex from their first read to their last write and are
  functions of the state; a loop over the list is a \<open>partial_function\<close>, \<open>None\<close> meaning that it
  never ends.
\<close>

record elem =
  el_name :: string
  el_password :: string
  el_birthdate :: string
  el_phone :: string
  el_mobile :: string
  el_email :: string

record list_node =
  ln_data :: elem
  ln_next :: "nat option"
  ln_used :: bool

record store =
  us_list :: "nat \<Rightarrow> list_node"
  us_list_free :: nat
  us_tree :: bst
  us_tree_free :: nat
  us_size :: int
  us_root :: nat

definition pool_nodes :: nat where "pool_nodes = 201000"

abbreviation head_node :: nat where "head_node \<equiv> 0"

definition name_of :: "store \<Rightarrow> names" where
  "name_of s u = el_name (ln_data (us_list s u))"

subsection \<open>Parsing a line of the user file\<close>

fun split_on :: "char \<Rightarrow> string \<Rightarrow> string list" where
  "split_on c [] = [[]]"
| "split_on c (x # s) =
     (if x = c then [] # split_on c s
      else case split_on c s of [] \<Rightarrow> [[x]] | f # fs \<Rightarrow> (x # f) # fs)"

definition strtok_fields :: "char \<Rightarrow> string \<Rightarrow> string list" where
  \<comment> \<open>what repeated calls of \<open>strtok\<close> with one delimiter return: the non-empty pieces\<close>
  "strtok_fields c s = filter (\<lambda>f. f \<noteq> []) (split_on c s)"

definition field :: "string list \<Rightarrow> nat \<Rightarrow> string" where
  \<comment> \<open>a field that is missing stays zeroed\<close>
  "field fs i = (if i < length fs then fs ! i else [])"

definition parse_csv_line :: "string \<Rightarrow> elem option" where
  "parse_csv_line line =
     (let fs = strtok_fields (CHR '','') line
      in if length fs < 3 then None
         else Some \<lparr>el_name = copy_text 64 (field fs 0), el_password = copy_text 64 (field fs 1),
                    el_birthdate = copy_text 16 (field fs 2), el_phone = copy_text 32 (field fs 3),
                    el_mobile = copy_text 32 (field fs 4), el_email = copy_text 64 (field fs 5)\<rparr>)"

definition remove_newline :: "string \<Rightarrow> string" where
  "remove_newline s = takeWhile (\<lambda>c. c \<noteq> CR \<and> c \<noteq> LF) s"

subsection \<open>The pools\<close>

definition no_elem :: elem where
  "no_elem = \<lparr>el_name = [], el_password = [], el_birthdate = [], el_phone = [], el_mobile = [], el_email = []\<rparr>"

definition list_alloc :: "store \<Rightarrow> (nat \<times> store) option" where
  "list_alloc s =
     (let idx = us_list_free s
      in if pool_nodes \<le> idx then None
         else Some (idx, s\<lparr>us_list_free := idx + 1,
             us_list := (us_list s)(idx := \<lparr>ln_data = no_elem, ln_next = None, ln_used = True\<rparr>)\<rparr>))"

definition tree_alloc :: "store \<Rightarrow> (nat \<times> store) option" where
  \<comment> \<open>offset 0, which \<open>memset\<close> leaves in the links, is overwritten by every caller\<close>
  "tree_alloc s =
     (let idx = us_tree_free s
      in if pool_nodes \<le> idx then None
         else Some (idx, s\<lparr>us_tree_free := idx + 1,
             us_tree := upd idx (\<lambda>_. \<lparr>bn_user = None, bn_left = g_nil, bn_right = g_nil,
                 bn_parent = g_nil, bn_color = RBT_RED, bn_used = True\<rparr>) (us_tree s)\<rparr>))"

definition user_store_shm_init :: "store \<Rightarrow> store" where
  \<comment> \<open>the argument is the fresh mapping; slot 0 of each pool is taken for the sentinels\<close>
  "user_store_shm_init s =
     (let s = s\<lparr>us_list_free := 0, us_tree_free := 0, us_size := 0\<rparr>;
          s = (case tree_alloc s of None \<Rightarrow> s | Some (i, s) \<Rightarrow> s);
          s = s\<lparr>us_tree := set_color g_nil RBT_BLACK (us_tree s)\<rparr>;
          s = s\<lparr>us_root := g_nil, us_tree := (us_tree s)\<lparr>bt_root := g_nil, bt_size := 0\<rparr>\<rparr>
      in case list_alloc s of None \<Rightarrow> s | Some (i, s) \<Rightarrow> s)"

definition push_user :: "nat \<Rightarrow> elem \<Rightarrow> store \<Rightarrow> store" where
  \<comment> \<open>stores the data and inserts the node after the list head\<close>
  "push_user u e s =
     (let h = us_list s head_node
      in s\<lparr>us_list := (us_list s)(u := \<lparr>ln_data = e, ln_next = ln_next h, ln_used = ln_used (us_list s u)\<rparr>,
             head_node := h\<lparr>ln_next := Some u\<rparr>)\<rparr>)"

definition index_user :: "nat \<Rightarrow> nat \<Rightarrow> store \<Rightarrow> store option" where
  \<comment> \<open>fills the tree node \<open>z\<close> for user \<open>u\<close> and inserts it into the index\<close>
  "index_user z u s =
     (let t = upd z (\<lambda>n. n\<lparr>bn_user := Some u, bn_left := g_nil, bn_right := g_nil,
                bn_parent := g_nil, bn_color := RBT_RED\<rparr>) (us_tree s)
      in map_option (\<lambda>t. s\<lparr>us_tree := t\<rparr>) (bst_insert (name_of s) (name_of s u) z t))"

subsection \<open>Loading the user file\<close>

fun fgets :: "nat \<Rightarrow> string \<Rightarrow> (string \<times> string) option" where
  \<comment> \<open>\<open>fgets(line, n, fp)\<close>: what it stores and what is left of the file\<close>
  "fgets n [] = None"
| "fgets n (c # s) =
     (let m = min (n - 1) (if LF \<in> set (c # s) then Suc (length (cut_at LF (c # s))) else length (c # s))
      in Some (take m (c # s), drop m (c # s)))"

declare fgets.simps [simp del]

definition csv_header :: "string \<Rightarrow> int \<Rightarrow> bool" where
  \<comment> \<open>the test that makes the loop count a line and skip it\<close>
  "csv_header line count \<longleftrightarrow>
     (line = [] \<or> count = 0 \<and> (starts_with line ''username'' \<or> starts_with line ''name,'' \<or> starts_with line ''baianai''))
     \<and> count = 0 \<and> strchr line (CHR '','') \<noteq> None
     \<and> (strstr line ''name'' \<noteq> None \<or> strstr line ''username'' \<noteq> None)"

datatype line_result = Continue store int | Break store

definition load_line :: "string \<Rightarrow> store \<Rightarrow> int \<Rightarrow> line_result option" where
  \<comment> \<open>one iteration of the loop of \<open>user_store_shm_load_csv\<close>\<close>
  "load_line line s count =
     (let line = remove_newline (cstr line)
      in if csv_header line count then Some (Continue s (count + 1))
         else case parse_csv_line line of
             None \<Rightarrow> Some (Continue s count)
           | Some e \<Rightarrow>
               (case list_alloc s of
                  None \<Rightarrow> Some (Break s)
                | Some (u, s) \<Rightarrow>
                    (let s = push_user u e s
                     in case tree_alloc s of
                          None \<Rightarrow> Some (Break s)
                        | Some (z, s) \<Rightarrow>
                            map_option (\<lambda>s. Continue (s\<lparr>us_size := us_size s + 1\<rparr>) (count + 1))
                              (index_user z u s))))"

lemma fgets_shorter: "fgets n s = Some (l, r) \<Longrightarrow> 1 < n \<Longrightarrow> length r < length s"
  by (cases s) (auto simp: fgets.simps Let_def min_def split: if_splits)

function load_lines :: "string \<Rightarrow> store \<Rightarrow> int \<Rightarrow> (store \<times> int) option" where
  "load_lines data s count =
     (case fgets 512 data of
        None \<Rightarrow> Some (s, count)
      | Some (line, rest) \<Rightarrow>
          (case load_line line s count of
             None \<Rightarrow> None
           | Some (Break s) \<Rightarrow> Some (s, count)
           | Some (Continue s count) \<Rightarrow> load_lines rest s count))"
  by auto
termination
  by (relation "measure (\<lambda>(d, _). length d)") (auto dest: fgets_shorter)

declare load_lines.simps [simp del]

definition user_store_shm_load_csv :: "string option \<Rightarrow> store \<Rightarrow> store option" where
  \<comment> \<open>the first argument is the content of the file, \<open>None\<close> when it cannot be opened\<close>
  "user_store_shm_load_csv file s =
     (let s = s\<lparr>us_tree := (us_tree s)\<lparr>bt_root := us_root s\<rparr>\<rparr>
      in case file of
           None \<Rightarrow> Some s
         | Some data \<Rightarrow>
             map_option (\<lambda>(s, count). s\<lparr>us_root := bt_root (us_tree s), us_size := count\<rparr>)
               (load_lines data s 0))"

definition user_store_load_csv :: "bool \<Rightarrow> string option \<Rightarrow> store \<Rightarrow> store option" where
  \<comment> \<open>the flag says that the region is mapped already\<close>
  "user_store_load_csv mapped file s =
     user_store_shm_load_csv file (if mapped then s else user_store_shm_init s)"

subsection \<open>Searching the list\<close>

partial_function (option) list_walk ::
    "(nat \<Rightarrow> list_node) \<Rightarrow> (list_node \<Rightarrow> bool) \<Rightarrow> nat option \<Rightarrow> nat \<Rightarrow> (nat option \<times> nat) option" where
  \<comment> \<open>\<open>while (cur != NULL) { if (P(cur)) return cur; cur = LIST(cur->next_off); }\<close>: the node found
    and the number of nodes visited\<close>
  "list_walk L P cur n =
     (case cur of
        None \<Rightarrow> Some (None, n)
      | Some u \<Rightarrow> if P (L u) then Some (Some u, n + 1) else list_walk L P (ln_next (L u)) (n + 1))"

definition first_node :: "store \<Rightarrow> nat option" where
  "first_node s = ln_next (us_list s head_node)"

definition user_store_find :: "store \<Rightarrow> string \<Rightarrow> nat option option" where
  "user_store_find s name =
     map_option fst (list_walk (us_list s) (\<lambda>n. ln_used n \<and> strcmp (el_name (ln_data n)) name = 0) (first_node s) 0)"

definition user_store_find_with_steps :: "store \<Rightarrow> string \<Rightarrow> (nat option \<times> nat) option" where
  "user_store_find_with_steps s name =
     list_walk (us_list s) (\<lambda>n. ln_used n \<and> strcmp (el_name (ln_data n)) name = 0) (first_node s) 0"

definition user_store_lookup_name :: "store \<Rightarrow> string \<Rightarrow> string option option" where
  "user_store_lookup_name s login =
     map_option (\<lambda>(r, n). map_option (name_of s) r)
       (list_walk (us_list s)
          (\<lambda>n. ln_used n \<and> (strcmp (el_mobile (ln_data n)) login = 0 \<or> strcmp (el_name (ln_data n)) login = 0))
          (first_node s) 0)"

definition user_store_auth :: "store \<Rightarrow> string \<Rightarrow> string \<Rightarrow> bool option" where
  "user_store_auth s mobile password =
     map_option (\<lambda>(r, n). r \<noteq> None)
       (list_walk (us_list s)
          (\<lambda>n. ln_used n \<and> strcmp (el_mobile (ln_data n)) mobile = 0 \<and> strcmp (el_password (ln_data n)) password = 0)
          (first_node s) 0)"

definition user_store_find_index :: "store \<Rightarrow> string \<Rightarrow> nat option option" where
  "user_store_find_index s name = bst_find (name_of s) (us_tree s) name"

subsection \<open>Adding and deleting\<close>

definition user_store_add :: "string \<Rightarrow> store \<Rightarrow> (int \<times> store) option" where
  "user_store_add csv_line s =
     (case parse_csv_line csv_line of
        None \<Rightarrow> Some (-1, s)
      | Some e \<Rightarrow>
          Option.bind (user_store_find s (el_name e))
            (\<lambda>r. if r \<noteq> None then Some (1, s)
                 else case list_alloc s of
                     None \<Rightarrow> Some (-1, s)
                   | Some (u, s) \<Rightarrow>
                       (let s = push_user u e s
                        in case tree_alloc s of
                             None \<Rightarrow> Some (-1, s)
                           | Some (z, s) \<Rightarrow>
                               map_option (\<lambda>s. (0, s\<lparr>us_size := us_size s + 1, us_root := bt_root (us_tree s)\<rparr>))
                                 (index_user z u s))))"

partial_function (option) delete_walk ::
    "(nat \<Rightarrow> list_node) \<Rightarrow> string \<Rightarrow> nat \<Rightarrow> nat option \<Rightarrow> (nat \<times> nat option) option" where
  \<comment> \<open>\<open>prev\<close> and \<open>cur\<close> where the loop stops: \<open>cur\<close> is the node with the name, if there is one\<close>
  "delete_walk L name prev cur =
     (if cur = None then Some (prev, None)
      else if ln_used (L (the cur)) \<and> strcmp (el_name (ln_data (L (the cur)))) name = 0 then Some (prev, cur)
      else delete_walk L name (the cur) (ln_next (L (the cur))))"

definition list_unlink :: "nat \<Rightarrow> nat \<Rightarrow> store \<Rightarrow> store" where
  "list_unlink prev cur s =
     (let L = us_list s;
          L = L(prev := (L prev)\<lparr>ln_next := ln_next (L cur)\<rparr>);
          L = L(cur := (L cur)\<lparr>ln_used := False\<rparr>)
      in s\<lparr>us_list := L\<rparr>)"

definition user_store_delete :: "string \<Rightarrow> store \<Rightarrow> (int \<times> store) option" where
  "user_store_delete name s =
     Option.bind (delete_walk (us_list s) name head_node (first_node s))
       (\<lambda>(prev, r). case r of
              None \<Rightarrow> Some (-1, s)
            | Some cur \<Rightarrow>
                (let s = list_unlink prev cur s
                 in map_option (\<lambda>(rc, t). (0, s\<lparr>us_tree := t, us_size := us_size s - 1, us_root := bt_root t\<rparr>))
                      (bst_delete (name_of s) name (us_tree s))))"

subsection \<open>Listing the users in index order\<close>

text \<open>
  The buffer of a listing is the C string it holds; \<open>offset\<close> is where the next piece is printed.
  A piece that does not fit is printed cut off, and the next one overwrites it.
\<close>

record listing =
  ls_buf :: string
  ls_offset :: nat
  ls_total :: nat

definition emit :: "nat \<Rightarrow> string \<Rightarrow> listing \<Rightarrow> listing" where
  \<comment> \<open>\<open>w = snprintf(buf + *offset, n - *offset, ...); if (w > 0 && w < n - *offset) *offset += w\<close>\<close>
  "emit n txt b =
     (let b' = b\<lparr>ls_buf := take (ls_offset b) (ls_buf b) @ snprintf_to (n - ls_offset b) txt\<rparr>
      in if 0 < length txt \<and> length txt < n - ls_offset b then b'\<lparr>ls_offset := ls_offset b + length txt\<rparr> else b')"

definition visible_user :: "store \<Rightarrow> nat \<Rightarrow> elem option" where
  \<comment> \<open>\<open>node->used && node->user_off && lu->used\<close>\<close>
  "visible_user s x =
     (let nd = bt_node (us_tree s) x
      in case bn_user nd of
           None \<Rightarrow> None
         | Some u \<Rightarrow> if bn_used nd \<and> ln_used (us_list s u) then Some (ln_data (us_list s u)) else None)"

definition user_line :: "elem \<Rightarrow> string" where
  "user_line d = el_name d @ [SPC] @ el_password d @ [SPC] @ el_birthdate d @ [SPC] @ el_phone d @ [SPC]
     @ el_mobile d @ [SPC] @ el_email d @ [LF]"

partial_function (option) emit_users ::
    "store \<Rightarrow> nat \<Rightarrow> nat \<Rightarrow> (elem \<Rightarrow> string option) \<Rightarrow> nat \<Rightarrow> listing \<Rightarrow> listing option" where
  \<comment> \<open>the recursion that \<open>bst_format_node\<close> and \<open>search_inorder\<close> share: stop when less than
    \<open>margin\<close> bytes are left; \<open>piece\<close> is what is printed for a user, if anything\<close>
  "emit_users s n margin piece x b =
     (if x = g_nil \<or> int n - int margin \<le> int (ls_offset b) then Some b
      else Option.bind (emit_users s n margin piece (left_of (us_tree s) x) b)
        (\<lambda>b. let b = (case Option.bind (visible_user s x) piece of
                        None \<Rightarrow> b
                      | Some txt \<Rightarrow> emit n txt (b\<lparr>ls_total := ls_total b + 1\<rparr>))
             in emit_users s n margin piece (right_of (us_tree s) x) b))"

definition bst_format_node :: "store \<Rightarrow> nat \<Rightarrow> nat \<Rightarrow> listing \<Rightarrow> listing option" where
  "bst_format_node s n = emit_users s n 200 (\<lambda>d. Some (user_line d))"

partial_function (option) bst_inorder_node :: "store \<Rightarrow> nat \<Rightarrow> string option" where
  \<comment> \<open>the text printed\<close>
  "bst_inorder_node s x =
     (if x = g_nil then Some []
      else Option.bind (bst_inorder_node s (left_of (us_tree s) x)) (\<lambda>l.
           Option.bind (bst_inorder_node s (right_of (us_tree s) x)) (\<lambda>r.
             Some (l @ (case visible_user s x of None \<Rightarrow> [] | Some d \<Rightarrow> user_line d) @ r))))"

definition bst_inorder :: "store \<Rightarrow> string option" where
  "bst_inorder s = bst_inorder_node s (bt_root (us_tree s))"

definition user_store_print_index :: "store \<Rightarrow> string option" where
  "user_store_print_index s = bst_inorder s"

definition user_store_format_users :: "store \<Rightarrow> nat \<Rightarrow> listing \<Rightarrow> listing option" where
  "user_store_format_users s n b = bst_format_node s n (bt_root (us_tree s)) b"

subsection \<open>Search by several fields\<close>

record search_criteria =
  sc_name :: string
  sc_phone :: string
  sc_mobile :: string
  sc_email :: string

fun match_here :: "string \<Rightarrow> string \<Rightarrow> bool" where
  \<comment> \<open>the inner loop of \<open>str_contains\<close>: the query is used up\<close>
  "match_here p [] = True"
| "match_here [] (c # q) = False"
| "match_here (d # p) (c # q) = (tolower_c d = tolower_c c \<and> match_here p q)"

fun contains_from :: "string \<Rightarrow> string \<Rightarrow> bool" where
  "contains_from [] q = False"
| "contains_from (c # t) q = (match_here (c # t) q \<or> contains_from t q)"

definition str_contains :: "string \<Rightarrow> string \<Rightarrow> bool" where
  "str_contains txt query =
     (if query = [] then True else if length query > length txt then False else contains_from txt query)"

definition criteria_match :: "elem \<Rightarrow> search_criteria \<Rightarrow> bool" where
  "criteria_match d c =
     (if sc_name c \<noteq> [] \<and> \<not> str_contains (el_name d) (sc_name c) then False
      else if sc_phone c \<noteq> [] \<and> \<not> str_contains (el_phone d) (sc_phone c) then False
      else if sc_mobile c \<noteq> [] \<and> \<not> str_contains (el_mobile d) (sc_mobile c) then False
      else if sc_email c \<noteq> [] \<and> \<not> str_contains (el_email d) (sc_email c) then False
      else True)"

definition unlines :: "string list \<Rightarrow> string" where
  "unlines ls = concat (map (\<lambda>l. l @ [LF]) ls)"

definition result_card :: "elem \<Rightarrow> string" where \<open>
  result_card d = unlines
   [''<div class="result-card">'',
    ''  <h2>'' @ el_name d @ ''</h2>'',
    ''  <table>'',
    ''    <tr><td class="label">Phone:</td><td>'' @ el_phone d @ ''</td></tr>'',
    ''    <tr><td class="label">Birth:</td><td>'' @ el_birthdate d @ ''</td></tr>'',
    ''    <tr><td class="label">Mobile:</td><td>'' @ el_mobile d @ ''</td></tr>'',
    ''    <tr><td class="label">Email:</td><td>'' @ el_email d @ ''</td></tr>'',
    ''  </table>'',
    ''</div>'']\<close>

definition search_inorder :: "store \<Rightarrow> search_criteria \<Rightarrow> nat \<Rightarrow> nat \<Rightarrow> listing \<Rightarrow> listing option" where
  "search_inorder s c n =
     emit_users s n 512 (\<lambda>d. if criteria_match d c then Some (result_card d) else None)"

definition add_criterion :: "string \<Rightarrow> string \<Rightarrow> string \<times> bool \<Rightarrow> string \<times> bool" where
  "add_criterion label v = (\<lambda>(buf, first).
     if v \<noteq> [] then (buf @ (if first then [] else '', '') @ label @ '': '' @ v, False) else (buf, first))"

definition criteria_summary :: "search_criteria \<Rightarrow> string" where
  \<comment> \<open>at most 224 bytes for criteria whose fields fit, so the buffer of 256 is never filled\<close>
  "criteria_summary c =
     (let (buf, first) = add_criterion ''Email'' (sc_email c) (add_criterion ''Mobile'' (sc_mobile c)
            (add_criterion ''Phone'' (sc_phone c) (add_criterion ''Name'' (sc_name c) ([], True))))
      in if first then ''(none)'' else buf)"

definition search_page_head :: "string \<Rightarrow> string" where \<open>
  search_page_head summary = unlines
   [''<!DOCTYPE html>'',
    ''<html lang="zh-CN">'',
    ''<head>'',
    ''<meta charset="utf-8">'',
    ''<meta name="viewport" content="width=device-width, initial-scale=1">'',
    ''<link rel="icon" href="/icon/favicon.ico">'',
    ''<title>Search Results</title>'',
    ''<style>'',
    '':root{--bg:#f5f5f5;--card-bg:#fff;--text:#333;--muted:#666;--border:#e0e0e0;--accent:#2563eb;}'',
    ''*{margin:0;padding:0;box-sizing:border-box;}'',
    ''body{font-family:-apple-system,BlinkMacSystemFont,"Segoe UI",Roboto,sans-serif;background:var(--bg);color:var(--text);line-height:1.6;}'',
    ''header{background:linear-gradient(135deg,#1e293b 0%,#334155 100%);color:#fff;padding:32px 24px;text-align:center;}'',
    ''header h1{font-size:1.6rem;}'',
    ''header p{margin-top:8px;opacity:0.8;font-size:0.9rem;}'',
    ''.container{max-width:720px;margin:0 auto;padding:24px 20px;}'',
    ''.result-card{background:var(--card-bg);border:1px solid var(--border);border-radius:10px;padding:18px;margin-bottom:12px;box-shadow:0 1px 3px rgba(0,0,0,0.04);}'',
    ''.result-card h2{font-size:1.1rem;color:var(--accent);margin-bottom:8px;}'',
    ''.result-card table{width:100%;border-collapse:collapse;}'',
    ''.result-card td{padding:4px 8px;font-size:0.9rem;}'',
    ''.result-card td.label{color:var(--muted);width:80px;}'',
    ''.no-results{text-align:center;padding:48px 20px;color:var(--muted);}'',
    ''.match-count{text-align:center;color:var(--muted);font-size:0.85rem;margin-top:16px;}'',
    ''.back-link{display:inline-block;margin-top:16px;padding:8px 20px;background:var(--accent);color:#fff;border-radius:6px;text-decoration:none;font-size:0.9rem;}'',
    ''.back-link:hover{opacity:0.9;}'',
    ''footer{text-align:center;padding:24px 20px;color:var(--muted);font-size:0.82rem;}'',
    ''</style>'',
    ''</head>'',
    ''<body>'',
    ''<header>'',
    ''  <h1>&#128269; Search Results</h1>'',
    ''  <p>Criteria: <strong>'' @ summary @ ''</strong></p>'',
    ''</header>'',
    ''<div class="container">'']\<close>

definition no_results :: string where \<open>
  no_results = unlines
   [''<div class="no-results">'',
    ''  <p style="font-size:1.2rem;">&#128533;</p>'',
    ''  <p>No users found matching the criteria.</p>'',
    ''</div>'']\<close>

definition search_page_foot :: "nat \<Rightarrow> string" where \<open>
  search_page_foot n = unlines
   [''<p class="match-count">'' @ dec_nat n @ '' match(es) found</p>'',
    ''<p style="text-align:center;"><a class="back-link" href="/">&larr; Back to Search</a></p>'',
    ''</div>'',
    ''<footer>MiniWeb Server v1.4 &middot; RBT Index Search</footer>'',
    ''</body>'',
    ''</html>'']\<close>

definition user_store_search :: "store \<Rightarrow> search_criteria \<Rightarrow> nat \<Rightarrow> (int \<times> string) option" where
  \<comment> \<open>the return value and the content of the buffer of \<open>n\<close> bytes\<close>
  "user_store_search s c n =
     (if n = 0 then Some (-1, [])
      else let page = search_page_head (criteria_summary c)
        in if n \<le> length page then Some (-1, snprintf_to n page)
           else Option.bind (search_inorder s c n (bt_root (us_tree s))
                  \<lparr>ls_buf = page, ls_offset = length page, ls_total = 0\<rparr>)
             (\<lambda>b. let b = (if ls_total b = 0 then emit n no_results b else b);
                      b = emit n (search_page_foot (ls_total b)) b
                  in Some (int (ls_total b), ls_buf b)))"

end
