(* ===== verification/User_Store_Correct.thy ===== *)
theory User_Store_Correct
  imports User_Store User_Index_Correct "HOL-Library.Multiset"
begin

text \<open>
  What the user store promises.  \<open>store_inv\<close> ties the state to the list of its live nodes, newest
  first, and to the tree of its index: the list is a chain of used nodes, the index is a red-black
  tree over the same users in name order.  Loading and adding keep it and refine operations on the
  list of accounts; searching the list, searching the index, the password check and the listings
  are stated over the accounts.
\<close>

subsection \<open>The list of users\<close>

fun lchain :: "(nat \<Rightarrow> list_node) \<Rightarrow> nat option \<Rightarrow> nat list \<Rightarrow> bool" where
  "lchain L p [] \<longleftrightarrow> p = None"
| "lchain L p (u # us) \<longleftrightarrow> p = Some u \<and> lchain L (ln_next (L u)) us"

lemma list_walk_correct:
  "lchain L p us \<Longrightarrow>
     list_walk L P p n = Some (find (\<lambda>u. P (L u)) us,
       n + length (takeWhile (\<lambda>u. \<not> P (L u)) us) + (if find (\<lambda>u. P (L u)) us = None then 0 else 1))"
proof (induction us arbitrary: p n)
  case Nil
  then show ?case by (subst list_walk.simps) simp
next
  case (Cons u us)
  then show ?case by (subst list_walk.simps) simp
qed

lemma lchain_cong:
  "(\<And>u. u \<in> set us \<Longrightarrow> ln_next (L' u) = ln_next (L u)) \<Longrightarrow> lchain L' p us = lchain L p us"
  by (induction us arbitrary: p) auto

subsection \<open>The invariant\<close>

definition accounts :: "store \<Rightarrow> nat list \<Rightarrow> elem list" where
  "accounts s us = map (\<lambda>u. ln_data (us_list s u)) us"

definition store_core :: "store \<Rightarrow> nat list \<Rightarrow> ctree \<Rightarrow> bool" where
  "store_core s us T \<longleftrightarrow>
     lchain (us_list s) (first_node s) us \<and> distinct us
     \<and> (\<forall>u \<in> set us. 0 < u \<and> u < us_list_free s \<and> ln_used (us_list s u))
     \<and> index_inv (name_of s) (us_tree s) T \<and> mset (index_users (us_tree s) T) = mset us
     \<and> (\<forall>a \<in> addrs T. a < us_tree_free s \<and> bn_used (bt_node (us_tree s) a))
     \<and> us_list_free s = us_tree_free s \<and> 0 < us_list_free s \<and> us_list_free s \<le> pool_nodes"

definition store_inv :: "store \<Rightarrow> nat list \<Rightarrow> ctree \<Rightarrow> bool" where
  "store_inv s us T \<longleftrightarrow> store_core s us T \<and> us_root s = bt_root (us_tree s)"

lemma holds_upd: "z \<notin> addrs T \<Longrightarrow> z \<noteq> g_nil \<Longrightarrow> holds (upd z f t) T = holds t T"
  by (simp add: holds_def at_hole_upd)

lemma index_inv_frame:
  assumes "index_inv nm t T" and "z \<notin> addrs T" and "z \<noteq> g_nil"
    and "\<And>u. u \<in> set (index_users t T) \<Longrightarrow> nm' u = nm u"
  shows "index_inv nm' (upd z f t) T \<and> index_users (upd z f t) T = index_users t T"
proof -
  have same: "index_users (upd z f t) T = index_users t T"
    unfolding index_users_def user_at_def using assms(2) set_addr_list [of T] by (auto simp: upd_def)
  have "map nm' (index_users t T) = map nm (index_users t T)" using assms(4) by simp
  moreover have "\<forall>a \<in> insert g_nil (addrs T). bt_node (upd z f t) a = bt_node t a" "bt_size (upd z f t) = bt_size t"
    using assms(2,3) by (auto simp: upd_def)
  ultimately show ?thesis
    using assms(1-3) same by (simp add: index_inv_def holds_upd del: map_map map_eq_conv)
qed

lemma mset_insert_user: "mset (insert_user nm u us) = add_mset u (mset us)"
proof -
  have "filter (\<lambda>v. nm u < nm v) us = filter (\<lambda>v. \<not> nm v \<le> nm u) us"
    by (auto simp: not_le)
  then show ?thesis by (simp add: insert_user_def flip: multiset_partition)
qed

lemma insert_core:
  assumes core: "store_core s us T" and room: "us_list_free s < pool_nodes"
  shows "\<exists>u s1 s2 s3 T'. list_alloc s = Some (u, s1) \<and> tree_alloc (push_user u e s1) = Some (u, s2)
    \<and> index_user u u s2 = Some s3 \<and> store_core s3 (u # us) T' \<and> accounts s3 (u # us) = e # accounts s us
    \<and> us_size s3 = us_size s \<and> us_root s3 = us_root s \<and> us_list_free s3 = Suc (us_list_free s)"
proof -
  define u where "u = us_list_free s"
  obtain s1 where s1: "list_alloc s = Some (u, s1)"
    using room by (simp add: list_alloc_def u_def Let_def)
  obtain s2 where s2: "tree_alloc (push_user u e s1) = Some (u, s2)"
    using core room s1 by (auto simp: list_alloc_def tree_alloc_def push_user_def store_core_def u_def Let_def)
  have u0: "u \<noteq> 0" "u \<notin> set us" "u \<notin> addrs T" "0 \<notin> set us"
    using core by (auto simp: store_core_def u_def)
  let ?L = "(us_list s)(u := \<lparr>ln_data = e, ln_next = first_node s, ln_used = True\<rparr>,
      0 := (us_list s 0)\<lparr>ln_next := Some u\<rparr>)"
  let ?fresh = "\<lparr>bn_user = None, bn_left = g_nil, bn_right = g_nil, bn_parent = g_nil, bn_color = RBT_RED, bn_used = True\<rparr>"
  let ?node = "?fresh\<lparr>bn_user := Some u\<rparr>"
  have f2: "us_list s2 = ?L" "us_tree s2 = upd u (\<lambda>_. ?fresh) (us_tree s)" "us_list_free s2 = Suc u"
      "us_tree_free s2 = Suc u" "us_size s2 = us_size s" "us_root s2 = us_root s"
    using s1 s2 u0 core
    by (auto simp: list_alloc_def tree_alloc_def push_user_def store_core_def u_def first_node_def Let_def split: if_splits)
  let ?t = "upd u (\<lambda>_. ?node) (us_tree s)"
  have t: "upd u (\<lambda>n. n\<lparr>bn_user := Some u, bn_left := g_nil, bn_right := g_nil, bn_parent := g_nil,
      bn_color := RBT_RED\<rparr>) (us_tree s2) = ?t"
    by (simp add: f2 upd_def)
  have old: "index_inv (name_of s) (us_tree s) T" "mset (index_users (us_tree s) T) = mset us"
    using core by (auto simp: store_core_def)
  have us: "set (index_users (us_tree s) T) = set us" using old(2) by (metis set_mset_mset)
  have same: "name_of s2 v = name_of s v" if "v \<in> set (index_users (us_tree s) T)" for v
  proof -
    have "v \<in> set us" using that us by simp
    then have "v \<noteq> u" "v \<noteq> 0" using u0 by (metis, metis)
    then show ?thesis by (simp add: name_of_def f2)
  qed
  have fr: "index_inv (name_of s2) ?t T" "index_users ?t T = index_users (us_tree s) T"
    using index_inv_frame [OF old(1) u0(3,1) same] by auto
  have bu: "bn_user (bt_node ?t u) = Some u" by (simp add: upd_def)
  obtain t' T' where t': "bst_insert (name_of s2) (name_of s2 u) u ?t = Some t'"
      "index_inv (name_of s2) t' T'" "index_users t' T' = insert_user (name_of s2) u (index_users ?t T)"
      "addrs T' = insert u (addrs T)"
      "\<forall>a. bn_user (bt_node t' a) = bn_user (bt_node ?t a) \<and> bn_used (bt_node t' a) = bn_used (bt_node ?t a)"
    using index_insert [OF fr(1) u0(3,1) bu] by blast
  let ?s = "s2\<lparr>us_tree := t'\<rparr>"
  have ix: "index_user u u s2 = Some ?s" unfolding index_user_def t using t'(1) by simp
  have "lchain ?L (Some u) (u # us)"
  proof -
    have "lchain ?L (first_node s) us = lchain (us_list s) (first_node s) us"
      by (rule lchain_cong) (use u0 in auto)
    then show ?thesis using core u0 by (auto simp: store_core_def)
  qed
  moreover have "name_of ?s = name_of s2" by (auto simp: name_of_def)
  moreover have "mset (index_users t' T') = mset (u # us)"
    unfolding t'(3) fr(2) mset_insert_user old(2) by simp
  ultimately have "store_core ?s (u # us) T'"
    using core room t'(2,4,5) u0
    by (auto simp: store_core_def first_node_def f2 u_def less_Suc_eq)
  moreover have "accounts ?s (u # us) = e # accounts s us"
    using u0 by (auto simp: accounts_def f2)
  ultimately have "list_alloc s = Some (u, s1) \<and> tree_alloc (push_user u e s1) = Some (u, s2)
    \<and> index_user u u s2 = Some ?s \<and> store_core ?s (u # us) T' \<and> accounts ?s (u # us) = e # accounts s us
    \<and> us_size ?s = us_size s \<and> us_root ?s = us_root s \<and> us_list_free ?s = Suc (us_list_free s)"
    using s1 s2 ix f2(3,5,6) u_def by simp
  then show ?thesis by blast
qed

subsection \<open>A fresh region\<close>

lemma store_inv_init: "store_inv (user_store_shm_init s) [] Leaf"
  by (simp add: store_inv_def store_core_def user_store_shm_init_def tree_alloc_def list_alloc_def
      pool_nodes_def Let_def first_node_def index_inv_def index_users_def holds_def at_hole_def)

lemma init_free: "us_list_free (user_store_shm_init s) = 1"
  by (simp add: user_store_shm_init_def tree_alloc_def list_alloc_def pool_nodes_def Let_def)

subsection \<open>Adding a user\<close>

lemma find_user:
  assumes "store_core s us T"
  shows "user_store_find s name = Some (find (\<lambda>u. name_of s u = name) us)"
proof -
  have "find (\<lambda>u. ln_used (us_list s u) \<and> strcmp (el_name (ln_data (us_list s u))) name = 0) us
      = find (\<lambda>u. name_of s u = name) us"
    by (rule find_cong) (use assms in \<open>auto simp: store_core_def name_of_def\<close>)
  moreover have "lchain (us_list s) (first_node s) us" using assms by (simp add: store_core_def)
  ultimately show ?thesis by (simp add: user_store_find_def list_walk_correct)
qed

lemma find_user_None:
  "find (\<lambda>u. name_of s u = name) us = None \<longleftrightarrow> name \<notin> el_name ` set (accounts s us)"
  by (auto simp: find_None_iff accounts_def name_of_def)

definition add_account :: "bool \<Rightarrow> string \<Rightarrow> elem list \<Rightarrow> int \<times> elem list" where
  \<comment> \<open>what \<open>user_store_add\<close> means for the accounts; the flag says that the pool has room\<close>
  "add_account room line as =
     (case parse_csv_line line of
        None \<Rightarrow> (-1, as)
      | Some e \<Rightarrow> if el_name e \<in> el_name ` set as then (1, as)
                  else if room then (0, e # as) else (-1, as))"

lemma store_core_cong:
  assumes "store_core s us T" and "us_list s' = us_list s" "us_tree s' = us_tree s"
    "us_list_free s' = us_list_free s" "us_tree_free s' = us_tree_free s"
  shows "store_core s' us T" "accounts s' us = accounts s us"
proof -
  have "name_of s' = name_of s" by (auto simp: name_of_def assms)
  then show "store_core s' us T" "accounts s' us = accounts s us"
    using assms by (auto simp: store_core_def first_node_def accounts_def)
qed

lemma add_correct:
  assumes inv: "store_inv s us T"
  shows "\<exists>r s' us' T'. user_store_add line s = Some (r, s') \<and> store_inv s' us' T'
    \<and> (r, accounts s' us') = add_account (us_list_free s < pool_nodes) line (accounts s us)"
proof (cases "parse_csv_line line")
  case None
  then show ?thesis using inv by (auto simp: user_store_add_def add_account_def)
next
  case (Some e)
  have core: "store_core s us T" using inv by (simp add: store_inv_def)
  note fu = find_user [OF core, of "el_name e"]
  consider (taken) "el_name e \<in> el_name ` set (accounts s us)"
    | (full) "el_name e \<notin> el_name ` set (accounts s us)" "pool_nodes \<le> us_list_free s"
    | (room) "el_name e \<notin> el_name ` set (accounts s us)" "us_list_free s < pool_nodes"
    by fastforce
  then show ?thesis
  proof cases
    case taken
    then have "user_store_add line s = Some (1, s)"
      using Some fu find_user_None [of s "el_name e" us] by (simp add: user_store_add_def)
    then show ?thesis using inv taken Some by (auto simp: add_account_def)
  next
    case full
    then have "user_store_add line s = Some (-1, s)"
      using Some fu find_user_None [of s "el_name e" us] by (simp add: user_store_add_def list_alloc_def Let_def)
    then show ?thesis using inv full Some by (auto simp: add_account_def)
  next
    case room
    obtain u s1 s2 s3 T' where i: "list_alloc s = Some (u, s1)" "tree_alloc (push_user u e s1) = Some (u, s2)"
        "index_user u u s2 = Some s3" "store_core s3 (u # us) T'" "accounts s3 (u # us) = e # accounts s us"
      using insert_core [OF core room(2), of e] by blast
    let ?s = "s3\<lparr>us_size := us_size s3 + 1, us_root := bt_root (us_tree s3)\<rparr>"
    have "user_store_add line s = Some (0, ?s)"
      using Some fu find_user_None [of s "el_name e" us] room(1) i(1-3) by (simp add: user_store_add_def Let_def)
    moreover have "store_inv ?s (u # us) T'" "accounts ?s (u # us) = e # accounts s us"
      using store_core_cong [OF i(4), of ?s] i(5) by (simp_all add: store_inv_def)
    moreover have "add_account (us_list_free s < pool_nodes) line (accounts s us) = (0, e # accounts s us)"
      using Some room by (simp add: add_account_def)
    ultimately show ?thesis by metis
  qed
qed

subsection \<open>Loading the user file\<close>

function csv_lines :: "string \<Rightarrow> string list" where
  "csv_lines data = (case fgets 512 data of None \<Rightarrow> [] | Some (l, r) \<Rightarrow> remove_newline (cstr l) # csv_lines r)"
  by auto
termination
  by (relation "measure length") (auto dest: fgets_shorter)

declare csv_lines.simps [simp del]

fun csv_users :: "bool \<Rightarrow> string list \<Rightarrow> elem list" where
  \<comment> \<open>the users that the lines of a file define; the flag says that no line counted yet\<close>
  "csv_users new [] = []"
| "csv_users new (l # ls) =
     (if csv_header l (if new then 0 else 1) then csv_users False ls
      else case parse_csv_line l of None \<Rightarrow> csv_users new ls | Some e \<Rightarrow> e # csv_users False ls)"

fun csv_titled :: "string list \<Rightarrow> bool" where
  \<comment> \<open>the first line that counts is a header\<close>
  "csv_titled [] = False"
| "csv_titled (l # ls) = (csv_header l 0 \<or> parse_csv_line l = None \<and> csv_titled ls)"

lemma csv_header_count: "0 < c \<Longrightarrow> csv_header l c = csv_header l 1"
  by (simp add: csv_header_def)

lemma csv_header_late [simp]: "\<not> csv_header l 1"
  by (simp add: csv_header_def)

definition loaded :: "store \<Rightarrow> nat list \<Rightarrow> int \<Rightarrow> string list \<Rightarrow> store \<Rightarrow> int \<Rightarrow> nat list \<Rightarrow> ctree \<Rightarrow> bool" where
  "loaded s us c ls s' c' us' T' \<longleftrightarrow> store_core s' us' T'
     \<and> accounts s' us' = rev (take (pool_nodes - us_list_free s) (csv_users (c = 0) ls)) @ accounts s us
     \<and> c' = c + (int (length us') - int (length us)) + (if c = 0 \<and> csv_titled ls then 1 else 0)"

lemma load_lines_correct:
  "store_core s us T \<Longrightarrow> 0 \<le> c \<Longrightarrow>
     \<exists>s' c' us' T'. load_lines data s c = Some (s', c') \<and> loaded s us c (csv_lines data) s' c' us' T'"
proof (induction data s c arbitrary: us T rule: load_lines.induct)
  case (1 data s c)
  show ?case
  proof (cases "fgets 512 data")
    case None
    then have "load_lines data s c = Some (s, c)" "csv_lines data = []"
      by (simp_all add: load_lines.simps csv_lines.simps)
    moreover have "loaded s us c [] s c us T" using "1.prems" by (simp add: loaded_def)
    ultimately show ?thesis by metis
  next
    case (Some lr)
    then obtain l0 rest where f: "fgets 512 data = Some (l0, rest)" by (cases lr) auto
    define l where "l = remove_newline (cstr l0)"
    have lines: "csv_lines data = l # csv_lines rest" by (simp add: csv_lines.simps [of data] f l_def)
    have hd: "csv_header l c = csv_header l (if c = 0 then 0 else 1)"
      using "1.prems"(2) csv_header_count [of c l] by simp
    note step = load_lines.simps [of data s c] load_line_def [of l0 s c, folded l_def]
    consider (header) "csv_header l c" | (bad) "\<not> csv_header l c" "parse_csv_line l = None"
      | (full) e where "\<not> csv_header l c" "parse_csv_line l = Some e" "pool_nodes \<le> us_list_free s"
      | (good) e where "\<not> csv_header l c" "parse_csv_line l = Some e" "us_list_free s < pool_nodes"
      by fastforce
    then show ?thesis
    proof cases
      case header
      then have c0: "c = 0" by (simp add: csv_header_def)
      have ll: "load_line l0 s c = Some (Continue s (c + 1))"
        using header by (simp add: step(2) Let_def)
      obtain s' c' us' T' where ih: "load_lines rest s (c + 1) = Some (s', c')"
          "loaded s us (c + 1) (csv_lines rest) s' c' us' T'"
        using "1.IH" [OF f refl ll refl "1.prems"(1)] "1.prems"(2) by auto
      have "load_lines data s c = Some (s', c')" using ih(1) by (simp add: step(1) f ll)
      moreover have "loaded s us c (csv_lines data) s' c' us' T'"
        using ih(2) header c0 by (simp add: loaded_def lines)
      ultimately show ?thesis by blast
    next
      case bad
      have ll: "load_line l0 s c = Some (Continue s c)"
        using bad by (simp add: step(2) Let_def)
      obtain s' c' us' T' where ih: "load_lines rest s c = Some (s', c')"
          "loaded s us c (csv_lines rest) s' c' us' T'"
        using "1.IH" [OF f refl ll refl "1.prems"(1)] "1.prems"(2) by auto
      have "load_lines data s c = Some (s', c')" using ih(1) by (simp add: step(1) f ll)
      moreover have "loaded s us c (csv_lines data) s' c' us' T'"
        using ih(2) bad hd by (auto simp: loaded_def lines)
      ultimately show ?thesis by blast
    next
      case full
      have "load_line l0 s c = Some (Break s)"
        using full by (simp add: step(2) Let_def list_alloc_def)
      then have "load_lines data s c = Some (s, c)" by (simp add: step(1) f)
      moreover have "loaded s us c (csv_lines data) s c us T"
        using full hd "1.prems" by (auto simp: loaded_def lines)
      ultimately show ?thesis by blast
    next
      case good
      obtain u s1 s2 s3 T3 where i: "list_alloc s = Some (u, s1)" "tree_alloc (push_user u e s1) = Some (u, s2)"
          "index_user u u s2 = Some s3" "store_core s3 (u # us) T3" "accounts s3 (u # us) = e # accounts s us"
          "us_list_free s3 = Suc (us_list_free s)"
        using insert_core [OF "1.prems"(1) good(3), of e] by blast
      let ?s = "s3\<lparr>us_size := us_size s3 + 1\<rparr>"
      have ll: "load_line l0 s c = Some (Continue ?s (c + 1))"
        using good i(1-3) by (simp add: step(2) Let_def)
      have core: "store_core ?s (u # us) T3" "accounts ?s (u # us) = e # accounts s us"
        using store_core_cong [OF i(4), of ?s] i(5) by simp_all
      obtain s' c' us' T' where ih: "load_lines rest ?s (c + 1) = Some (s', c')"
          "loaded ?s (u # us) (c + 1) (csv_lines rest) s' c' us' T'"
        using "1.IH" [OF f refl ll refl core(1)] "1.prems"(2) by auto
      have "load_lines data s c = Some (s', c')" using ih(1) by (simp add: step(1) f ll)
      moreover have "pool_nodes - us_list_free s = Suc (pool_nodes - us_list_free ?s)"
        using good(3) i(6) by simp
      then have "loaded s us c (csv_lines data) s' c' us' T'"
        using ih(2) good(1,2) hd core(2) "1.prems"(2) by (auto simp: loaded_def lines)
      ultimately show ?thesis by blast
    qed
  qed
qed

lemma accounts_Nil [simp]: "accounts s [] = []"
  by (simp add: accounts_def)

lemma length_accounts [simp]: "length (accounts s us) = length us"
  by (simp add: accounts_def)

lemma find_accounts: "find (\<lambda>u. P (ln_data (us_list s u))) us = None \<longleftrightarrow> \<not> (\<exists>e \<in> set (accounts s us). P e)"
  by (auto simp: find_None_iff accounts_def)

lemma map_find_accounts:
  "map_option (\<lambda>u. ln_data (us_list s u)) (find (\<lambda>u. P (ln_data (us_list s u))) us) = find P (accounts s us)"
  by (induction us) (auto simp: accounts_def)

lemma walk_accounts:
  assumes "store_core s us T"
  shows "list_walk (us_list s) (\<lambda>n. ln_used n \<and> P (ln_data n)) (first_node s) 0 =
    Some (find (\<lambda>u. P (ln_data (us_list s u))) us,
      length (takeWhile (\<lambda>u. \<not> P (ln_data (us_list s u))) us)
        + (if find (\<lambda>u. P (ln_data (us_list s u))) us = None then 0 else 1))"
proof -
  have u: "\<forall>u \<in> set us. ln_used (us_list s u)" "lchain (us_list s) (first_node s) us"
    using assms by (auto simp: store_core_def)
  have "find (\<lambda>u. ln_used (us_list s u) \<and> P (ln_data (us_list s u))) us = find (\<lambda>u. P (ln_data (us_list s u))) us"
    by (rule find_cong) (use u in auto)
  moreover have "takeWhile (\<lambda>u. \<not> (ln_used (us_list s u) \<and> P (ln_data (us_list s u)))) us
      = takeWhile (\<lambda>u. \<not> P (ln_data (us_list s u))) us"
    by (rule takeWhile_cong) (use u in auto)
  ultimately show ?thesis using u by (simp add: list_walk_correct)
qed

subsection \<open>Properties\<close>

definition blank_region :: store where
  \<comment> \<open>freshly mapped memory\<close>
  "blank_region = \<lparr>us_list = (\<lambda>_. \<lparr>ln_data = no_elem, ln_next = None, ln_used = False\<rparr>), us_list_free = 0,
     us_tree = \<lparr>bt_root = 0, bt_size = 0, bt_node = (\<lambda>_. empty_node)\<rparr>, us_tree_free = 0, us_size = 0, us_root = 0\<rparr>"

text \<open>
  C27: loading a user file into a fresh region always ends and leaves a well-formed store: its
  accounts are the users that the lines define, newest first, as many as the pool holds; the
  recorded size counts the header line as a user.
\<close>
theorem user_store_load_csv_accounts:
  "\<exists>s' us T. user_store_load_csv False (Some data) s = Some s' \<and> store_inv s' us T
    \<and> accounts s' us = rev (take (pool_nodes - 1) (csv_users True (csv_lines data)))
    \<and> us_size s' = int (length us) + (if csv_titled (csv_lines data) then 1 else 0)"
proof -
  let ?i = "user_store_shm_init s"
  let ?j = "?i\<lparr>us_tree := (us_tree ?i)\<lparr>bt_root := us_root ?i\<rparr>\<rparr>"
  have "us_tree ?j = us_tree ?i" using store_inv_init [of s] by (simp add: store_inv_def)
  then have core: "store_core ?j [] Leaf"
    using store_core_cong(1) [of ?i "[]" Leaf ?j] store_inv_init [of s] by (simp add: store_inv_def)
  obtain s' c' us T where l: "load_lines data ?j 0 = Some (s', c')" "loaded ?j [] 0 (csv_lines data) s' c' us T"
    using load_lines_correct [OF core, of 0 data] by auto
  let ?s = "s'\<lparr>us_root := bt_root (us_tree s'), us_size := c'\<rparr>"
  have "store_core s' us T" using l(2) by (simp add: loaded_def)
  then have "store_inv ?s us T" "accounts ?s us = accounts s' us"
    using store_core_cong [of s' us T ?s] by (simp_all add: store_inv_def)
  moreover have "user_store_load_csv False (Some data) s = Some ?s"
    using l(1) by (simp add: user_store_load_csv_def user_store_shm_load_csv_def Let_def)
  moreover have "accounts ?j [] = []" by (simp add: accounts_def)
  ultimately show ?thesis using l(2) init_free [of s] unfolding loaded_def by (intro exI [of _ ?s] exI) simp
qed

text \<open>
  C3: adding a user refines its meaning for the accounts, on every branch: a malformed line and
  a full pool give -1 and change nothing, a name in use gives 1 and changes nothing, and otherwise
  the account is put in front and the store stays well formed.
\<close>
theorem user_store_add_refines:
  assumes "store_inv s us T"
  shows "\<exists>r s' us' T'. user_store_add line s = Some (r, s') \<and> store_inv s' us' T'
    \<and> (r, accounts s' us') = add_account (us_list_free s < pool_nodes) line (accounts s us)"
  by (rule add_correct) (rule assms)

definition ann :: elem where
  "ann = \<lparr>el_name = ''ann'', el_password = ''pw'', el_birthdate = ''1990'', el_phone = [], el_mobile = [], el_email = []\<rparr>"

lemma add_ann: "add_account True ''ann,pw,1990'' [] = (0, [ann])"
  by code_simp

lemma user_store_add_refines_witness:
  "\<exists>s' us'. user_store_add ''ann,pw,1990'' (user_store_shm_init blank_region) = Some (0, s')
    \<and> accounts s' us' = [ann]"
  using user_store_add_refines [OF store_inv_init, of "''ann,pw,1990''" blank_region] add_ann
  by (auto simp: init_free pool_nodes_def)

lemma find_agrees:
  assumes "store_inv s us T"
  shows "\<exists>r r'. user_store_find s name = Some r \<and> user_store_find_index s name = Some r'
    \<and> (r = None \<longleftrightarrow> r' = None) \<and> (r = None \<longleftrightarrow> name \<notin> el_name ` set (accounts s us))
    \<and> (\<forall>u. r = Some u \<longrightarrow> name_of s u = name) \<and> (\<forall>u. r' = Some u \<longrightarrow> name_of s u = name)
    \<and> (distinct (map (name_of s) us) \<longrightarrow> r = r')"
proof -
  have core: "store_core s us T" and ix: "index_inv (name_of s) (us_tree s) T"
    and m: "set (index_users (us_tree s) T) = set us"
    using assms unfolding store_inv_def store_core_def by (auto dest: mset_eq_setD)
  let ?r = "find (\<lambda>u. name_of s u = name) us"
  have index: "\<exists>r' k. bst_find_with_steps nm t n = Some (r', k) \<and> bst_find nm t n = Some r'
      \<and> (case r' of None \<Rightarrow> n \<notin> nm ` set (index_users t S)
         | Some u \<Rightarrow> u \<in> set (index_users t S) \<and> nm u = n)" if "index_inv nm t S" for nm t S n
    using find_loop_correct [of t g_nil "bt_root t" S nm n 0] that
    by (auto simp: index_inv_def holds_def at_hole_def bst_find_def bst_find_with_steps_def)
  obtain r' where r': "user_store_find_index s name = Some r'"
      "case r' of None \<Rightarrow> name \<notin> name_of s ` set us | Some u \<Rightarrow> u \<in> set us \<and> name_of s u = name"
    using index [OF ix, of name] unfolding m user_store_find_index_def by blast
  have r: "?r = None \<longleftrightarrow> name \<notin> name_of s ` set us" "\<And>u. ?r = Some u \<Longrightarrow> u \<in> set us \<and> name_of s u = name"
    by (auto simp: find_None_iff find_Some_iff)
  have "?r = None \<longleftrightarrow> r' = None" using r r'(2) by (auto split: option.splits)
  moreover have "?r = r'" if "distinct (map (name_of s) us)"
  proof (cases ?r)
    case None
    then show ?thesis using r(1) r'(2) by (auto split: option.splits)
  next
    case (Some u)
    moreover obtain v where "r' = Some v" "v \<in> set us" "name_of s v = name"
      using Some r(2) r'(2) by (cases r') auto
    moreover have "inj_on (name_of s) (set us)" using that by (simp add: distinct_map)
    ultimately show ?thesis using r(2) by (metis inj_onD)
  qed
  moreover have "el_name ` set (accounts s us) = name_of s ` set us"
    by (auto simp: accounts_def name_of_def)
  moreover have "\<forall>u. r' = Some u \<longrightarrow> name_of s u = name" using r'(2) by auto
  ultimately show ?thesis
    unfolding find_user [OF core, of name] r'(1) using r by (intro exI [of _ ?r] exI [of _ r']) simp
qed

text \<open>
  C28: the list and the index agree.  Both searches end; one finds a user with the name exactly
  when the other does, both of the same name, and the same user when names are distinct.
\<close>
theorem user_store_find_agrees:
  assumes "store_inv s us T"
  shows "\<exists>r r'. user_store_find s name = Some r \<and> user_store_find_index s name = Some r'
    \<and> (r = None \<longleftrightarrow> r' = None) \<and> (r = None \<longleftrightarrow> name \<notin> el_name ` set (accounts s us))
    \<and> (\<forall>u. r = Some u \<longrightarrow> name_of s u = name) \<and> (\<forall>u. r' = Some u \<longrightarrow> name_of s u = name)
    \<and> (distinct (map (name_of s) us) \<longrightarrow> r = r')"
  by (rule find_agrees) (rule assms)

lemma user_store_find_agrees_witness:
  "user_store_find (user_store_shm_init blank_region) ''ann'' = Some None
    \<and> user_store_find_index (user_store_shm_init blank_region) ''ann'' = Some None"
  using user_store_find_agrees [OF store_inv_init, of blank_region "''ann''"] by (auto simp: accounts_def)

text \<open>
  The password check succeeds exactly for the mobile number and password of one account, and
  the name looked up for a login is that of the newest account with this mobile number or name.
\<close>
theorem user_store_auth_iff:
  assumes "store_inv s us T"
  shows "user_store_auth s mobile password
      = Some (\<exists>e \<in> set (accounts s us). el_mobile e = mobile \<and> el_password e = password)
    \<and> user_store_lookup_name s login
      = Some (map_option el_name (find (\<lambda>e. el_mobile e = login \<or> el_name e = login) (accounts s us)))"
proof -
  have core: "store_core s us T" using assms by (simp add: store_inv_def)
  have n: "map_option (name_of s) r = map_option el_name (map_option (\<lambda>u. ln_data (us_list s u)) r)" for r
    by (cases r) (simp_all add: name_of_def)
  let ?auth = "\<lambda>e. el_mobile e = mobile \<and> el_password e = password"
  let ?login = "\<lambda>e. el_mobile e = login \<or> el_name e = login"
  note walk = walk_accounts [OF core, of ?auth] walk_accounts [OF core, of ?login]
    find_accounts [of ?auth s us] map_find_accounts [of s ?login us]
  show ?thesis
    unfolding user_store_auth_def user_store_lookup_name_def strcmp_0 walk option.map prod.case n by simp
qed

text \<open>A user whose line has three fields has an empty mobile number, which logs in.\<close>

lemma user_store_auth_iff_witness:
  "\<exists>s. user_store_auth s [] ''pw'' = Some True \<and> user_store_auth s ''ann'' ''pw'' = Some False"
proof -
  obtain s' us' T' where s: "store_inv s' us' T'" "accounts s' us' = [ann]"
    using add_correct [OF store_inv_init, of "''ann,pw,1990''" blank_region] add_ann
    by (auto simp: init_free pool_nodes_def)
  show ?thesis
    using user_store_auth_iff [OF s(1), of "[]" "''pw''"] user_store_auth_iff [OF s(1), of "''ann''" "''pw''"] s(2)
    by (auto simp: ann_def)
qed

end
