(* ===== verification/User_Store_Delete.thy ===== *)
theory User_Store_Delete
  imports User_Store_Correct User_Index_Delete
begin

text \<open>
  Deletion from the user store.  While no two users share a name, \<open>user_store_delete\<close> refines
  removing the account; a file may define a name twice, and then the list and the index part with
  different users.
\<close>

subsection \<open>The list\<close>

lemma delete_walk_correct:
  assumes "lchain L p us" and "\<forall>u \<in> set us. ln_used (L u)"
  shows "delete_walk L name h p = Some (last (h # takeWhile (\<lambda>u. el_name (ln_data (L u)) \<noteq> name) us),
    find (\<lambda>u. el_name (ln_data (L u)) = name) us)"
  using assms
proof (induction us arbitrary: h p)
  case Nil
  then show ?case by (subst delete_walk.simps) simp
next
  case (Cons u us)
  then show ?case by (subst delete_walk.simps) simp
qed

lemma lchain_unlink:
  assumes "lchain L (ln_next (L h)) (xs @ u # ys)" and "distinct (h # xs @ u # ys)"
  defines "L' \<equiv> (L(last (h # xs) := (L (last (h # xs)))\<lparr>ln_next := ln_next (L u)\<rparr>))"
  shows "lchain L' (ln_next (L' h)) (xs @ ys)"
  using assms(1,2) unfolding L'_def
proof (induction xs arbitrary: h)
  case Nil
  then have "lchain L (ln_next (L u)) ys" by simp
  then show ?case using Nil by (subst lchain_cong [of _ _ L]) auto
next
  case (Cons x xs)
  define w where "w = last (x # xs)"
  have w: "last (h # x # xs) = w" "w \<in> set (x # xs)" using last_in_set [of "x # xs"] by (simp_all add: w_def)
  then have "w \<noteq> h" using Cons.prems(2) by auto
  let ?L = "L(w := (L w)\<lparr>ln_next := ln_next (L u)\<rparr>)"
  have "lchain ?L (ln_next (?L x)) (xs @ ys)"
    unfolding w_def by (rule Cons.IH) (use Cons.prems in auto)
  moreover have "?L h = L h" using \<open>w \<noteq> h\<close> by simp
  moreover have "ln_next (L h) = Some x" using Cons.prems(1) by simp
  ultimately show ?case unfolding w(1) by (simp only: append_Cons lchain.simps)
qed

subsection \<open>Deletion\<close>

definition delete_account :: "string \<Rightarrow> elem list \<Rightarrow> int \<times> elem list" where
  \<comment> \<open>what \<open>user_store_delete\<close> means for the accounts\<close>
  "delete_account name as =
     (if name \<in> el_name ` set as then (0, filter (\<lambda>e. el_name e \<noteq> name) as) else (-1, as))"

lemma name_of_accounts: "map el_name (accounts s us) = map (name_of s) us"
  by (simp add: accounts_def name_of_def)

lemma index_inv_names:
  assumes "index_inv nm t T" and "\<And>u. u \<in> set (index_users t T) \<Longrightarrow> nm' u = nm u"
  shows "index_inv nm' t T"
proof -
  have "map nm' (index_users t T) = map nm (index_users t T)" using assms(2) by simp
  then show ?thesis using assms(1) by (simp add: index_inv_def del: map_map map_eq_conv)
qed

lemma list_unlink_fields:
  "us_list (list_unlink prev cur s) u =
     (if u = cur then (us_list s u)\<lparr>ln_used := False, ln_next := ln_next (us_list (list_unlink prev cur s) u)\<rparr>
      else if u = prev then (us_list s u)\<lparr>ln_next := ln_next (us_list s cur)\<rparr> else us_list s u)"
  "us_tree (list_unlink prev cur s) = us_tree s" "us_list_free (list_unlink prev cur s) = us_list_free s"
  "us_tree_free (list_unlink prev cur s) = us_tree_free s" "us_size (list_unlink prev cur s) = us_size s"
  by (simp_all add: list_unlink_def Let_def)

lemma name_of_unlink: "name_of (list_unlink prev cur s) = name_of s"
  by (auto simp: name_of_def list_unlink_def Let_def)

lemma find_split:
  "find P xs = Some x \<Longrightarrow> \<exists>us vs. xs = us @ x # vs \<and> P x \<and> takeWhile (\<lambda>x. \<not> P x) xs = us"
proof (induction xs)
  case (Cons y xs)
  show ?case
  proof (cases "P y")
    case True
    then show ?thesis using Cons.prems by (intro exI [of _ "[]"] exI [of _ xs]) simp
  next
    case False
    then obtain us vs where "xs = us @ x # vs" "P x" "takeWhile (\<lambda>x. \<not> P x) xs = us"
      using Cons by (simp only: find.simps if_False) blast
    then show ?thesis using False by (intro exI [of _ "y # us"] exI [of _ vs]) simp
  qed
qed simp

lemma delete_correct:
  assumes inv: "store_inv s us T" and dist: "distinct (map (name_of s) us)"
  shows "\<exists>r s' us' T'. user_store_delete name s = Some (r, s') \<and> store_inv s' us' T'
    \<and> (r, accounts s' us') = delete_account name (accounts s us)"
proof (cases "find (\<lambda>u. name_of s u = name) us")
  case None
  have w: "delete_walk (us_list s) name head_node (first_node s)
      = Some (last (head_node # takeWhile (\<lambda>u. name_of s u \<noteq> name) us), None)"
    using delete_walk_correct [of "us_list s" "first_node s" us name head_node] inv None
    by (simp add: store_inv_def store_core_def name_of_def)
  then have "user_store_delete name s = Some (-1, s)" by (simp add: user_store_delete_def)
  moreover have "delete_account name (accounts s us) = (-1, accounts s us)"
    using None find_user_None [of s name us] by (simp add: delete_account_def)
  ultimately show ?thesis using inv by auto
next
  case (Some u)
  obtain xs ys where us: "us = xs @ u # ys" "name_of s u = name" "takeWhile (\<lambda>u. name_of s u \<noteq> name) us = xs"
    using find_split [OF Some] by blast
  have core: "lchain (us_list s) (first_node s) us" "distinct us"
      "\<forall>u \<in> set us. 0 < u \<and> u < us_list_free s \<and> ln_used (us_list s u)"
      "index_inv (name_of s) (us_tree s) T" "mset (index_users (us_tree s) T) = mset us"
      "\<forall>a \<in> addrs T. a < us_tree_free s \<and> bn_used (bt_node (us_tree s) a)"
      "us_list_free s = us_tree_free s" "0 < us_list_free s" "us_list_free s \<le> pool_nodes"
    using inv by (auto simp: store_inv_def store_core_def)
  have iu: "set (index_users (us_tree s) T) = set us" using core(5) by (metis set_mset_mset)
  define prev where "prev = last (head_node # xs)"
  define s1 where "s1 = list_unlink prev u s"
  have w: "delete_walk (us_list s) name head_node (first_node s) = Some (prev, Some u)"
    using delete_walk_correct [OF core(1), of name head_node] core(3) us Some by (simp add: name_of_def prev_def)
  have nm: "name_of s1 = name_of s" by (simp add: s1_def name_of_unlink)
  have "name \<in> name_of s ` set (index_users (us_tree s) T)" using iu us by auto
  then obtain t' T' us0 v vs z where d: "bst_delete (name_of s) name (us_tree s) = Some (0, t')"
      "index_inv (name_of s) t' T'" "index_users (us_tree s) T = us0 @ v # vs" "name_of s v = name"
      "index_users t' T' = us0 @ vs" "addrs T' = addrs T - {z}" "frees_node z (us_tree s) t'"
    using index_delete [OF core(4), of name] by auto
  let ?s = "s1\<lparr>us_tree := t', us_size := us_size s1 - 1, us_root := bt_root t'\<rparr>"
  have del: "user_store_delete name s = Some (0, ?s)"
    using w d(1) nm by (simp add: user_store_delete_def s1_def [symmetric] Let_def) (simp add: s1_def list_unlink_fields)
  have "v \<in> set us" using d(3) iu by auto
  then have "v = u" using dist d(4) us by (auto simp: distinct_map inj_on_def)
  then have m: "mset (index_users t' T') = mset (xs @ ys)" using core(5) us(1) d(3,5) by simp
  have "prev \<in> insert head_node (set xs)" by (simp add: prev_def)
  then have pr: "prev \<noteq> u" "prev \<notin> set ys"
    using core(2,3) us(1) by auto
  have "lchain (us_list ?s) (first_node ?s) (xs @ ys)"
  proof -
    let ?L = "(us_list s)(prev := (us_list s prev)\<lparr>ln_next := ln_next (us_list s u)\<rparr>)"
    have "distinct (head_node # xs @ u # ys)" using core(2,3) us(1) by auto
    then have c: "lchain ?L (ln_next (?L head_node)) (xs @ ys)"
      using lchain_unlink [of "us_list s" head_node xs u ys] core(1) us(1) by (simp add: prev_def first_node_def)
    have e: "ln_next (us_list s1 a) = ln_next (?L a)" for a
      using pr by (auto simp: s1_def list_unlink_def Let_def)
    show ?thesis using c lchain_cong [of "xs @ ys" "us_list s1" ?L] e by (simp add: first_node_def)
  qed
  moreover have "ln_used (us_list ?s a)" if "a \<in> set (xs @ ys)" for a
    using that core(2,3) us(1) by (auto simp: s1_def list_unlink_def Let_def)
  moreover have "name_of ?s = name_of s" using nm by (simp add: name_of_def fun_eq_iff)
  moreover have "\<forall>a \<in> addrs T'. a < us_tree_free s \<and> bn_used (bt_node t' a)"
    using core(6) d(6,7) by (auto simp: frees_node_def)
  ultimately have "store_inv ?s (xs @ ys) T'"
    using core(2,3,7,8,9) d(2) m us(1)
    by (auto simp: store_inv_def store_core_def s1_def list_unlink_fields)
  moreover have "accounts ?s (xs @ ys) = filter (\<lambda>e. el_name e \<noteq> name) (accounts s us)"
  proof -
    have da: "ln_data (us_list s1 a) = ln_data (us_list s a)" for a
      by (simp add: s1_def list_unlink_def Let_def)
    have "\<forall>a \<in> set (xs @ ys). name_of s a \<noteq> name" using dist us by (auto simp: image_iff)
    then show ?thesis using us(1,2) by (simp add: accounts_def da name_of_def filter_id_conv)
  qed
  moreover have "name \<in> el_name ` set (accounts s us)" using find_user_None [of s name us] Some by auto
  ultimately show ?thesis using del by (auto simp: delete_account_def)
qed

lemma delete_account_names: "snd (delete_account name as) = filter (\<lambda>e. el_name e \<noteq> name) as"
  by (auto simp: delete_account_def intro!: filter_True [symmetric])

lemma distinct_delete: "distinct (map el_name as) \<Longrightarrow> distinct (map el_name (snd (delete_account name as)))"
  by (simp add: delete_account_names distinct_map_filter)

lemma distinct_add: "distinct (map el_name as) \<Longrightarrow> distinct (map el_name (snd (add_account room line as)))"
  by (auto simp: add_account_def split: option.splits)

text \<open>
  C4: deleting a user refines its meaning for the accounts, while their names are distinct: it always
  ends, keeps the store well formed (list, index and header), removes the one account with the name
  and returns 0, or returns -1 and changes nothing when there is none; the names stay distinct.
\<close>
theorem user_store_delete_refines:
  assumes "store_inv s us T" and "distinct (map el_name (accounts s us))"
  shows "\<exists>r s' us' T'. user_store_delete name s = Some (r, s') \<and> store_inv s' us' T'
    \<and> (r, accounts s' us') = delete_account name (accounts s us)
    \<and> distinct (map el_name (accounts s' us'))"
proof -
  obtain r s' us' T' where d: "user_store_delete name s = Some (r, s')" "store_inv s' us' T'"
      "(r, accounts s' us') = delete_account name (accounts s us)"
    using delete_correct [OF assms(1)] assms(2) unfolding name_of_accounts by blast
  have "accounts s' us' = snd (delete_account name (accounts s us))" by (simp flip: d(3))
  then show ?thesis using d distinct_delete [OF assms(2)] by metis
qed

lemma user_store_delete_refines_witness:
  "\<exists>s s' us' T'. user_store_delete ''ann'' s = Some (0, s') \<and> store_inv s' us' T' \<and> accounts s' us' = []"
proof -
  obtain s us T where s: "store_inv s us T" "accounts s us = [ann]"
    using add_correct [OF store_inv_init, of "''ann,pw,1990''" blank_region] add_ann
    by (auto simp: init_free pool_nodes_def)
  show ?thesis
    using user_store_delete_refines [OF s(1), of "''ann''"] s(2)
    by (fastforce simp: delete_account_def ann_def)
qed

end
