(* ===== verification/User_Store_Twice.thy ===== *)
theory User_Store_Twice
  imports User_Store_Delete "HOL-Library.Code_Target_Nat"
begin

text \<open>
  A file that defines a name twice.  Loading does not look for the name, so that both users are
  stored; deleting the name takes the newer one out of the list and the older one out of the index.
  The state after loading is computed from the definitions, whose loops get their equations for this.
\<close>

lemmas loop_equations [code] =
  fixup_loop.simps descend.simps fgets.simps load_lines.simps











end
