(* ===== verification/Account_Store.thy ===== *)
theory Account_Store
  imports User_Store_Delete
begin

text \<open>
  What the command line and the request handlers rely on when they change users: the locale
  \<open>account_store\<close> is the contract of a store that stands for a list of accounts, and a sequence of
  changes means the same on both.  The user store meets the contract.
\<close>

subsection \<open>The contract\<close>

datatype edit = Add_User string | Delete_User string

fun account_edit :: "edit \<Rightarrow> elem list \<Rightarrow> int \<times> elem list" where
  "account_edit (Add_User line) as = add_account True line as"
| "account_edit (Delete_User name) as = delete_account name as"

fun account_edits :: "edit list \<Rightarrow> elem list \<Rightarrow> int list \<times> elem list" where
  "account_edits [] as = ([], as)"
| "account_edits (e # es) as =
     (case account_edit e as of (rc, as) \<Rightarrow> apfst ((#) rc) (account_edits es as))"

lemma distinct_account_edit: "distinct (map el_name as) \<Longrightarrow> distinct (map el_name (snd (account_edit e as)))"
  by (cases e) (simp_all add: distinct_add distinct_delete)

locale account_store =
  fixes stands_for :: "'s \<Rightarrow> elem list \<Rightarrow> bool" and places :: "'s \<Rightarrow> nat"
    and add :: "string \<Rightarrow> 's \<Rightarrow> (int \<times> 's) option" and delete :: "string \<Rightarrow> 's \<Rightarrow> (int \<times> 's) option"
    and lookup :: "'s \<Rightarrow> string \<Rightarrow> bool option" and index_lookup :: "'s \<Rightarrow> string \<Rightarrow> bool option"
  assumes add_law: "stands_for s as \<Longrightarrow> \<exists>s'. add line s = Some (fst (add_account (0 < places s) line as), s')
      \<and> stands_for s' (snd (add_account (0 < places s) line as)) \<and> places s \<le> places s' + 1"
    and delete_law: "stands_for s as \<Longrightarrow> distinct (map el_name as) \<Longrightarrow>
      \<exists>s'. delete name s = Some (fst (delete_account name as), s')
        \<and> stands_for s' (snd (delete_account name as)) \<and> places s' = places s"
    and lookup_law: "stands_for s as \<Longrightarrow> lookup s name = Some (name \<in> el_name ` set as)"
    and index_law: "stands_for s as \<Longrightarrow> index_lookup s name = Some (name \<in> el_name ` set as)"
begin

definition edit :: "edit \<Rightarrow> 's \<Rightarrow> (int \<times> 's) option" where
  "edit e = (case e of Add_User line \<Rightarrow> add line | Delete_User name \<Rightarrow> delete name)"

fun edits :: "edit list \<Rightarrow> 's \<Rightarrow> (int list \<times> 's) option" where
  "edits [] s = Some ([], s)"
| "edits (e # es) s =
     Option.bind (edit e s) (\<lambda>(rc, s). map_option (apfst ((#) rc)) (edits es s))"

lemma edit_refines:
  assumes "stands_for s as" "distinct (map el_name as)" "0 < places s"
  shows "\<exists>s'. edit e s = Some (fst (account_edit e as), s') \<and> stands_for s' (snd (account_edit e as))
    \<and> places s \<le> places s' + 1"
proof (cases e)
  case (Add_User line)
  then show ?thesis using add_law [OF assms(1), of line] assms(3) by (simp add: edit_def)
next
  case (Delete_User name)
  then show ?thesis using delete_law [OF assms(1,2), of name] by (auto simp: edit_def)
qed

lemma edits_refine:
  assumes "stands_for s as" "distinct (map el_name as)" "length es \<le> places s"
  shows "\<exists>s'. edits es s = Some (fst (account_edits es as), s') \<and> stands_for s' (snd (account_edits es as))"
  using assms
proof (induction es arbitrary: s as)
  case (Cons e es)
  obtain s1 where s1: "edit e s = Some (fst (account_edit e as), s1)" "stands_for s1 (snd (account_edit e as))"
      "places s \<le> places s1 + 1"
    using edit_refines [OF Cons.prems(1,2), of e] Cons.prems(3) by auto
  obtain s' where "edits es s1 = Some (fst (account_edits es (snd (account_edit e as))), s')"
      "stands_for s' (snd (account_edits es (snd (account_edit e as))))"
    using Cons.IH [OF s1(2) distinct_account_edit [OF Cons.prems(2)]] s1(3) Cons.prems(3) by auto
  then show ?case using s1(1) by (simp add: case_prod_beta)
qed simp

text \<open>Both lookups find the users that are left.\<close>

lemma lookup_after_edits:
  assumes "stands_for s as" "distinct (map el_name as)" "length es \<le> places s"
  shows "\<exists>rcs s'. edits es s = Some (rcs, s') \<and> lookup s' name = index_lookup s' name
    \<and> lookup s' name = Some (name \<in> el_name ` set (snd (account_edits es as)))"
proof -
  obtain s' where "edits es s = Some (fst (account_edits es as), s')" "stands_for s' (snd (account_edits es as))"
    using edits_refine [OF assms] by blast
  then show ?thesis using lookup_law index_law by simp
qed

end

subsection \<open>The user store\<close>

definition stands_for :: "store \<Rightarrow> elem list \<Rightarrow> bool" where
  "stands_for s as \<longleftrightarrow> (\<exists>us T. store_inv s us T \<and> accounts s us = as)"

definition places :: "store \<Rightarrow> nat" where
  \<comment> \<open>nodes that are left in the pools\<close>
  "places s = pool_nodes - us_list_free s"

lemma stands_for_init: "stands_for (user_store_shm_init s) []"
  using store_inv_init [of s] by (auto simp: stands_for_def accounts_def)

definition store_has :: "store \<Rightarrow> string \<Rightarrow> bool option" where
  "store_has s name = map_option (\<lambda>r. r \<noteq> None) (user_store_find s name)"

definition index_has :: "store \<Rightarrow> string \<Rightarrow> bool option" where
  "index_has s name = map_option (\<lambda>r. r \<noteq> None) (user_store_find_index s name)"

lemma add_list_free:
  "user_store_add line s = Some (rc, s') \<Longrightarrow> us_list_free s \<le> us_list_free s' \<and> us_list_free s' \<le> us_list_free s + 1"
  by (auto simp: user_store_add_def list_alloc_def tree_alloc_def push_user_def index_user_def Let_def
      split: option.splits if_splits bind_splits)

lemma delete_list_free: "user_store_delete name s = Some (rc, s') \<Longrightarrow> us_list_free s' = us_list_free s"
  by (auto simp: user_store_delete_def list_unlink_fields Let_def split: option.splits bind_splits)

interpretation users: account_store stands_for places user_store_add user_store_delete store_has index_has
proof
  fix s as line
  assume "stands_for s as"
  then obtain us T where s: "store_inv s us T" "accounts s us = as" by (auto simp: stands_for_def)
  obtain r s' us' T' where a: "user_store_add line s = Some (r, s')" "store_inv s' us' T'"
      "(r, accounts s' us') = add_account (us_list_free s < pool_nodes) line as"
    using add_correct [OF s(1), of line] s(2) by blast
  have "(0 < places s) = (us_list_free s < pool_nodes)" by (simp add: places_def)
  moreover have "places s \<le> places s' + 1" using add_list_free [OF a(1)] unfolding places_def by arith
  ultimately show "\<exists>s'. user_store_add line s = Some (fst (add_account (0 < places s) line as), s')
      \<and> stands_for s' (snd (add_account (0 < places s) line as)) \<and> places s \<le> places s' + 1"
    using a(1,2) by (auto simp: stands_for_def simp flip: a(3))
next
  fix s as name
  assume "stands_for s as" and dist: "distinct (map el_name as)"
  then obtain us T where s: "store_inv s us T" "accounts s us = as" by (auto simp: stands_for_def)
  obtain r s' us' T' where d: "user_store_delete name s = Some (r, s')" "store_inv s' us' T'"
      "(r, accounts s' us') = delete_account name as"
    using delete_correct [OF s(1), of name] dist s(2) name_of_accounts [of s us] by metis
  then show "\<exists>s'. user_store_delete name s = Some (fst (delete_account name as), s')
      \<and> stands_for s' (snd (delete_account name as)) \<and> places s' = places s"
    using delete_list_free [OF d(1)] by (auto simp: stands_for_def places_def simp flip: d(3))
next
  fix s as name
  assume "stands_for s as"
  then obtain us T where s: "store_inv s us T" "accounts s us = as" by (auto simp: stands_for_def)
  obtain r r' where f: "user_store_find s name = Some r" "user_store_find_index s name = Some r'"
      "r = None \<longleftrightarrow> r' = None" "r = None \<longleftrightarrow> name \<notin> el_name ` set as"
    using find_agrees [OF s(1), of name] s(2) by auto
  then have "r \<noteq> None \<longleftrightarrow> name \<in> el_name ` set as" "r' \<noteq> None \<longleftrightarrow> name \<in> el_name ` set as" by auto
  then show "store_has s name = Some (name \<in> el_name ` set as)" "index_has s name = Some (name \<in> el_name ` set as)"
    using f(1,2) by (simp_all only: store_has_def index_has_def option.map)
qed

end
