(* ===== verification/User_Search.thy ===== *)
theory User_Search
  imports User_Store_Correct
begin

text \<open>
  The listings in index order and the search by several fields: what a listing holds when it fits
  its buffer, that it never overruns it, and the meaning of the match against the criteria.
\<close>

subsection \<open>Matching\<close>

definition contains_ci :: "string \<Rightarrow> string \<Rightarrow> bool" where
  "contains_ci txt q \<longleftrightarrow> sublist (map tolower_c q) (map tolower_c txt)"

lemma match_here_prefix: "match_here p q \<longleftrightarrow> prefix (map tolower_c q) (map tolower_c p)"
  by (induction p q rule: match_here.induct) auto

lemma contains_from_sublist:
  "q \<noteq> [] \<Longrightarrow> contains_from t q \<longleftrightarrow> contains_ci t q"
  by (induction t q rule: contains_from.induct)
    (auto simp: contains_ci_def match_here_prefix sublist_Cons_right)

lemma str_contains_ci: "str_contains txt q \<longleftrightarrow> contains_ci txt q"
proof (cases "length q > length txt")
  case True
  then have "\<not> contains_ci txt q"
    unfolding contains_ci_def using sublist_length_le by fastforce
  then show ?thesis using True by (auto simp: str_contains_def)
next
  case False
  then show ?thesis
    by (auto simp: str_contains_def contains_from_sublist contains_ci_def)
qed

definition criteria_hold :: "elem \<Rightarrow> search_criteria \<Rightarrow> bool" where
  "criteria_hold d c \<longleftrightarrow> contains_ci (el_name d) (sc_name c) \<and> contains_ci (el_phone d) (sc_phone c)
     \<and> contains_ci (el_mobile d) (sc_mobile c) \<and> contains_ci (el_email d) (sc_email c)"

lemma contains_ci_Nil [simp]: "contains_ci txt []"
  by (simp add: contains_ci_def)

lemma criteria_match_holds: "criteria_match d c = criteria_hold d c"
  by (auto simp: criteria_match_def criteria_hold_def str_contains_ci)

subsection \<open>Listings\<close>

definition listing_ok :: "nat \<Rightarrow> listing \<Rightarrow> bool" where
  "listing_ok n b \<longleftrightarrow> ls_offset b \<le> length (ls_buf b) \<and> length (ls_buf b) < n"

lemma emit_ok: "listing_ok n b \<Longrightarrow> listing_ok n (emit n txt b)"
  by (auto simp: listing_ok_def emit_def Let_def snprintf_to_def)

lemma listing_ok_total [simp]: "listing_ok n (b\<lparr>ls_total := k\<rparr>) = listing_ok n b"
  by (simp add: listing_ok_def)

definition whole :: "listing \<Rightarrow> bool" where
  \<comment> \<open>no piece was cut off\<close>
  "whole b \<longleftrightarrow> ls_offset b = length (ls_buf b)"

definition append_piece :: "string \<Rightarrow> listing \<Rightarrow> listing" where
  "append_piece txt b = b\<lparr>ls_buf := ls_buf b @ txt, ls_offset := ls_offset b + length txt\<rparr>"

lemma emit_whole:
  "whole b \<Longrightarrow> ls_offset b + length txt < n \<Longrightarrow> emit n txt b = append_piece txt b"
  by (auto simp: whole_def emit_def append_piece_def Let_def snprintf_to_def)

definition pieces :: "store \<Rightarrow> (elem \<Rightarrow> string option) \<Rightarrow> ctree \<Rightarrow> string list" where
  "pieces s piece T = List.map_filter (\<lambda>a. Option.bind (visible_user s a) piece) (addr_list T)"

lemma pieces_Node:
  "pieces s piece (Node l (a, c) r) = pieces s piece l
     @ (case Option.bind (visible_user s a) piece of None \<Rightarrow> [] | Some txt \<Rightarrow> [txt]) @ pieces s piece r"
  by (simp add: pieces_def List.map_filter_def split: option.splits)

definition listed :: "string list \<Rightarrow> listing \<Rightarrow> listing" where
  "listed ps b = \<lparr>ls_buf = ls_buf b @ concat ps, ls_offset = ls_offset b + length (concat ps),
     ls_total = ls_total b + length ps\<rparr>"

lemma whole_listed: "whole b \<Longrightarrow> whole (listed ps b)"
  by (simp add: whole_def listed_def)

lemma listed_Nil [simp]: "listed [] b = b"
  by (simp add: listed_def)

lemma listed_append: "listed (ps @ qs) b = listed qs (listed ps b)"
  by (simp add: listed_def)

lemma emit_users_ends:
  "rep (us_tree s) q x T \<Longrightarrow> \<exists>b'. emit_users s n margin piece x b = Some b' \<and> (listing_ok n b \<longrightarrow> listing_ok n b')"
proof (induction T arbitrary: q x b rule: addrs.induct)
  case 1
  then show ?case by (subst emit_users.simps) simp
next
  case (2 l a c r)
  then have x: "x = a" "x \<noteq> g_nil" by auto
  show ?case
  proof (cases "int n - int margin \<le> int (ls_offset b)")
    case True
    then show ?thesis by (subst emit_users.simps) simp
  next
    case False
    obtain b1 where b1: "emit_users s n margin piece (left_of (us_tree s) a) b = Some b1"
        "listing_ok n b \<longrightarrow> listing_ok n b1"
      using "2.IH"(1) [of a "left_of (us_tree s) a" b] "2.prems" by auto
    let ?b = "case Option.bind (visible_user s a) piece of None \<Rightarrow> b1
      | Some txt \<Rightarrow> emit n txt (b1\<lparr>ls_total := ls_total b1 + 1\<rparr>)"
    obtain b2 where b2: "emit_users s n margin piece (right_of (us_tree s) a) ?b = Some b2"
        "listing_ok n ?b \<longrightarrow> listing_ok n b2"
      using "2.IH"(2) [of a "right_of (us_tree s) a" ?b] "2.prems" by auto
    have "listing_ok n b1 \<longrightarrow> listing_ok n ?b" by (simp add: emit_ok split: option.split)
    then show ?thesis
      using b1 b2 x False by (subst emit_users.simps) (simp add: Let_def)
  qed
qed

lemma emit_users_fits:
  "rep (us_tree s) q x T \<Longrightarrow> whole b
    \<Longrightarrow> ls_offset b + length (concat (pieces s piece T)) + margin < n
    \<Longrightarrow> emit_users s n margin piece x b = Some (listed (pieces s piece T) b)"
proof (induction T arbitrary: q x b rule: addrs.induct)
  case 1
  then show ?case by (subst emit_users.simps) (simp add: pieces_def List.map_filter_def)
next
  case (2 l a c r)
  then have x: "x = a" "x \<noteq> g_nil" by auto
  let ?mid = "case Option.bind (visible_user s a) piece of None \<Rightarrow> [] | Some txt \<Rightarrow> [txt]"
  let ?b1 = "listed (pieces s piece l) b"
  let ?b2 = "listed ?mid ?b1"
  have fit: "ls_offset b + length (concat (pieces s piece l)) + length (concat ?mid)
      + length (concat (pieces s piece r)) + margin < n"
    using "2.prems"(3) by (simp add: pieces_Node)
  have l: "emit_users s n margin piece (left_of (us_tree s) a) b = Some ?b1"
    using "2.IH"(1) [of a "left_of (us_tree s) a" b] "2.prems" fit by simp
  have w: "whole ?b1" "whole ?b2" using "2.prems"(2) whole_listed by blast+
  have m: "(case Option.bind (visible_user s a) piece of None \<Rightarrow> ?b1
      | Some txt \<Rightarrow> emit n txt (?b1\<lparr>ls_total := ls_total ?b1 + 1\<rparr>)) = ?b2"
  proof (cases "Option.bind (visible_user s a) piece")
    case (Some p)
    have "whole (?b1\<lparr>ls_total := ls_total ?b1 + 1\<rparr>)" using w(1) by (simp add: whole_def)
    then show ?thesis
      using fit Some by (simp add: emit_whole listed_def append_piece_def)
  qed simp
  have "ls_offset ?b2 = ls_offset b + length (concat (pieces s piece l)) + length (concat ?mid)"
    by (simp add: listed_def)
  then have r: "emit_users s n margin piece (right_of (us_tree s) a) ?b2 = Some (listed (pieces s piece r) ?b2)"
    using "2.IH"(2) [of a "right_of (us_tree s) a" ?b2] "2.prems"(1) w(2) fit by simp
  have "\<not> int n - int margin \<le> int (ls_offset b)" using fit by simp
  then show ?case
    using x by (subst emit_users.simps) (simp add: l m r Let_def pieces_Node listed_append)
qed

text \<open>In a well-formed store every node of the index shows its user.\<close>

lemma visible_in_index:
  assumes "store_core s us T" and "a \<in> addrs T"
  shows "visible_user s a = Some (ln_data (us_list s (user_at (us_tree s) a)))"
proof -
  have i: "index_inv (name_of s) (us_tree s) T" "set (index_users (us_tree s) T) = set us"
    using assms(1) unfolding store_core_def by (auto dest: mset_eq_setD)
  obtain u where u: "bn_user (bt_node (us_tree s) a) = Some u"
    using i(1) assms(2) by (auto simp: index_inv_def)
  have "set (index_users (us_tree s) T) = user_at (us_tree s) ` addrs T"
    by (simp only: index_users_def set_map flip: set_addr_list)
  then have "u \<in> set us"
    using i(2) assms(2) u by (force simp: user_at_def)
  then show ?thesis
    using assms u by (auto simp: visible_user_def user_at_def store_core_def Let_def)
qed

definition index_accounts :: "store \<Rightarrow> ctree \<Rightarrow> elem list" where
  \<comment> \<open>the accounts in name order\<close>
  "index_accounts s T = map (\<lambda>u. ln_data (us_list s u)) (index_users (us_tree s) T)"

lemma pieces_accounts:
  assumes "store_core s us T"
  shows "pieces s piece T = List.map_filter piece (index_accounts s T)"
proof -
  have "List.map_filter (\<lambda>a. Option.bind (visible_user s a) piece) as
      = List.map_filter piece (map (\<lambda>a. ln_data (us_list s (user_at (us_tree s) a))) as)"
    if "set as \<subseteq> addrs T" for as
    using that visible_in_index [OF assms] by (induction as) (auto simp: List.map_filter_def)
  then show ?thesis
    using set_addr_list [of T] by (simp add: pieces_def index_accounts_def index_users_def comp_def)
qed

lemma index_accounts_mset:
  assumes "store_core s us T"
  shows "mset (index_accounts s T) = mset (accounts s us) \<and> sorted (map el_name (index_accounts s T))"
proof -
  have "mset (index_users (us_tree s) T) = mset us" "sorted (map (name_of s) (index_users (us_tree s) T))"
    using assms by (auto simp: store_core_def index_inv_def)
  moreover have "el_name \<circ> (\<lambda>u. ln_data (us_list s u)) = name_of s" by (auto simp: name_of_def)
  ultimately show ?thesis
    unfolding index_accounts_def accounts_def mset_map by simp
qed

subsection \<open>Properties\<close>

text \<open>
  The match against the criteria is the conjunction, over the fields given, of
  case-insensitive containment.
\<close>
theorem criteria_match_iff:
  "criteria_match d c \<longleftrightarrow>
     sublist (map tolower_c (sc_name c)) (map tolower_c (el_name d))
     \<and> sublist (map tolower_c (sc_phone c)) (map tolower_c (el_phone d))
     \<and> sublist (map tolower_c (sc_mobile c)) (map tolower_c (el_mobile d))
     \<and> sublist (map tolower_c (sc_email c)) (map tolower_c (el_email d))"
  by (simp add: criteria_match_holds criteria_hold_def contains_ci_def)

definition search_page :: "search_criteria \<Rightarrow> elem list \<Rightarrow> string" where
  \<comment> \<open>the page for a list of hits\<close>
  "search_page c es = search_page_head (criteria_summary c) @ concat (map result_card es)
     @ (if es = [] then no_results else []) @ search_page_foot (length es)"

text \<open>
  C34: a search always ends and leaves a page within its buffer.  When the buffer can hold the
  whole page and 512 bytes more, the page shows exactly the accounts that match, in name order,
  and the result is their number.
\<close>
theorem user_store_search_correct:
  assumes "store_inv s us T" and "es = filter (\<lambda>d. criteria_match d c) (index_accounts s T)"
  shows "\<exists>r page. user_store_search s c n = Some (r, page) \<and> (0 < n \<longrightarrow> length page < n)
    \<and> (length (search_page c es) + 512 < n \<longrightarrow> r = int (length es) \<and> page = search_page c es)
    \<and> mset (index_accounts s T) = mset (accounts s us) \<and> sorted (map el_name (index_accounts s T))"
proof -
  have core: "store_core s us T" using assms(1) by (simp add: store_inv_def)
  then have rep: "rep (us_tree s) g_nil (bt_root (us_tree s)) T"
    by (simp add: store_core_def index_inv_def holds_def at_hole_def)
  let ?h = "search_page_head (criteria_summary c)"
  let ?piece = "\<lambda>d. if criteria_match d c then Some (result_card d) else None"
  let ?b = "\<lparr>ls_buf = ?h, ls_offset = length ?h, ls_total = 0\<rparr>"
  have ps: "pieces s ?piece T = map result_card es"
    unfolding pieces_accounts [OF core] assms(2)
    by (induction "index_accounts s T") (auto simp: List.map_filter_def)
  have facts: "mset (index_accounts s T) = mset (accounts s us)" "sorted (map el_name (index_accounts s T))"
    using index_accounts_mset [OF core] by auto
  show ?thesis
  proof (cases "n \<le> length ?h")
    case True
    then have "user_store_search s c n = Some (-1, snprintf_to n ?h) \<or> n = 0 \<and> user_store_search s c n = Some (-1, [])"
      by (auto simp: user_store_search_def Let_def)
    moreover have "0 < n \<longrightarrow> length (snprintf_to n ?h) < n" by (auto simp: snprintf_to_def min_less_iff_disj)
    moreover have "\<not> length (search_page c es) + 512 < n" using True by (simp add: search_page_def)
    ultimately show ?thesis using facts by auto
  next
    case False
    then have ok: "listing_ok n ?b" "whole ?b" by (auto simp: listing_ok_def whole_def)
    obtain b where b: "search_inorder s c n (bt_root (us_tree s)) ?b = Some b" "listing_ok n b"
      using emit_users_ends [OF rep, of n 512 ?piece ?b] ok by (auto simp: search_inorder_def)
    let ?b1 = "if ls_total b = 0 then emit n no_results b else b"
    let ?b2 = "emit n (search_page_foot (ls_total ?b1)) ?b1"
    have r: "user_store_search s c n = Some (int (ls_total ?b2), ls_buf ?b2)"
      using False b(1) by (simp add: user_store_search_def Let_def)
    have "listing_ok n ?b2" using b(2) by (simp add: emit_ok)
    then have "length (ls_buf ?b2) < n" by (simp add: listing_ok_def)
    moreover have "ls_total ?b2 = length es \<and> ls_buf ?b2 = search_page c es"
      if fit: "length (search_page c es) + 512 < n"
    proof -
      have "length ?h + length (concat (map result_card es)) + 512 < n"
        using fit by (simp add: search_page_def)
      then have "b = listed (map result_card es) ?b"
        using b(1) emit_users_fits [OF rep ok(2), of ?piece 512 n] ps by (simp add: search_inorder_def)
      moreover have "whole b" using calculation whole_listed [OF ok(2)] by simp
      moreover have b1: "ls_offset b = length ?h + length (concat (map result_card es))"
          "ls_total b = length es" "ls_buf b = ?h @ concat (map result_card es)"
        using calculation(1) by (simp_all add: listed_def)
      moreover have "?b1 = append_piece (if es = [] then no_results else []) b"
        using emit_whole [OF \<open>whole b\<close>, of no_results n] b1 fit
        by (auto simp: search_page_def append_piece_def)
      moreover have "whole ?b1" using calculation by (auto simp: whole_def append_piece_def)
      moreover have "?b2 = append_piece (search_page_foot (ls_total ?b1)) ?b1"
        by (rule emit_whole [OF \<open>whole ?b1\<close>])
          (use calculation fit in \<open>auto simp: append_piece_def search_page_def\<close>)
      ultimately show ?thesis by (simp add: append_piece_def search_page_def)
    qed
    ultimately show ?thesis using r facts by auto
  qed
qed

definition any_user :: search_criteria where
  "any_user = \<lparr>sc_name = ''AN'', sc_phone = [], sc_mobile = [], sc_email = []\<rparr>"

lemma user_store_search_correct_witness:
  "\<exists>s us T. store_inv s us T \<and> accounts s us = [ann] \<and>
     user_store_search s any_user (length (search_page any_user [ann]) + 513) = Some (1, search_page any_user [ann])"
proof -
  obtain s us T where s: "store_inv s us T" "accounts s us = [ann]"
    using add_correct [OF store_inv_init, of "''ann,pw,1990''" blank_region] add_ann
    by (auto simp: init_free pool_nodes_def)
  have "mset (index_accounts s T) = mset [ann]"
    using index_accounts_mset [of s us T] s by (simp add: store_inv_def)
  then have "index_accounts s T = [ann]" by (simp add: mset_single_iff)
  moreover have "criteria_match ann any_user" by code_simp
  ultimately show ?thesis
    using user_store_search_correct [OF s(1) refl, of any_user
        "length (search_page any_user [ann]) + 513"] s by auto
qed

end
