(* ===== verification/Config.thy ===== *)
theory Config
  imports Route_Table
begin

text \<open>
  The configuration of \<open>src/config.c\<close> and its choice of a virtual host: \<open>server_block\<close> and
  \<open>server_config\<close> are the structures of \<open>config.h\<close>, without the field \<open>route_table\<close> being a
  pointer (\<open>None\<close> for NULL); the text helpers; and \<open>config_find_server\<close>, which returns the index
  of the server block that answers for a Host header.
\<close>

subsection \<open>Structures\<close>

datatype log_level = LOG_DEBUG | LOG_INFO | LOG_WARNING | LOG_ERROR | LOG_NONE

record server_block =
  sb_host :: string
  sb_port :: int
  sb_root :: string
  sb_access_log :: string
  sb_names :: "string list"  \<comment> \<open>the first \<open>name_count\<close> entries of \<open>server_names\<close>\<close>
  sb_default :: bool

record server_config =
  cf_server_name :: string
  cf_host :: string
  cf_port :: int
  cf_www_root :: string
  cf_user_file :: string
  cf_log_path :: string
  cf_system_log :: string
  cf_access_log :: string
  cf_auth_user_file :: string
  cf_log_level :: log_level
  cf_error_log :: string
  cf_error_log_level :: log_level
  cf_log_max_lines :: int
  cf_log_max_roll_files :: int
  cf_max_connections :: int
  cf_max_request_bytes :: int
  cf_worker_processes :: int
  cf_worker_shutdown_timeout_ms :: int
  cf_servers :: "server_block list"
  cf_route_table :: "route_table option"
  cf_root :: string
  cf_data_path :: string

abbreviation MAX_SERVER_BLOCKS :: nat where "MAX_SERVER_BLOCKS \<equiv> 16"
abbreviation MAX_SERVER_NAMES :: nat where "MAX_SERVER_NAMES \<equiv> 8"
abbreviation MAX_SERVER_NAME_LEN :: nat where "MAX_SERVER_NAME_LEN \<equiv> 128"

subsection \<open>Text helpers\<close>

definition trim :: "string \<Rightarrow> string" where
  "trim s = rtrim_keep1 isspace_c (dropWhile isspace_c s)"

definition strip_semicolon :: "string \<Rightarrow> string" where
  \<comment> \<open>one semicolon at the end\<close>
  "strip_semicolon s = (if s = [] then s else if last s = CHR '';'' then butlast s else s)"

definition config_remove_newline :: "string \<Rightarrow> string" where
  "config_remove_newline s = takeWhile (\<lambda>c. c \<noteq> CR \<and> c \<noteq> LF) s"

lemma trim_id: "s = [] \<or> \<not> isspace_c (hd s) \<and> \<not> isspace_c (last s) \<Longrightarrow> trim s = s"
  by (cases s) (auto simp: trim_def rtrim_keep1_id)

subsection \<open>The virtual host for a Host header\<close>

definition default_block :: "server_block list \<Rightarrow> nat" where
  \<comment> \<open>the first block with the default flag, else the first block\<close>
  "default_block sbs =
     (case filter (\<lambda>i. sb_default (sbs ! i)) [0..<length sbs] of [] \<Rightarrow> 0 | i # _ \<Rightarrow> i)"

definition block_answers :: "string \<Rightarrow> server_block \<Rightarrow> bool" where
  \<comment> \<open>the body of the matching loop: a block without names matches anything\<close>
  "block_answers host sb \<longleftrightarrow>
     sb_names sb = [] \<or> list_ex (\<lambda>n. strcasecmp_safe host n = 0) (sb_names sb)"

definition config_find_server :: "server_config option \<Rightarrow> string option \<Rightarrow> nat option" where
  \<comment> \<open>the configuration is the argument, or the global one where the code passes NULL\<close>
  "config_find_server config host_header =
     (case config of
        None \<Rightarrow> None
      | Some cf \<Rightarrow>
          let sbs = cf_servers cf
          in if sbs = [] then None
             else case host_header of
                 None \<Rightarrow> Some (default_block sbs)
               | Some h \<Rightarrow>
                   if h = [] then Some (default_block sbs)
                   else (let host = cut_at (CHR '':'') (copy_text MAX_SERVER_NAME_LEN h)
                         in case filter (\<lambda>i. block_answers host (sbs ! i)) [0..<length sbs] of
                              i # _ \<Rightarrow> Some i
                            | [] \<Rightarrow> Some (default_block sbs)))"

definition config_get_route_table :: "server_config option \<Rightarrow> route_table option" where
  "config_get_route_table config = Option.bind config cf_route_table"

end
