(* ===== verification/Request.thy ===== *)
theory Request
  imports Prelude Http_Parser
begin

text \<open>
  How \<open>src/request_handler.c\<close> reads a request: \<open>request\<close> is the structure \<open>request_t\<close>; the
  request line, the body and the headers are cut out of the bytes received; form values and path
  segments are decoded and validated.  \<open>raw\<close> is what one \<open>recv\<close> put into \<open>recv_buf\<close>, without the
  NUL byte stored behind it.
\<close>

record request =
  rq_method :: string
  rq_path :: string
  rq_body :: string
  rq_major :: int
  rq_minor :: int
  rq_keep_alive :: int
  rq_content_type :: string
  rq_content_length :: int
  rq_authorization :: string
  rq_cookie :: string

definition zero_request :: request where
  \<comment> \<open>\<open>memset(&req, 0, sizeof(req))\<close>\<close>
  "zero_request = \<lparr>rq_method = [], rq_path = [], rq_body = [], rq_major = 0, rq_minor = 0,
     rq_keep_alive = 0, rq_content_type = [], rq_content_length = 0, rq_authorization = [], rq_cookie = []\<rparr>"

definition scan_word :: "nat \<Rightarrow> string \<Rightarrow> (string \<times> string) option" where
  \<comment> \<open>one conversion \<open>%<n>s\<close> of \<open>sscanf\<close>: the word and what follows\<close>
  "scan_word n s =
     (let s = dropWhile isspace_c s;
          w = take n (takeWhile (\<lambda>c. \<not> isspace_c c) s)
      in if w = [] then None else Some (w, drop (length w) s))"

definition request_handler_parse :: "string \<Rightarrow> request option" where
  "request_handler_parse line =
     Option.bind (scan_word 15 line) (\<lambda>(meth, rest).
       Option.bind (scan_word 255 rest) (\<lambda>(path, _).
         Some (zero_request\<lparr>rq_method := copy_text 16 meth, rq_path := copy_text 256 path\<rparr>)))"

definition request_handler_set_body :: "string \<Rightarrow> request \<Rightarrow> request" where
  "request_handler_set_body body req = req\<lparr>rq_body := copy_text 512 body\<rparr>"

subsection \<open>Decoding\<close>

definition hex_value :: "char \<Rightarrow> nat" where
  "hex_value c =
     (if isdigit_c c then char_code c - 48
      else if isupper_c c then char_code c - 55 else char_code c - 87)"

definition hex_char :: "char \<Rightarrow> char \<Rightarrow> char" where
  \<comment> \<open>\<open>(char) strtol(hex, NULL, 16)\<close> for two hexadecimal digits\<close>
  "hex_char a b = char_of (16 * hex_value a + hex_value b)"

fun url_decode_loop :: "string \<Rightarrow> nat \<Rightarrow> bool \<times> string" where
  \<comment> \<open>the loop of \<open>url_decode\<close> with room for \<open>n\<close> characters: whether it met no bad escape, and
    what it wrote\<close>
  "url_decode_loop [] n = (True, [])"
| "url_decode_loop (c # s) 0 = (True, [])"
| "url_decode_loop (c # s) (Suc n) =
     (if c = CHR ''%'' then
        (case s of
           a # b # t \<Rightarrow> if isxdigit_c a \<and> isxdigit_c b
                        then apsnd ((#) (hex_char a b)) (url_decode_loop t n) else (False, [])
         | _ \<Rightarrow> (False, []))
      else if c = CHR ''+'' then apsnd ((#) SPC) (url_decode_loop s n)
      else if c = CHR ''&'' then (True, [])
      else apsnd ((#) c) (url_decode_loop s n))"

definition url_decode :: "string \<Rightarrow> nat \<Rightarrow> bool \<times> string" where
  \<comment> \<open>success, and the C string that the destination holds; every caller passes a zeroed one\<close>
  "url_decode src dst_size = apsnd cstr (url_decode_loop src (dst_size - 1))"

fun url_decode_path_bytes :: "string \<Rightarrow> string" where
  "url_decode_path_bytes (c # a # b # s) =
     (if c = CHR ''%'' \<and> isxdigit_c a \<and> isxdigit_c b then hex_char a b # url_decode_path_bytes s
      else c # url_decode_path_bytes (a # b # s))"
| "url_decode_path_bytes s = s"

definition url_decode_path :: "string \<Rightarrow> string" where
  \<comment> \<open>decoding \<open>%00\<close> ends the string\<close>
  "url_decode_path s = cstr (url_decode_path_bytes s)"

definition validate_phone :: "string \<Rightarrow> bool" where
  "validate_phone phone \<longleftrightarrow>
     (if phone = [] then True
      else if \<not> list_all (\<lambda>c. isdigit_c c \<or> c = CHR ''-'') phone then False
      else 1 \<le> length phone \<and> length phone \<le> 20 \<and> 1 \<le> length (filter isdigit_c phone))"

definition validate_email :: "string \<Rightarrow> bool" where
  "validate_email email \<longleftrightarrow>
     (if email = [] then True
      else if strchr email SPC \<noteq> None then False
      else case strchr email CHR ''@'' of
             None \<Rightarrow> True
           | Some at \<Rightarrow>
               if strchr (tl at) CHR ''@'' \<noteq> None then False
               else tl at \<noteq> [])"

subsection \<open>The request line and the body\<close>

definition parse_http_request_line :: "string \<Rightarrow> (string \<times> string) option" where
  "parse_http_request_line line =
     (case strchr line SPC of
        None \<Rightarrow> None
      | Some p \<Rightarrow> Some (cut_at SPC line, cut_at SPC (skip_spaces (tl p))))"

definition trim_newlines :: "string \<Rightarrow> string" where
  "trim_newlines s = rstrip is_crlf_char s"

definition extract_body :: "string \<Rightarrow> string option \<times> string" where
  \<comment> \<open>the body, and \<open>recv_buf\<close> afterwards: the line ends stripped from the body become NUL bytes\<close>
  "extract_body raw =
     (case strstr (cstr raw) (crlf @ crlf) of
        None \<Rightarrow> (None, raw)
      | Some p \<Rightarrow>
          let start = length (cstr raw) - length p + 4
          in if length raw \<le> start then (None, raw)
             else let full = cstr (drop start raw);
                      body = trim_newlines full;
                      raw' = take start raw @ body @ replicate (length full - length body) NUL
                             @ drop (start + length full) raw
                  in (if body = [] then None else Some body, raw'))"

subsection \<open>Headers\<close>

definition ci_starts :: "string \<Rightarrow> string \<Rightarrow> bool" where
  \<comment> \<open>\<open>s\<close> begins with the lower-case text \<open>pat\<close>, in any case\<close>
  "ci_starts s pat \<longleftrightarrow> map tolower_c (take (length pat) s) = pat"

definition at_line_start :: "string \<Rightarrow> string \<Rightarrow> bool" where
  \<comment> \<open>\<open>p\<close> is at a CR or LF that the header name \<open>pat\<close> follows\<close>
  "at_line_start p pat \<longleftrightarrow> p \<noteq> [] \<and> (hd p = LF \<or> hd p = CR) \<and> ci_starts (tl p) pat"

fun scan_content :: "string \<Rightarrow> string option \<Rightarrow> string option \<Rightarrow> string option \<times> string option" where
  \<comment> \<open>the loop \<open>while (p < recv_buf + limit - 14)\<close>: \<open>ct_start\<close> and \<open>cl_start\<close>; the last letter of
    \<open>Content-Length\<close> is compared in lower case only\<close>
  "scan_content [] ct cl = (ct, cl)"
| "scan_content (c # s) ct cl =
     (if length (c # s) \<le> 14 then (ct, cl)
      else if at_line_start (c # s) ''content-type:'' then scan_content s (Some (drop 14 (c # s))) cl
      else if at_line_start (c # s) ''content-length:'' \<and> (c # s) ! 14 = CHR ''h'' then scan_content s ct (Some (drop 16 (c # s)))
      else scan_content s ct cl)"

definition header_text :: "nat \<Rightarrow> string \<Rightarrow> string" where
  \<comment> \<open>skip blanks, then copy up to the end of the line into a buffer of \<open>n\<close> bytes\<close>
  "header_text n s = take (n - 1) (takeWhile (\<lambda>c. c \<noteq> NUL \<and> c \<noteq> CR \<and> c \<noteq> LF) (skip_blanks s))"

definition note_content :: "string \<Rightarrow> request \<Rightarrow> request" where
  "note_content raw req =
     (let (ct, cl) = scan_content raw None None;
          req = (case ct of None \<Rightarrow> req
                 | Some s \<Rightarrow> req\<lparr>rq_content_type := rstrip is_blank (header_text 64 s)\<rparr>)
      in case cl of None \<Rightarrow> req
         | Some s \<Rightarrow> (let v = atoi (cstr (skip_blanks s))
                      in req\<lparr>rq_content_length := (if v < 0 then 0 else v)\<rparr>))"

definition either_case :: "string \<Rightarrow> string \<Rightarrow> string \<Rightarrow> string option" where
  \<comment> \<open>\<open>p = strstr(s, a); if (!p) p = strstr(s, b);\<close>\<close>
  "either_case s a b = (case strstr s a of None \<Rightarrow> strstr s b | Some p \<Rightarrow> Some p)"

definition note_cookie :: "string \<Rightarrow> request \<Rightarrow> request" where
  "note_cookie raw req =
     (case either_case (cstr raw) ''Cookie:'' ''cookie:'' of
        None \<Rightarrow> req
      | Some p \<Rightarrow> req\<lparr>rq_cookie := header_text 512 (drop 7 p)\<rparr>)"

definition note_authorization :: "string \<Rightarrow> request \<Rightarrow> request" where
  "note_authorization raw req =
     (case either_case (cstr raw) ''Authorization:'' ''authorization:'' of
        None \<Rightarrow> req
      | Some p \<Rightarrow> req\<lparr>rq_authorization := rstrip is_blank (header_text 256 (drop 14 p))\<rparr>)"

fun scan_host :: "string \<Rightarrow> string option" where
  \<comment> \<open>\<open>while (p < recv_buf + n - 6)\<close>: the first match\<close>
  "scan_host [] = None"
| "scan_host (c # s) =
     (if length (c # s) \<le> 6 then None
      else if at_line_start (c # s) ''host:'' then Some (drop 6 (c # s))
      else scan_host s)"

definition host_value :: "string \<Rightarrow> string" where
  "host_value s = cut_at (CHR '':'') (rstrip is_blank (header_text 256 s))"

definition read_request :: "string \<Rightarrow> (request \<times> string) option" where
  \<comment> \<open>the part of \<open>request_handler_handle_connection\<close> that fills \<open>req\<close>; \<open>None\<close> for a malformed
    request line; the second component is \<open>recv_buf\<close> after the body has been cut out\<close>
  "read_request raw =
     (let line = cut_at LF (cut_at CR (copy_text 512 (cstr raw)))
      in case parse_http_request_line line of
           None \<Rightarrow> None
         | Some (meth, path) \<Rightarrow>
             let req = zero_request\<lparr>rq_content_length := -1, rq_method := map toupper_c (take 15 meth),
                                    rq_path := copy_text 256 path\<rparr>;
                 (body, raw) = extract_body raw;
                 req = (case body of None \<Rightarrow> req | Some b \<Rightarrow> request_handler_set_body b req)
             in Some (note_authorization raw (note_cookie raw (note_content raw req)), raw))"

end
