(* ===== verification/Server_State.thy ===== *)
theory Server_State
  imports Session User_Store Config Request Base64
begin

text \<open>
  The state that the request handlers of \<open>src/request_handler.c\<close> share, and the checks of
  credentials on it.  \<open>server\<close> gathers the globals of one process: the user store, the sessions, the
  document root, the entries of the password file, the configuration and the route table of
  defaults.  \<open>env\<close> is what the operating system answers while one request is handled: files, the
  date text, the clock, random bytes, the capacity of a pipe (\<open>None\<close> when it cannot be set up) and
  the text that the timing comparison prints.
\<close>

record auth_user =
  au_username :: string
  au_password :: string
  au_role :: string

record server =
  sv_store :: store
  sv_sess :: sess_state
  sv_root :: string
  sv_auth :: "auth_user list"
  sv_config :: "server_config option"
  sv_default_rt :: "route_table option"

record env =
  ev_fs :: "string \<Rightarrow> string option"
  ev_date :: string
  ev_now :: int
  ev_random :: "byte list"
  ev_pipe :: "nat option"
  ev_compare :: "string \<Rightarrow> bool \<Rightarrow> string"

definition of_loop :: "'a option \<Rightarrow> 'a run" where
  \<comment> \<open>the result of a loop written as \<open>partial_function (option)\<close>\<close>
  "of_loop r = (case r of None \<Rightarrow> Loops | Some a \<Rightarrow> Ret a)"

lemma of_loop_simps [simp]: "of_loop None = Loops" "of_loop (Some a) = Ret a"
  by (simp_all add: of_loop_def)

definition request_handler_set_root :: "string \<Rightarrow> server \<Rightarrow> server" where
  "request_handler_set_root root sv = (if root \<noteq> [] then sv\<lparr>sv_root := copy_text 128 root\<rparr> else sv)"

subsection \<open>The password file\<close>

abbreviation MAX_AUTH_USERS :: nat where "MAX_AUTH_USERS \<equiv> 64"

definition parse_auth_line :: "string \<Rightarrow> auth_user option" where
  \<comment> \<open>\<open>username:password:role\<close>; comments, empty lines and lines with less than two colons give nothing\<close>
  "parse_auth_line raw =
     (let line = cut_at LF (cut_at CR (cstr raw))
      in if line = [] then None
         else if hd line = CHR ''#'' then None
         else case strchr line CHR '':'' of
             None \<Rightarrow> None
           | Some first \<Rightarrow>
               (case strchr (tl first) CHR '':'' of
                  None \<Rightarrow> None
                | Some second \<Rightarrow>
                    Some \<lparr>au_username = copy_text 64 (cut_at CHR '':'' line),
                          au_password = copy_text 64 (cut_at CHR '':'' (tl first)),
                          au_role = copy_text 32 (tl second)\<rparr>))"

function auth_lines :: "string \<Rightarrow> auth_user list \<Rightarrow> auth_user list" where
  \<comment> \<open>the loop of \<open>auth_load_file\<close>: it reads a line before it tests the count\<close>
  "auth_lines data us =
     (case fgets 256 data of
        None \<Rightarrow> us
      | Some (line, rest) \<Rightarrow>
          if length us \<ge> MAX_AUTH_USERS then us
          else (case parse_auth_line line of
                  None \<Rightarrow> auth_lines rest us
                | Some u \<Rightarrow> auth_lines rest (us @ [u])))"
  by auto
termination
  by (relation "measure (\<lambda>(d, _). length d)") (auto dest: fgets_shorter)

declare auth_lines.simps [simp del]

definition auth_load_file :: "string option \<Rightarrow> server \<Rightarrow> int \<times> server" where
  \<comment> \<open>the content of the file, \<open>None\<close> when it cannot be opened\<close>
  "auth_load_file file sv =
     (case file of None \<Rightarrow> (-1, sv) | Some data \<Rightarrow> (0, sv\<lparr>sv_auth := auth_lines data []\<rparr>))"

subsection \<open>Credentials\<close>

definition auth_lookup :: "server \<Rightarrow> string \<Rightarrow> string \<Rightarrow> string option run" where
  \<comment> \<open>the role: of the first entry of the password file, else \<open>user\<close> for a user of the store\<close>
  "auth_lookup sv username password =
     (case find (\<lambda>u. strcmp (au_username u) username = 0 \<and> strcmp (au_password u) password = 0) (sv_auth sv) of
        Some u \<Rightarrow> Ret (Some (au_role u))
      | None \<Rightarrow>
          bind_run (of_loop (user_store_auth (sv_store sv) username password))
            (\<lambda>ok. Ret (if ok then Some ''user'' else None)))"

definition auth_role_matches :: "string \<Rightarrow> string \<Rightarrow> bool" where
  "auth_role_matches user_role required_role \<longleftrightarrow>
     required_role = [] \<or> strcmp user_role ''admin'' = 0 \<or> strcmp user_role required_role = 0"

definition cookie_sid :: "string \<Rightarrow> string option" where
  \<comment> \<open>the value of \<open>session_id=\<close> in the Cookie header, cut to \<open>char sid[SESSION_ID_LEN]\<close>\<close>
  "cookie_sid cookie =
     (case strstr cookie ''session_id='' of
        None \<Rightarrow> None
      | Some p \<Rightarrow> Some (take 64 (takeWhile (\<lambda>c. c \<noteq> CHR '';'' \<and> c \<noteq> SPC) (drop 11 p))))"

definition cookie_session :: "env \<Rightarrow> request \<Rightarrow> server \<Rightarrow> (session option \<times> server) run" where
  \<comment> \<open>the session that the Cookie header names, if it is alive\<close>
  "cookie_session ev req sv =
     (case (if rq_cookie req = [] then None else cookie_sid (rq_cookie req)) of
        None \<Rightarrow> Ret (None, sv)
      | Some sid \<Rightarrow>
          bind_run (session_lookup sid (ev_now ev) (sv_sess sv))
            (\<lambda>(s, st). Ret (s, sv\<lparr>sv_sess := st\<rparr>)))"

datatype basic_auth = Bad_Base64 | Role "string option"

definition string_of_bytes :: "byte list \<Rightarrow> string" where
  "string_of_bytes = map (\<lambda>b. char_of (unat b))"

definition basic_role :: "request \<Rightarrow> server \<Rightarrow> basic_auth run" where
  \<comment> \<open>the role that the Authorization header gives\<close>
  "basic_role req sv =
     (if rq_authorization req \<noteq> [] \<and> ci_starts (rq_authorization req) ''basic ''
      then (case base64_decode (drop 6 (rq_authorization req)) 256 of
              None \<Rightarrow> Ret Bad_Base64
            | Some bytes \<Rightarrow>
                let decoded = cstr (string_of_bytes bytes)
                in case strchr decoded CHR '':'' of
                     None \<Rightarrow> Ret (Role None)
                   | Some p \<Rightarrow>
                       bind_run (auth_lookup sv (cut_at CHR '':'' decoded) (tl p)) (\<lambda>r. Ret (Role r)))
      else Ret (Role None))"

end
