(* ===== verification/Pages.thy ===== *)
theory Pages
  imports User_Store Http_Parser
begin

text \<open>
  The pages and response heads that \<open>src/request_handler.c\<close> holds as string literals, byte for
  byte: \<open>unlines\<close> ends every line with LF, \<open>as_lines\<close> with CR LF; bytes outside ASCII are written
  \<open>CHR 0xNN\<close>.  The arguments are the values of the conversions of \<open>snprintf\<close>.
\<close>

definition help_text :: "string" where \<open>
  help_text = unlines
   [''MiniWebServer v1.5 '' @ [CHR 0xE2, CHR 0x80, CHR 0x94] @ '' HTTP API'',
    [],
    ''  GET  /hello                          hello'',
    ''  GET  /help                           this help'',
    ''  GET  /users                          list all users (BST inorder)'',
    ''  GET  /users/<name>                   find user by name'',
    ''  GET  /users/find-index/<name>        find user via BST index'',
    ''  GET  /users/compare/<name>           compare linked-list vs BST search'',
    ''  GET  /users/compare-verbose/<name>   compare search (verbose)'',
    ''  GET  /user/<name>                    find user by name'',
    ''  POST /users                          add user (body: csv line)'',
    ''  POST /search                         search users by partial name match'',
    ''  DELETE /users/<name>                 delete user'']\<close>

definition page_home_user :: "char \<Rightarrow> string \<Rightarrow> string" where \<open>
  page_home_user initial username = unlines
   [''<!DOCTYPE html>'',
    ''<html><head><meta charset="utf-8"><title>MiniWeb</title><style>body{font-family:system-ui,sans-serif;background:#f1f5f9;margin:0;}nav{background:#fff;border-bottom:1px solid #e2e8f0;padding:0 24px;display:flex;align-items:center;justify-content:space-between;height:52px;box-shadow:0 1px 3px #0001;}.brand{font-weight:700;font-size:1.1rem;color:#6366f1;text-decoration:none;}.ui{display:flex;align-items:center;gap:10px;font-size:.85rem;}.av{width:28px;height:28px;border-radius:50%;background:linear-gradient(135deg,#6366f1,#4f46e5);color:#fff;display:flex;align-items:center;justify-content:center;font-weight:700;}.lo{padding:5px 14px;background:#fee2e2;color:#dc2626;border:1px solid #fecaca;border-radius:7px;text-decoration:none;font-weight:500;}.hero{text-align:center;padding:80px 20px;}.hero h1{font-size:1.8rem;color:#1e293b;margin-bottom:8px;}.hero p{color:#64748b;margin-bottom:24px;}.hero a{display:inline-block;margin:4px;padding:10px 22px;background:#fff;color:#1e293b;text-decoration:none;border-radius:10px;font-weight:500;border:1px solid #e2e8f0;}.hero a:hover{background:#f1f5f9;}</style></head><body>'',
    ''<nav><a href="/" class="brand">'' @ [CHR 0xE2, CHR 0x9A, CHR 0xA1] @ '' MiniWeb</a><div class="ui"><div class="av">'' @ [initial] @ ''</div><span>'' @ username @ ''</span><a href="/logout" class="lo">Logout</a></div></nav>'',
    ''<div class="hero"><h1>Welcome, '' @ username @ ''!</h1><p><a href="/users">'' @ [CHR 0xF0, CHR 0x9F, CHR 0x93, CHR 0x8B] @ '' User List</a><a href="/search">'' @ [CHR 0xF0, CHR 0x9F, CHR 0x94, CHR 0x8D] @ '' Search</a><a href="/hello">'' @ [CHR 0xF0, CHR 0x9F, CHR 0x91, CHR 0x8B] @ '' Hello</a></p></div></body></html>'']\<close>

definition page_welcome :: "string" where \<open>
  page_welcome = unlines
   [''<!DOCTYPE html>'',
    ''<html><head><meta charset="utf-8"><title>MiniWeb</title><style>body{font-family:system-ui,sans-serif;background:linear-gradient(135deg,#0f172a,#1e293b,#334155);min-height:100vh;display:flex;align-items:center;justify-content:center;text-align:center;}.hero{color:#fff;}.hero h1{font-size:2.5rem;margin-bottom:12px;}.hero p{color:#94a3b8;margin-bottom:32px;}.hero a{padding:14px 36px;background:linear-gradient(135deg,#6366f1,#4f46e5);color:#fff;text-decoration:none;border-radius:12px;font-weight:600;}</style></head><body><div class="hero"><h1>'' @ [CHR 0xE2, CHR 0x9A, CHR 0xA1] @ '' MiniWeb Server v1.7</h1><p>Lightweight HTTP Server '' @ [CHR 0xC2, CHR 0xB7] @ '' Session/Cookie Auth</p><a href="/login">Sign In</a></div></body></html>'']\<close>

definition head_index :: "string \<Rightarrow> nat \<Rightarrow> string \<Rightarrow> string" where \<open>
  head_index ct len conn = as_lines
   [''HTTP/1.1 200 OK'',
    ''Server: MiniWeb/1.7'',
    ''Content-Type: '' @ ct,
    ''Content-Length: '' @ dec_nat len,
    ''Connection: '' @ conn,
    ''Cache-Control: no-cache, no-store, must-revalidate'',
    ''Pragma: no-cache'',
    ''Expires: 0'',
    []]\<close>

definition nav_open :: "string" where \<open>
  nav_open = unlines
   [''<style>.mwnav{background:#1e293b;padding:0 24px;display:flex;align-items:center;justify-content:space-between;height:48px;font-family:system-ui,sans-serif;box-shadow:0 2px 6px rgba(0,0,0,0.2);}.mwnav a{text-decoration:none;transition:opacity .2s;}.mwnav .brand{font-weight:800;font-size:17px;color:#f8fafc;}.mwnav .link{padding:6px 12px;color:#94a3b8;font-size:13px;font-weight:500;border-radius:6px;}.mwnav .link:hover{color:#f8fafc;background:rgba(255,255,255,0.08);}.mwnav .av{width:30px;height:30px;border-radius:50%;background:linear-gradient(135deg,#6366f1,#818cf8);color:#fff;display:inline-flex;align-items:center;justify-content:center;font-weight:700;font-size:13px;box-shadow:0 2px 6px rgba(99,102,241,0.4);}.mwnav .uname{color:#e2e8f0;font-size:13px;font-weight:500;}.mwnav .lo{padding:6px 16px;background:rgba(255,255,255,0.1);color:#f1f5f9;border:1px solid rgba(255,255,255,0.2);border-radius:8px;font-size:12px;}.mwnav .lo:hover{background:#dc2626;border-color:#dc2626;}</style>'',
    ''<div class="mwnav">'',
    ''<div style="display:flex;align-items:center;gap:18px;">'',
    ''<a href="/" class="brand">'' @ [CHR 0xE2, CHR 0x9A, CHR 0xA1] @ '' MiniWeb</a>'',
    ''<a href="/users" class="link">Users</a>'',
    ''<a href="/search" class="link">Search</a>'',
    ''</div>'',
    ''<div style="display:flex;align-items:center;gap:10px;">''] @ ''<span class="av">''\<close>

definition nav_name :: "string" where \<open>
  nav_name = unlines
   [''</span>''] @ ''<span class="uname">''\<close>

definition nav_close :: "string" where \<open>
  nav_close = unlines
   [''</span>'',
    ''<a href="/logout" class="lo">Logout</a>'',
    ''</div>'',
    ''</div>'']\<close>

definition page_search_form :: "string" where \<open>
  page_search_form = unlines
   [''<!DOCTYPE html>'',
    ''<html lang="en"><head>'',
    ''<meta charset="utf-8">'',
    ''<title>Search '' @ [CHR 0xE2, CHR 0x80, CHR 0x94] @ '' MiniWeb</title>'',
    ''<style>'',
    ''*{margin:0;padding:0;box-sizing:border-box;}'',
    ''body{font-family:system-ui,sans-serif;background:#f1f5f9;min-height:100vh;}'',
    ''nav{background:#fff;border-bottom:1px solid #e2e8f0;padding:0 24px;display:flex;align-items:center;justify-content:space-between;height:56px;box-shadow:0 1px 3px #0001;}'',
    ''.brand{font-weight:700;font-size:1.1rem;color:#6366f1;text-decoration:none;}'',
    ''.nav-right a{padding:6px 16px;background:#fee2e2;color:#dc2626;border:1px solid #fecaca;border-radius:8px;font-size:.82rem;text-decoration:none;font-weight:500;}'',
    ''.nav-right a:hover{background:#fecaca;}'',
    ''main{max-width:640px;margin:40px auto;padding:0 20px;}'',
    ''.card{background:#fff;border-radius:16px;padding:32px;box-shadow:0 1px 3px #0001;}'',
    ''h1{font-size:1.3rem;margin-bottom:20px;color:#1e293b;}'',
    ''.field{margin-bottom:14px;}'',
    ''.field label{display:block;font-size:.85rem;color:#64748b;margin-bottom:4px;}'',
    ''.field input{width:100%;padding:10px 14px;border:2px solid #e2e8f0;border-radius:10px;font-size:.95rem;outline:none;transition:border-color .2s;}'',
    ''.field input:focus{border-color:#6366f1;}'',
    ''button{width:100%;padding:12px;background:linear-gradient(135deg,#6366f1,#4f46e5);color:#fff;border:none;border-radius:10px;font-size:1rem;font-weight:600;cursor:pointer;}'',
    ''button:hover{opacity:.92;}'',
    ''.back{margin-top:16px;text-align:center;}'',
    ''.back a{color:#6366f1;text-decoration:none;font-size:.85rem;}'',
    ''</style></head><body>'',
    ''<nav>'',
    ''<a href="/" class="brand">'' @ [CHR 0xE2, CHR 0x9A, CHR 0xA1] @ '' MiniWeb</a>'',
    ''<div class="nav-right"><a href="/logout">Logout</a></div>'',
    ''</nav>'',
    ''<main>'',
    ''<div class="card">'',
    ''<h1>'' @ [CHR 0xF0, CHR 0x9F, CHR 0x94, CHR 0x8D] @ '' User Search</h1>'',
    ''<form method="post" action="/search" enctype="application/x-www-form-urlencoded">'',
    ''<div class="field"><label>Name</label><input type="text" name="name" placeholder="e.g. '' @ [CHR 0xE8, CHR 0xB5, CHR 0xB5, CHR 0xE5, CHR 0xAE, CHR 0x89] @ ''" autofocus></div>'',
    ''<div class="field"><label>Phone</label><input type="text" name="phone" placeholder="e.g. 138"></div>'',
    ''<div class="field"><label>Email</label><input type="text" name="email" placeholder="e.g. @example.com"></div>'',
    ''<button type="submit">Search</button>'',
    ''</form>'',
    ''<div class="back"><a href="/">'' @ [CHR 0xE2, CHR 0x86, CHR 0x90] @ '' Back to Dashboard</a></div>'',
    ''</div>'',
    ''</main>'',
    ''</body></html>'']\<close>

definition page_415 :: "string" where \<open>
  page_415 = unlines
   [''<!DOCTYPE html>'',
    ''<html lang="en"><head>'',
    ''<meta charset="utf-8">'',
    ''<title>415 Unsupported Media Type</title>'',
    ''<style>body{font-family:sans-serif;max-width:640px;margin:48px auto;padding:0 16px;text-align:center;}h1{color:#dc2626;}</style></head><body>'',
    ''<h1>415 Unsupported Media Type</h1>'',
    ''<p>This endpoint only accepts <code>application/x-www-form-urlencoded</code>.</p>'',
    ''<p><a href="/">Back to Search</a></p>'',
    ''</body></html>'']\<close>

definition page_no_length :: "string" where \<open>
  page_no_length = unlines
   [''<!DOCTYPE html>'',
    ''<html lang="en"><head>'',
    ''<meta charset="utf-8">'',
    ''<title>400 Bad Request</title>'',
    ''<style>body{font-family:sans-serif;max-width:640px;margin:48px auto;padding:0 16px;text-align:center;}h1{color:#dc2626;}</style></head><body>'',
    ''<h1>400 Bad Request</h1>'',
    ''<p>Content-Length header is required.</p>'',
    ''<p><a href="/">Back to Search</a></p>'',
    ''</body></html>'']\<close>

definition page_bad_length :: "nat \<Rightarrow> int \<Rightarrow> string" where \<open>
  page_bad_length body_len length_hdr = unlines
   [''<!DOCTYPE html>'',
    ''<html lang="en"><head>'',
    ''<meta charset="utf-8">'',
    ''<title>400 Bad Request</title>'',
    ''<style>body{font-family:sans-serif;max-width:640px;margin:48px auto;padding:0 16px;text-align:center;}h1{color:#dc2626;}</style></head><body>'',
    ''<h1>400 Bad Request</h1>'',
    ''<p>Body length ('' @ dec_nat body_len @ '' bytes) does not match Content-Length ('' @ dec_int length_hdr @ '' bytes).</p>'',
    ''<p><a href="/">Back to Search</a></p>'',
    ''</body></html>'']\<close>

definition page_no_criteria :: "string" where \<open>
  page_no_criteria = unlines
   [''<!DOCTYPE html>'',
    ''<html lang="en"><head>'',
    ''<meta charset="utf-8">'',
    ''<title>User Search</title>'',
    ''<style>body{font-family:sans-serif;max-width:640px;margin:48px auto;padding:0 16px;}</style></head><body>'',
    ''<h1>User Search</h1>'',
    ''<form method="post" action="/search" enctype="application/x-www-form-urlencoded">'',
    ''<p><label>Name: <input type="text" name="name"></label></p>'',
    ''<p><label>Phone: <input type="text" name="phone"></label></p>'',
    ''<p><label>Email: <input type="text" name="email"></label></p>'',
    ''<p><button type="submit">Search</button></p>'',
    ''</form>'',
    ''<p>Please enter at least one search criterion.</p>'',
    ''</body></html>'']\<close>

definition search_note :: "int \<Rightarrow> string" where \<open>
  search_note count = unlines
   [[],
    ''<p style="color:#dc2626;text-align:center;">'' @ [CHR 0xE2, CHR 0x9A, CHR 0xA0] @ '' Showing first 500 of '' @ dec_int count @ ''+ matches. Narrow your search.</p>'']\<close>

definition page_forbidden :: "string" where \<open>
  page_forbidden = unlines
   [''<!DOCTYPE html>'',
    ''<html><head><title>403 Forbidden</title></head>'',
    ''<body><h1>403 Forbidden</h1></body></html>'']\<close>

definition page_blog_404 :: "string \<Rightarrow> string" where \<open>
  page_blog_404 path = unlines
   [''<!DOCTYPE html>'',
    ''<html><head><title>404 Not Found</title></head>'',
    ''<body><h1>404 Not Found</h1>'',
    ''<p>The requested URL '' @ path @ '' was not found on this server.</p>'',
    ''<p><a href="/blog/">Back to Blog Home</a></p>'',
    ''</body></html>'']\<close>

definition page_login :: "string" where \<open>
  page_login = unlines
   [''<!DOCTYPE html>'',
    ''<html lang="en"><head>'',
    ''<meta charset="utf-8">'',
    ''<meta name="viewport" content="width=device-width,initial-scale=1">'',
    ''<title>Login '' @ [CHR 0xE2, CHR 0x80, CHR 0x94] @ '' MiniWeb Server v1.7</title>'',
    ''<style>'',
    ''*{margin:0;padding:0;box-sizing:border-box;}'',
    ''body{font-family:-apple-system,BlinkMacSystemFont,'' @ [CHR 0x27] @ ''Segoe UI'' @ [CHR 0x27] @ '',Roboto,sans-serif;background:linear-gradient(135deg,#0f172a 0%,#1e293b 50%,#334155 100%);min-height:100vh;display:flex;align-items:center;justify-content:center;}'',
    ''.container{width:100%;max-width:400px;padding:20px;}'',
    ''.logo{text-align:center;margin-bottom:32px;}'',
    ''.logo h1{font-size:1.8rem;color:#f8fafc;font-weight:700;letter-spacing:-0.5px;}'',
    ''.logo p{color:#94a3b8;font-size:0.9rem;margin-top:6px;}'',
    ''.card{background:#fff;border-radius:16px;padding:40px;box-shadow:0 25px 50px rgba(0,0,0,0.3);}'',
    ''.card h2{font-size:1.25rem;color:#0f172a;margin-bottom:24px;font-weight:600;}'',
    ''.field{margin-bottom:16px;}'',
    ''.field label{display:block;font-size:0.82rem;color:#64748b;margin-bottom:6px;font-weight:500;}'',
    ''.field input{width:100%;padding:12px 16px;border:2px solid #e2e8f0;border-radius:10px;font-size:0.95rem;color:#0f172a;transition:border-color .2s;outline:none;}'',
    ''.field input:focus{border-color:#6366f1;}'',
    ''.field input::placeholder{color:#cbd5e1;}'',
    ''button{width:100%;padding:14px;background:linear-gradient(135deg,#6366f1,#4f46e5);color:#fff;border:none;border-radius:10px;font-size:1rem;font-weight:600;cursor:pointer;transition:opacity .2s,transform .1s;margin-top:8px;}'',
    ''button:hover{opacity:0.92;}'',
    ''button:active{transform:scale(0.98);}'',
    ''.error{background:#fef2f2;color:#dc2626;padding:12px 16px;border-radius:10px;font-size:0.85rem;margin-bottom:16px;border:1px solid #fecaca;display:none;}'',
    ''.footer{text-align:center;margin-top:24px;color:#94a3b8;font-size:0.78rem;}'',
    ''</style></head><body>'',
    ''<div class="container">'',
    ''<div class="logo">'',
    ''<h1>'' @ [CHR 0xE2, CHR 0x9A, CHR 0xA1] @ '' MiniWeb</h1>'',
    ''<p>Lightweight HTTP Server v1.7</p>'',
    ''</div>'',
    ''<div class="card">'',
    ''<h2>Sign in to continue</h2>'',
    ''<div class="error" id="error">Invalid username or password</div>'',
    ''<form method="post" action="/login">'',
    ''<div class="field"><label>Username</label><input type="text" name="username" placeholder="Enter your username" required autofocus></div>'',
    ''<div class="field"><label>Password</label><input type="password" name="password" placeholder="Enter your password" required></div>'',
    ''<button type="submit">Sign In</button>'',
    ''</form>'',
    ''</div>'',
    ''<div class="footer">Session Cookie Authentication '' @ [CHR 0xC2, CHR 0xB7] @ '' HttpOnly</div>'',
    ''</div>'',
    ''</body></html>'']\<close>

definition login_redirect :: "string \<Rightarrow> int \<Rightarrow> string" where \<open>
  login_redirect sid ttl = as_lines
   [''HTTP/1.1 302 Found'',
    ''Server: MiniWeb/1.7'',
    ''Set-Cookie: session_id='' @ sid @ ''; Path=/; HttpOnly; Max-Age='' @ dec_int ttl @ ''; SameSite=Lax'',
    ''Location: /'',
    ''Content-Length: 0'',
    ''Connection: Keep-Alive'',
    []]\<close>

definition page_login_failed :: "string" where \<open>
  page_login_failed = unlines
   [''<!DOCTYPE html>'',
    ''<html lang="en"><head>'',
    ''<meta charset="utf-8">'',
    ''<meta name="viewport" content="width=device-width,initial-scale=1">'',
    ''<title>Login Failed '' @ [CHR 0xE2, CHR 0x80, CHR 0x94] @ '' MiniWeb</title>'',
    ''<style>'',
    ''*{margin:0;padding:0;box-sizing:border-box;}'',
    ''body{font-family:-apple-system,BlinkMacSystemFont,'' @ [CHR 0x27] @ ''Segoe UI'' @ [CHR 0x27] @ '',Roboto,sans-serif;background:linear-gradient(135deg,#0f172a 0 P0,#1e293b 50 P0,#334155 100 P0);min-height:100vh;display:flex;align-items:center;justify-content:center;}'',
    ''.container{width:100 P0;max-width:420px;padding:20px;text-align:center;}'',
    ''.card{background:#fff;border-radius:16px;padding:48px 40px;box-shadow:0 25px 50px rgba(0,0,0,0.3);}'',
    ''.icon{font-size:3rem;margin-bottom:16px;}'',
    ''h1{color:#dc2626;font-size:1.3rem;margin-bottom:8px;}'',
    ''p{color:#64748b;font-size:0.9rem;margin-bottom:24px;}'',
    ''a{display:inline-block;padding:12px 32px;background:linear-gradient(135deg,#6366f1,#4f46e5);color:#fff;text-decoration:none;border-radius:10px;font-weight:600;font-size:0.9rem;}'',
    ''a:hover{opacity:0.9;}'',
    ''</style></head><body>'',
    ''<div class="container"><div class="card">'',
    ''<div class="icon">&#x1f512;</div>'',
    ''<h1>Login Failed</h1>'',
    ''<p>Invalid username or password. Please try again.</p>'',
    ''<a href="/login">Try Again</a>'',
    ''</div></div></body></html>'']\<close>

definition logout_redirect :: "string" where \<open>
  logout_redirect = as_lines
   [''HTTP/1.1 302 Found'',
    ''Server: MiniWeb/1.7'',
    ''Set-Cookie: session_id=; Path=/; HttpOnly; Max-Age=0; SameSite=Lax'',
    ''Location: /login'',
    ''Content-Length: 0'',
    ''Connection: Keep-Alive'',
    []]\<close>

definition head_405 :: "string \<Rightarrow> string" where \<open>
  head_405 allow = as_lines
   [''HTTP/1.1 405 METHOD NOT ALLOWED'',
    ''Server: MiniWeb/1.5'',
    ''Content-Type: text/plain; charset=utf-8'',
    ''Content-Length: 0'',
    ''Allow: '' @ allow,
    ''Connection: close'',
    []]\<close>

definition head_401 :: "string \<Rightarrow> string" where \<open>
  head_401 realm = as_lines
   [''HTTP/1.1 401 Unauthorized'',
    ''Server: MiniWeb/1.7'',
    ''WWW-Authenticate: Basic realm="'' @ realm @ ''"'',
    ''Content-Type: text/plain; charset=utf-8'',
    ''Content-Length: 0'',
    ''Connection: close'',
    []]\<close>

definition head_to_login :: "string" where \<open>
  head_to_login = as_lines
   [''HTTP/1.1 302 Found'',
    ''Server: MiniWeb/1.7'',
    ''Location: /login'',
    ''Content-Length: 0'',
    ''Connection: close'',
    []]\<close>

definition page_role_forbidden :: "string" where \<open>
  page_role_forbidden = unlines
   [''<!DOCTYPE html>'',
    ''<html lang="en"><head>'',
    ''<meta charset="utf-8"><meta name="viewport" content="width=device-width,initial-scale=1">'',
    ''<title>403 Forbidden '' @ [CHR 0xE2, CHR 0x80, CHR 0x94] @ '' MiniWeb</title>'',
    ''<style>'',
    ''*{margin:0;padding:0;box-sizing:border-box;}'',
    ''body{font-family:system-ui,sans-serif;background:linear-gradient(135deg,#1e293b,#0f172a);min-height:100vh;display:flex;align-items:center;justify-content:center;}'',
    ''.card{background:#fff;border-radius:20px;padding:48px 40px;text-align:center;box-shadow:0 25px 50px rgba(0,0,0,0.3);max-width:440px;}'',
    ''.icon{font-size:4rem;margin-bottom:16px;}'',
    ''h1{font-size:1.6rem;color:#dc2626;margin-bottom:8px;}'',
    ''p{color:#64748b;font-size:0.95rem;margin-bottom:24px;line-height:1.6;}'',
    ''.links{display:flex;gap:10px;justify-content:center;flex-wrap:wrap;}'',
    ''.links a{padding:10px 22px;background:#f1f5f9;color:#1e293b;text-decoration:none;border-radius:10px;font-size:0.9rem;font-weight:500;border:1px solid #e2e8f0;transition:all .2s;}'',
    ''.links a:hover{background:#e2e8f0;}'',
    ''.links a.logout{padding:10px 22px;background:#fee2e2;color:#dc2626;text-decoration:none;border-radius:10px;font-size:0.9rem;font-weight:500;border:1px solid #fecaca;}'',
    ''.links a.logout:hover{background:#fecaca;}'',
    ''</style></head><body>'',
    ''<div class="card">'',
    ''<div class="icon">'' @ [CHR 0xF0, CHR 0x9F, CHR 0x94, CHR 0x92] @ ''</div>'',
    ''<h1>403 Forbidden</h1>'',
    ''<p>You don'' @ [CHR 0x27] @ ''t have permission to access this resource.<br>Please contact the administrator if you believe this is an error.</p>'',
    ''<div class="links">'',
    ''<a href="/">'' @ [CHR 0xE2, CHR 0x86, CHR 0x90] @ '' Back to Home</a>'',
    ''<a href="/logout" class="logout">Logout</a>'',
    ''</div>'',
    ''</div>'',
    ''</body></html>'']\<close>

definition response_malformed :: "string" where \<open>
  response_malformed = as_lines
   [''HTTP/1.1 400 BAD REQUEST'',
    ''Content-Type: text/plain; charset=utf-8'',
    ''Content-Length: 17'',
    ''Connection: close'',
    []]
   @ unlines
   [''400 Bad Request'']\<close>

definition response_500 :: "string" where \<open>
  response_500 = as_lines
   [''HTTP/1.1 500 INTERNAL SERVER ERROR'',
    ''Content-Type: text/plain; charset=utf-8'',
    ''Content-Length: 25'',
    ''Connection: close'',
    []]
   @ unlines
   [''500 Internal Server Error'']\<close>

end
