(* ===== verification/Handlers.thy ===== *)
theory Handlers
  imports Server_State Pages
begin

text \<open>
  The handler functions of \<open>src/request_handler.c\<close>.  A handler gets the environment, the request,
  the captured tail of a prefix route, the size of the output buffer and the server state; it
  gives its reply (\<open>None\<close> for -1, otherwise the response bytes) and the new state, or \<open>Loops\<close>.
  Responses printed by \<open>snprintf\<close> alone report their full length: those texts are far shorter than
  the output buffer of every caller.
\<close>

type_synonym reply = "string option"
type_synonym handler = "env \<Rightarrow> request \<Rightarrow> string \<Rightarrow> nat \<Rightarrow> server \<Rightarrow> (reply \<times> server) run"

definition BLOG_BODY_MAX :: nat where "BLOG_BODY_MAX = 5 * 1024 * 1024"

definition html_type :: string where "html_type = ''text/html; charset=utf-8''"

subsection \<open>Responses\<close>

definition plain_head :: "int \<Rightarrow> string \<Rightarrow> nat \<Rightarrow> string" where
  "plain_head status status_text len =
     as_lines [''HTTP/1.1 '' @ dec_int status @ '' '' @ status_text,
       ''Content-Type: text/plain; charset=utf-8'', ''Content-Length: '' @ dec_nat len,
       ''Connection: Keep-Alive'', []]"

definition build_http_response :: "nat \<Rightarrow> int \<Rightarrow> string \<Rightarrow> string \<Rightarrow> reply" where
  "build_http_response osize status status_text body =
     (let out = plain_head status status_text (length body) @ body
      in if osize \<le> length out then None else Some out)"

definition respond :: "nat \<Rightarrow> int \<Rightarrow> string \<Rightarrow> string \<Rightarrow> server \<Rightarrow> (reply \<times> server) run" where
  "respond osize status status_text body sv = Ret (build_http_response osize status status_text body, sv)"

definition respond_html :: "env \<Rightarrow> nat \<Rightarrow> int \<Rightarrow> string \<Rightarrow> string \<Rightarrow> bool \<Rightarrow> server \<Rightarrow> (reply \<times> server) run" where
  \<comment> \<open>\<open>http_build_response\<close> with an HTML page that \<open>strlen\<close> measures\<close>
  "respond_html ev osize status status_text page keep sv =
     Ret (http_build_response (ev_date ev) status status_text html_type (cstr page) keep osize, sv)"

definition keep_flag :: "request \<Rightarrow> bool" where
  \<comment> \<open>\<open>req->keep_alive > 0 ? req->keep_alive : 1\<close> as a truth value\<close>
  "keep_flag req \<longleftrightarrow> (if rq_keep_alive req > 0 then rq_keep_alive req else 1) \<noteq> 0"

definition format_user_info :: "elem \<Rightarrow> nat \<Rightarrow> string" where
  "format_user_info d n = snprintf_to n (unlines
     [''name: '' @ el_name d, ''password: '' @ el_password d, ''birthdate: '' @ el_birthdate d,
      ''phone: '' @ el_phone d, ''mobile: '' @ el_mobile d, ''email: '' @ el_email d])"

definition user_data :: "server \<Rightarrow> nat \<Rightarrow> elem" where
  "user_data sv u = ln_data (us_list (sv_store sv) u)"

definition respond_user :: "nat \<Rightarrow> nat option \<Rightarrow> string \<Rightarrow> server \<Rightarrow> (reply \<times> server) run" where
  \<comment> \<open>200 with the user found, or 404\<close>
  "respond_user osize found name sv =
     (case found of
        Some u \<Rightarrow> respond osize 200 ''OK'' (format_user_info (user_data sv u) BLOG_BODY_MAX) sv
      | None \<Rightarrow> respond osize 404 ''NOT FOUND''
                  (snprintf_to BLOG_BODY_MAX (unlines [''NOT_FOUND '' @ name])) sv)"

definition capture_stdout :: "env \<Rightarrow> string \<Rightarrow> nat \<Rightarrow> string option run" where
  \<comment> \<open>the text printed is written to a pipe that nobody reads until all of it is written\<close>
  "capture_stdout ev printed n =
     (case ev_pipe ev of
        None \<Rightarrow> Ret None
      | Some capacity \<Rightarrow> if capacity < length printed then Loops else Ret (Some (take (n - 1) printed)))"

subsection \<open>Plain handlers\<close>

definition handle_hello :: handler where
  "handle_hello ev req captured osize sv = respond osize 200 ''OK'' (unlines [''Hello, Web!'']) sv"

definition handle_help :: handler where
  "handle_help ev req captured osize sv = respond osize 200 ''OK'' help_text sv"

definition sleep_ms :: "string \<Rightarrow> int" where
  "sleep_ms captured =
     (let d = atoi captured; d = (if d \<le> 0 then 100 else d) in if d > 5000 then 5000 else d)"

definition handle_sleep :: handler where
  "handle_sleep ev req captured osize sv =
     respond osize 200 ''OK''
       (snprintf_to BLOG_BODY_MAX (unlines [''Slept '' @ dec_int (sleep_ms captured) @ '' ms''])) sv"

subsection \<open>The index page\<close>

definition index_initial :: "string \<Rightarrow> char" where
  \<comment> \<open>\<open>char\<close> is signed: a byte above 127 is negative\<close>
  "index_initial username =
     (let c = (case username of [] \<Rightarrow> NUL | c # _ \<Rightarrow> c)
      in if 97 \<le> char_code c \<and> char_code c < 128 then char_of (char_code c - 32) else c)"

fun find_body_tag :: "string \<Rightarrow> string option" where
  "find_body_tag [] = None"
| "find_body_tag (c # s) = (if ci_starts (c # s) ''<body'' then Some (c # s) else find_body_tag s)"

definition nadd :: "string \<Rightarrow> string \<Rightarrow> string" where
  \<comment> \<open>the macro \<open>NADD\<close>: a piece that does not fit \<open>char nav[2048]\<close> is left out\<close>
  "nadd nav s = (if length nav + length s < 2048 then nav @ s else nav)"

definition nav_bar :: "char \<Rightarrow> string \<Rightarrow> string" where
  "nav_bar initial dn = nadd (nadd (nadd (nadd [] nav_open @ [initial]) nav_name) dn) nav_close"

definition inject_nav :: "string \<Rightarrow> string \<Rightarrow> string" where
  \<comment> \<open>the file with the navigation bar behind its body tag\<close>
  "inject_nav data nav =
     (case (case find_body_tag (cstr data) of
              Some t \<Rightarrow> Some t | None \<Rightarrow> strstr (cstr data) ''<BODY'') of
        None \<Rightarrow> data
      | Some tag \<Rightarrow>
          (case strchr tag CHR ''>'' of
             None \<Rightarrow> data
           | Some tag_end \<Rightarrow>
               let head_len = length (cstr data) - length tag_end + 1;
                   tail_len = length data - head_len
               in if head_len + length nav + tail_len < BLOG_BODY_MAX
                  then take head_len data @ nav @ drop head_len data else data))"

definition handle_index :: handler where
  "handle_index ev req captured osize sv =
     bind_run (cookie_session ev req sv) (\<lambda>(s, sv).
       let (file, ct) = http_serve_file (ev_fs ev) (sv_root sv) ''/'' BLOG_BODY_MAX
       in case (file, s) of
            (None, Some s) \<Rightarrow>
              respond_html ev osize 200 ''OK''
                (snprintf_to 2048 (page_home_user (index_initial (se_user s)) (se_user s))) (keep_flag req) sv
          | (None, None) \<Rightarrow> respond_html ev osize 200 ''OK'' page_welcome (keep_flag req) sv
          | (Some data, None) \<Rightarrow>
              (let head = head_index ct (length data) (if rq_keep_alive req > 0 then ''Keep-Alive'' else ''close'')
               in Ret (if length head < osize \<and> length data < osize - length head then Some (head @ data)
                       else http_build_response (ev_date ev) 200 ''OK'' ct data (keep_flag req) osize, sv))
          | (Some data, Some s) \<Rightarrow>
              bind_run (of_loop (user_store_lookup_name (sv_store sv) (se_user s))) (\<lambda>real.
                let dn = (case real of None \<Rightarrow> se_user s | Some r \<Rightarrow> r);
                    page = inject_nav data (nav_bar (index_initial (se_user s)) dn)
                in Ret (http_build_response (ev_date ev) 200 ''OK'' ct page (keep_flag req) osize, sv)))"

subsection \<open>Users\<close>

definition more_note :: "nat \<Rightarrow> string" where
  "more_note n = unlines [[], ''... (showing first entries out of '' @ dec_nat n @ '' total users)'']"

definition handle_user_list :: handler where
  "handle_user_list ev req captured osize sv =
     bind_run (of_loop (user_store_format_users (sv_store sv) (BLOG_BODY_MAX - 1)
                          \<lparr>ls_buf = [], ls_offset = 0, ls_total = 0\<rparr>)) (\<lambda>b.
       let body = (if BLOG_BODY_MAX - 200 \<le> ls_offset b
                   then take (ls_offset b) (ls_buf b)
                        @ snprintf_to (BLOG_BODY_MAX - ls_offset b) (more_note (ls_total b))
                   else ls_buf b)
       in respond osize 200 ''OK'' body sv)"

definition handle_user_find_index :: handler where
  "handle_user_find_index ev req captured osize sv =
     (let name = url_decode_path captured
      in bind_run (of_loop (user_store_find_index (sv_store sv) name))
           (\<lambda>found. respond_user osize found name sv))"

definition compare_reply :: "bool \<Rightarrow> handler" where
  "compare_reply verbose ev req captured osize sv =
     (let name = url_decode_path captured
      in bind_run (capture_stdout ev (ev_compare ev name verbose) BLOG_BODY_MAX)
           (\<lambda>text. case text of
              None \<Rightarrow> respond osize 500 ''INTERNAL SERVER ERROR'' (unlines [''500 Internal Server Error'']) sv
            | Some t \<Rightarrow> respond osize 200 ''OK'' (cstr t) sv))"

definition handle_user_compare_verbose :: handler where
  "handle_user_compare_verbose = compare_reply True"

definition handle_user_compare :: handler where
  "handle_user_compare = compare_reply False"

definition handle_user_by_name :: handler where
  "handle_user_by_name ev req captured osize sv =
     (let name = url_decode_path captured
      in if name = [] then respond osize 400 ''BAD REQUEST'' (unlines [''ERROR: empty user name'']) sv
         else bind_run (of_loop (user_store_find (sv_store sv) name))
                (\<lambda>found. respond_user osize found name sv))"

definition handle_user_simple_find :: handler where
  "handle_user_simple_find ev req captured osize sv =
     (let name = url_decode_path captured
      in if name = [] then respond osize 400 ''BAD REQUEST'' (unlines [''ERROR: empty user name'']) sv
         else bind_run (of_loop (user_store_find (sv_store sv) name))
                (\<lambda>found. respond_user osize found name sv))"

definition handle_user_add :: handler where
  "handle_user_add ev req captured osize sv =
     (if rq_body req = []
      then respond osize 400 ''BAD REQUEST'' (unlines [''ERROR: POST /users requires a body with CSV data'']) sv
      else bind_run (of_loop (user_store_add (rq_body req) (sv_store sv))) (\<lambda>(rc, st).
             let sv = sv\<lparr>sv_store := st\<rparr>
             in if rc = 0 then respond osize 200 ''OK'' (unlines [''ADDED'']) sv
                else respond osize 200 ''OK'' (unlines [''EXISTS'']) sv))"

definition delete_reply :: "nat \<Rightarrow> string \<Rightarrow> server \<Rightarrow> (reply \<times> server) run" where
  \<comment> \<open>the common end of the two handlers that delete\<close>
  "delete_reply osize name sv =
     (if name = [] then respond osize 400 ''BAD REQUEST'' (unlines [''ERROR: DELETE requires a user name'']) sv
      else bind_run (of_loop (user_store_delete name (sv_store sv))) (\<lambda>(rc, st).
             let sv = sv\<lparr>sv_store := st\<rparr>
             in if rc = 0 then respond osize 200 ''OK'' (unlines [''DELETED'']) sv
                else respond osize 404 ''NOT FOUND'' (unlines [''NO_SUCH_USER'']) sv))"

definition handle_user_delete :: handler where
  "handle_user_delete ev req captured osize sv = delete_reply osize (url_decode_path captured) sv"

definition handle_delete_form :: handler where
  \<comment> \<open>the result code of \<open>url_decode\<close> is not looked at\<close>
  "handle_delete_form ev req captured osize sv =
     delete_reply osize
       (case strstr (rq_body req) ''name='' of None \<Rightarrow> [] | Some p \<Rightarrow> snd (url_decode (drop 5 p) 64)) sv"

subsection \<open>Search\<close>

definition take_field :: "string \<Rightarrow> string \<Rightarrow> nat \<Rightarrow> (string \<Rightarrow> bool) \<Rightarrow> string \<Rightarrow> string \<Rightarrow> string + string" where
  \<comment> \<open>one parameter of the form: \<open>Inl\<close> the error message, \<open>Inr\<close> the value, empty when absent\<close>
  "take_field body key n ok encoding_error format_error =
     (case strstr body key of
        None \<Rightarrow> Inr []
      | Some p \<Rightarrow>
          let (good, v) = url_decode (drop (length key) p) n
          in if \<not> good then Inl encoding_error
             else if v \<noteq> [] \<and> \<not> ok v then Inl format_error else Inr v)"

definition then_field :: "'a + 'b \<Rightarrow> ('b \<Rightarrow> 'a + 'c) \<Rightarrow> 'a + 'c" where
  "then_field r f = (case r of Inl e \<Rightarrow> Inl e | Inr v \<Rightarrow> f v)"

definition read_criteria :: "string \<Rightarrow> string + search_criteria" where
  "read_criteria body =
     then_field (take_field body ''name='' 64 (\<lambda>_. True)
                   (unlines [''URL encoding error in name parameter.'']) []) (\<lambda>name.
     then_field (take_field body ''phone='' 32 validate_phone
                   (unlines [''URL encoding error in phone parameter.'']) (unlines [''Invalid phone format.''])) (\<lambda>phone.
     then_field (take_field body ''mobile='' 32 validate_phone
                   (unlines [''URL encoding error in mobile parameter.'']) (unlines [''Invalid mobile format.''])) (\<lambda>mobile.
     then_field (take_field body ''email='' 64 validate_email
                   (unlines [''URL encoding error in email parameter.'']) (unlines [''Invalid email format.''])) (\<lambda>email.
       Inr \<lparr>sc_name = copy_text 64 name, sc_phone = copy_text 32 phone,
            sc_mobile = copy_text 32 mobile, sc_email = copy_text 64 email\<rparr>))))"

definition no_criteria :: "search_criteria \<Rightarrow> bool" where
  "no_criteria c \<longleftrightarrow> sc_name c = [] \<and> sc_phone c = [] \<and> sc_mobile c = [] \<and> sc_email c = []"

definition run_search :: "search_criteria \<Rightarrow> handler" where
  \<comment> \<open>the end of \<open>handle_search\<close>, once the criteria are read\<close>
  "run_search c ev req captured osize sv =
     (let capped = min BLOG_BODY_MAX (2 * 1024 * 1024)
      in bind_run (of_loop (user_store_search (sv_store sv) c capped)) (\<lambda>(count, page).
           if count < 0
           then Ret (http_build_response (ev_date ev) 500 ''INTERNAL SERVER ERROR'' text_plain
                       (take 25 (unlines [''500 Internal Server Error''])) False osize, sv)
           else (let page = (if 500 \<le> count
                             then page @ snprintf_to (BLOG_BODY_MAX - length page) (search_note count) else page)
                 in respond_html ev osize 200 ''OK'' page (keep_flag req) sv)))"

definition handle_search :: handler where
  "handle_search ev req captured osize sv =
     (if strcmp (rq_method req) ''GET'' = 0
      then respond_html ev osize 200 ''OK'' page_search_form (keep_flag req) sv
      else if rq_content_type req = []
              \<or> strcasecmp_safe (rq_content_type req) ''application/x-www-form-urlencoded'' \<noteq> 0
      then respond_html ev osize 415 ''UNSUPPORTED MEDIA TYPE'' page_415 False sv
      else if rq_content_length req < 0
      then respond_html ev osize 400 ''BAD REQUEST'' page_no_length False sv
      else if int (length (rq_body req)) \<noteq> rq_content_length req
      then respond_html ev osize 400 ''BAD REQUEST''
             (page_bad_length (length (rq_body req)) (rq_content_length req)) False sv
      else case read_criteria (rq_body req) of
             Inl msg \<Rightarrow> respond osize 400 ''BAD REQUEST'' msg sv
           | Inr c \<Rightarrow>
               if no_criteria c then respond_html ev osize 200 ''OK'' page_no_criteria (keep_flag req) sv
               else run_search c ev req captured osize sv)"

subsection \<open>Files\<close>

definition handle_blog :: handler where
  "handle_blog ev req captured osize sv =
     (if \<not> http_is_safe_path (rq_path req)
      then respond_html ev osize 403 ''FORBIDDEN'' page_forbidden False sv
      else if strcmp (rq_path req) ''/blog'' = 0
      then Ret (http_build_redirect (ev_date ev) 301 ''/blog/'' osize, sv)
      else let (file, ct) = http_serve_file (ev_fs ev) ''blog'' (drop 5 (rq_path req)) BLOG_BODY_MAX
           in case file of
                Some data \<Rightarrow> Ret (http_build_response (ev_date ev) 200 ''OK'' ct data (keep_flag req) osize, sv)
              | None \<Rightarrow> respond_html ev osize 404 ''NOT FOUND'' (page_blog_404 (rq_path req)) (keep_flag req) sv)"

definition handle_static :: handler where
  "handle_static ev req captured osize sv =
     (if \<not> http_is_safe_path (rq_path req)
      then respond_html ev osize 403 ''FORBIDDEN'' page_forbidden False sv
      else let (file, ct) = http_serve_file (ev_fs ev) (sv_root sv) (rq_path req) BLOG_BODY_MAX
           in case file of
                Some data \<Rightarrow> Ret (http_build_response (ev_date ev) 200 ''OK'' ct data (keep_flag req) osize, sv)
              | None \<Rightarrow> Ret (None, sv))"

subsection \<open>Login and logout\<close>

definition form_value :: "string \<Rightarrow> string \<Rightarrow> string" where
  \<comment> \<open>the raw value of a form field, up to the next \<open>&\<close>, at most 63 characters\<close>
  "form_value body key =
     (case strstr body key of
        None \<Rightarrow> []
      | Some p \<Rightarrow> take 63 (takeWhile (\<lambda>c. c \<noteq> CHR ''&'') (drop (length key) p)))"

definition login_session :: "env \<Rightarrow> string \<Rightarrow> string option \<Rightarrow> server \<Rightarrow> (string option \<times> server) run" where
  \<comment> \<open>the session created for a role; the readings of the clock during one request are taken as one\<close>
  "login_session ev username role sv =
     (case role of
        None \<Rightarrow> Ret (None, sv)
      | Some r \<Rightarrow>
          bind_run (session_create (ev_random ev) username r (ev_now ev) (ev_now ev) (ev_now ev) (sv_sess sv))
            (\<lambda>(sid, st). Ret (sid, sv\<lparr>sv_sess := st\<rparr>)))"

definition handle_login :: handler where
  "handle_login ev req captured osize sv =
     (if strcmp (rq_method req) ''GET'' = 0
      then respond_html ev osize 200 ''OK'' page_login False sv
      else if strcmp (rq_method req) ''POST'' = 0
      then (let username = form_value (rq_body req) ''username='';
                password = form_value (rq_body req) ''password=''
            in bind_run (auth_lookup sv username password) (\<lambda>role.
               bind_run (login_session ev username role sv) (\<lambda>(sid, sv).
                 case sid of
                   Some sid \<Rightarrow> Ret (Some (login_redirect sid SESSION_TTL), sv)
                 | None \<Rightarrow> respond_html ev osize 401 ''UNAUTHORIZED'' page_login_failed False sv)))
      else respond osize 405 ''METHOD NOT ALLOWED'' (unlines [''405 Method Not Allowed'']) sv)"

definition handle_logout :: handler where
  "handle_logout ev req captured osize sv =
     bind_run (case cookie_sid (rq_cookie req) of
                 None \<Rightarrow> Ret (sv_sess sv)
               | Some sid \<Rightarrow> session_destroy sid (sv_sess sv))
       (\<lambda>st. Ret (Some logout_redirect, sv\<lparr>sv_sess := st\<rparr>))"

subsection \<open>The registry\<close>

definition handler_registry :: "(handler_type \<times> handler) list" where
  "handler_registry =
    [(HANDLER_HELLO, handle_hello), (HANDLER_HELP, handle_help), (HANDLER_SLEEP, handle_sleep),
     (HANDLER_INDEX, handle_index), (HANDLER_USER_LIST, handle_user_list),
     (HANDLER_USER_FIND_INDEX, handle_user_find_index),
     (HANDLER_USER_COMPARE_VERBOSE, handle_user_compare_verbose),
     (HANDLER_USER_COMPARE, handle_user_compare), (HANDLER_USER_BY_NAME, handle_user_by_name),
     (HANDLER_USER_SIMPLE_FIND, handle_user_simple_find), (HANDLER_USER_ADD, handle_user_add),
     (HANDLER_USER_DELETE, handle_user_delete), (HANDLER_DELETE_FORM, handle_delete_form),
     (HANDLER_SEARCH, handle_search), (HANDLER_BLOG, handle_blog), (HANDLER_STATIC, handle_static),
     (HANDLER_LOGIN, handle_login), (HANDLER_LOGOUT, handle_logout)]"

definition route_table_get_handler_fn :: "handler_type \<Rightarrow> handler option" where
  "route_table_get_handler_fn t = map_of handler_registry t"

end
