(* ===== verification/Dispatch.thy ===== *)
theory Dispatch
  imports Handlers Default_Routes
begin

text \<open>
  From a request to its response in \<open>src/request_handler.c\<close>: \<open>request_handler_process_http\<close> finds
  the route, checks credentials and calls the handler; \<open>request_handler_process\<close> is the older text
  interface; \<open>request_handler_handle_connection\<close> is the keep-alive loop of one connection, over the
  list of what its system calls return.  Log messages and console output are left out.
\<close>

subsection \<open>Authorization of a route\<close>

datatype verdict = Allowed | Answered reply

definition deny :: "request \<Rightarrow> route_entry \<Rightarrow> reply" where
  \<comment> \<open>no valid credentials: 401 for a client that sent an Authorization header, else to the login page\<close>
  "deny req e =
     Some (if rq_authorization req \<noteq> []
           then head_401 (if re_realm e = [] then ''Restricted'' else re_realm e) else head_to_login)"

definition check_role :: "env \<Rightarrow> request \<Rightarrow> nat \<Rightarrow> route_entry \<Rightarrow> string option \<Rightarrow> verdict" where
  "check_role ev req osize e role =
     (case role of
        None \<Rightarrow> Answered (deny req e)
      | Some r \<Rightarrow>
          if auth_role_matches r (re_role e) then Allowed
          else Answered (http_build_response (ev_date ev) 403 ''FORBIDDEN'' html_type page_role_forbidden False osize))"

definition authorize :: "env \<Rightarrow> request \<Rightarrow> nat \<Rightarrow> route_entry \<Rightarrow> server \<Rightarrow> (verdict \<times> server) run" where
  \<comment> \<open>the cookie session first, then HTTP Basic\<close>
  "authorize ev req osize e sv =
     (if re_role e = [] then Ret (Allowed, sv)
      else bind_run (cookie_session ev req sv) (\<lambda>(s, sv).
        case s of
          Some s \<Rightarrow> Ret (check_role ev req osize e (Some (se_role s)), sv)
        | None \<Rightarrow>
            bind_run (basic_role req sv) (\<lambda>b.
              case b of
                Bad_Base64 \<Rightarrow>
                  Ret (Answered (build_http_response osize 400 ''BAD REQUEST''
                         (unlines [''400 Bad Request: invalid Base64''])), sv)
              | Role r \<Rightarrow> Ret (check_role ev req osize e r, sv))))"

subsection \<open>Dispatch\<close>

definition no_routes :: "route_table option \<Rightarrow> bool" where
  "no_routes rt = (case rt of None \<Rightarrow> True | Some t \<Rightarrow> length (rt_exact t) + length (rt_prefix t) = 0)"

definition current_table :: "server \<Rightarrow> (route_table \<times> server) run" where
  \<comment> \<open>the configured table, or the defaults, which are built once\<close>
  "current_table sv =
     (let rt = config_get_route_table (sv_config sv)
      in if \<not> no_routes rt then Ret (the rt, sv)
         else case sv_default_rt sv of
             Some t \<Rightarrow> Ret (t, sv)
           | None \<Rightarrow> bind_run (route_table_populate_defaults route_table_init)
                       (\<lambda>t. Ret (t, sv\<lparr>sv_default_rt := Some t\<rparr>)))"

definition reply_404 :: "request \<Rightarrow> nat \<Rightarrow> reply" where
  "reply_404 req osize = build_http_response osize 404 ''NOT FOUND''
     (snprintf_to BLOG_BODY_MAX (unlines [''404 Not Found: '' @ rq_method req @ '' '' @ rq_path req]))"

definition reply_405 :: "string \<Rightarrow> nat \<Rightarrow> reply" where
  "reply_405 allow osize =
     (let head = snprintf_to 512 (head_405 (if allow = [] then ''GET'' else allow))
      in if length head < osize then Some head else None)"

definition run_handler :: "env \<Rightarrow> request \<Rightarrow> nat \<Rightarrow> handler_type \<Rightarrow> string \<Rightarrow> server \<Rightarrow> (reply \<times> server) run" where
  \<comment> \<open>the handler of a route, or the 404 response when there is none or it gives -1\<close>
  "run_handler ev req osize t captured sv =
     (case route_table_get_handler_fn t of
        None \<Rightarrow> Ret (reply_404 req osize, sv)
      | Some fn \<Rightarrow>
          bind_run (fn ev req captured osize sv) (\<lambda>(r, sv).
            Ret (case r of None \<Rightarrow> reply_404 req osize | Some out \<Rightarrow> Some out, sv)))"

definition serve_result :: "env \<Rightarrow> request \<Rightarrow> nat \<Rightarrow> find_result \<Rightarrow> server \<Rightarrow> (reply \<times> server) run" where
  \<comment> \<open>what follows the route lookup\<close>
  "serve_result ev req osize r sv =
     (if fr_is_405 r then Ret (reply_405 (fr_allow r) osize, sv)
      else case fr_entry r of
          None \<Rightarrow> Ret (reply_404 req osize, sv)
        | Some e \<Rightarrow>
            bind_run (authorize ev req osize e sv) (\<lambda>(v, sv).
              case v of
                Answered rep \<Rightarrow> Ret (rep, sv)
              | Allowed \<Rightarrow> run_handler ev req osize (re_handler e) (fr_captured r) sv))"

definition request_handler_process_http ::
    "env \<Rightarrow> request \<Rightarrow> nat \<Rightarrow> server \<Rightarrow> (reply \<times> server) run" where
  "request_handler_process_http ev req osize sv =
     (if osize = 0 then Ret (None, sv)
      else bind_run (current_table sv) (\<lambda>(rt, sv).
             bind_run (route_table_find rt (rq_method req) (rq_path req))
               (\<lambda>r. serve_result ev req osize r sv)))"

subsection \<open>The text interface\<close>

definition connection_info :: string where
  "connection_info = unlines [''=== Connection Info ==='', ''Client IP: 127.0.0.1'',
     ''Client Port: 54321'', ''Server: MiniWeb'', ''======================='']"

definition user_answer :: "server \<Rightarrow> nat option \<Rightarrow> string \<Rightarrow> string" where
  "user_answer sv found name =
     (case found of
        Some u \<Rightarrow> (let d = user_data sv u
                   in unlines [''FOUND '' @ el_name d @ '' '' @ el_password d @ '' '' @ el_mobile d])
      | None \<Rightarrow> unlines [''NOT_FOUND '' @ name])"

definition captured_text :: "env \<Rightarrow> string \<Rightarrow> server \<Rightarrow> (reply \<times> server) run" where
  \<comment> \<open>what \<open>capture_stdout\<close> puts into \<open>char cap[8192]\<close>\<close>
  "captured_text ev printed sv =
     bind_run (capture_stdout ev printed 8192) (\<lambda>t. Ret (map_option cstr t, sv))"

definition process_text :: "env \<Rightarrow> request \<Rightarrow> server \<Rightarrow> (reply \<times> server) run" where
  \<comment> \<open>the routes of \<open>request_handler_process\<close> in their order: the text after the connection info\<close>
  "process_text ev req sv =
     (let meth = rq_method req; path = rq_path req;
          get = (strcmp meth ''GET'' = 0)
      in if get \<and> strcmp path ''/hello'' = 0 then Ret (build_hello_response 512, sv)
         else if get \<and> strcmp path ''/users'' = 0 then
           bind_run (of_loop (user_store_print_index (sv_store sv))) (\<lambda>t. captured_text ev t sv)
         else if get \<and> starts_with path ''/users/find-index/'' then
           (let name = url_decode_path (drop 18 path)
            in bind_run (of_loop (user_store_find_index (sv_store sv) name))
                 (\<lambda>f. Ret (Some (user_answer sv f name), sv)))
         else if get \<and> starts_with path ''/users/compare-verbose/'' then
           captured_text ev (ev_compare ev (url_decode_path (drop 23 path)) True) sv
         else if get \<and> starts_with path ''/users/compare/'' then
           captured_text ev (ev_compare ev (url_decode_path (drop 15 path)) False) sv
         else if get \<and> starts_with path ''/user/'' then
           (let name = url_decode_path (drop 6 path)
            in if name = [] then Ret (Some (unlines [''NOT_FOUND (empty name)'']), sv)
               else bind_run (of_loop (user_store_find (sv_store sv) name))
                      (\<lambda>f. Ret (Some (user_answer sv f name), sv)))
         else if strcmp meth ''POST'' = 0 \<and> strcmp path ''/users'' = 0 then
           (if rq_body req = []
            then Ret (Some (unlines [''ERROR: POST /users requires a body with CSV data'']), sv)
            else bind_run (of_loop (user_store_add (rq_body req) (sv_store sv))) (\<lambda>(rc, st).
                   Ret (Some (unlines [if rc = 0 then ''ADDED'' else ''EXISTS'']), sv\<lparr>sv_store := st\<rparr>)))
         else if strcmp meth ''DELETE'' = 0 \<and> starts_with path ''/users/'' then
           (let name = url_decode_path (drop 7 path)
            in if name = [] then Ret (Some (unlines [''ERROR: DELETE requires a user name'']), sv)
               else bind_run (of_loop (user_store_delete name (sv_store sv))) (\<lambda>(rc, st).
                      Ret (Some (unlines [if rc = 0 then ''DELETED'' else ''NO_SUCH_USER'']), sv\<lparr>sv_store := st\<rparr>)))
         else Ret (Some (unlines [''404 Not Found: '' @ meth @ '' '' @ path]), sv))"

definition request_handler_process :: "env \<Rightarrow> request \<Rightarrow> nat \<Rightarrow> server \<Rightarrow> (reply \<times> server) run" where
  \<comment> \<open>the output, \<open>None\<close> when it does not fit\<close>
  "request_handler_process ev req osize sv =
     (if osize \<le> length connection_info then Ret (None, sv)
      else bind_run (process_text ev req sv) (\<lambda>(r, sv).
        Ret (case r of
               None \<Rightarrow> None
             | Some t \<Rightarrow> if osize - length connection_info \<le> length t then None
                         else Some (connection_info @ t), sv)))"

subsection \<open>One connection\<close>

datatype received =
  Data string  \<comment> \<open>a positive number of bytes\<close>
  | Closed | Idle_Timeout | Recv_Failed

record turn =
  \<comment> \<open>what the system calls of one round of the loop return\<close>
  tu_recv :: received
  tu_env :: env
  tu_sent :: "int list"  \<comment> \<open>results of \<open>send\<close>; when they are used up, the rest goes out at once\<close>

abbreviation MAX_KEEP_ALIVE_REQUESTS :: nat where "MAX_KEEP_ALIVE_REQUESTS \<equiv> 10000"

definition RESP_BUF_SIZE :: nat where "RESP_BUF_SIZE = 5 * 1024 * 1024 + 4096"

fun send_all :: "string \<Rightarrow> int list \<Rightarrow> bool \<times> string" where
  \<comment> \<open>the loop that sends what remains: success, and the bytes that went out\<close>
  "send_all data [] = (True, data)"
| "send_all data (r # rs) =
     (if data = [] then (True, [])
      else if r < 0 then (False, [])
      else apsnd ((@) (take (nat r) data)) (send_all (drop (nat r) data) rs))"

definition route_host :: "string \<Rightarrow> server \<Rightarrow> server" where
  \<comment> \<open>the document root of the server block that the Host header selects\<close>
  "route_host raw sv =
     (case scan_host raw of
        None \<Rightarrow> sv
      | Some h \<Rightarrow>
          let host = host_value h
          in if host = [] then sv
             else case config_find_server (sv_config sv) (Some host) of
                 None \<Rightarrow> sv
               | Some i \<Rightarrow> request_handler_set_root (sb_root (cf_servers (the (sv_config sv)) ! i)) sv)"

definition answer :: "env \<Rightarrow> request \<Rightarrow> server \<Rightarrow> (string \<times> server) run" where
  \<comment> \<open>the response bytes for a request\<close>
  "answer ev req sv =
     bind_run (request_handler_process_http ev req RESP_BUF_SIZE sv)
       (\<lambda>(r, sv). Ret (case r of None \<Rightarrow> response_500 | Some out \<Rightarrow> out, sv))"

definition finish :: "nat \<Rightarrow> int" where
  "finish count = (if 0 < count then 0 else -1)"

fun connection_loop :: "turn list \<Rightarrow> nat \<Rightarrow> server \<Rightarrow> (int \<times> string list \<times> server) run" where
  \<comment> \<open>the result, the bytes sent for each request, and the state\<close>
  "connection_loop [] count sv = Ret (finish count, [], sv)"
| "connection_loop (t # ts) count sv =
     (if MAX_KEEP_ALIVE_REQUESTS \<le> count then Ret (finish count, [], sv)
      else case tu_recv t of
        Recv_Failed \<Rightarrow> Ret (-1, [], sv)
      | Closed \<Rightarrow> Ret (finish count, [], sv)
      | Idle_Timeout \<Rightarrow> Ret (finish count, [], sv)
      | Data raw \<Rightarrow>
          (case read_request (take 8191 raw) of
             None \<Rightarrow> Ret (-1, [response_malformed], sv)
           | Some (req, raw) \<Rightarrow>
               bind_run (answer (tu_env t) req (route_host raw sv)) (\<lambda>(out, sv).
                 let (ok, sent) = send_all out (tu_sent t)
                 in if \<not> ok then Ret (-1, [sent], sv)
                    else bind_run (connection_loop ts (count + 1) sv)
                           (\<lambda>(rc, outs, sv). Ret (rc, sent # outs, sv)))))"

definition request_handler_handle_connection :: "turn list \<Rightarrow> server \<Rightarrow> (int \<times> string list \<times> server) run" where
  "request_handler_handle_connection ts sv = connection_loop ts 0 sv"

end
