(* ===== verification/Dispatch_Correct.thy ===== *)
theory Dispatch_Correct
  imports Dispatch User_Search
begin

text \<open>
  What dispatch promises: a protected route is served only to sufficient credentials, a login opens
  a session that authorizes the requests that follow, every reply is an HTTP response, and adding
  a user through the server refines adding an account.
\<close>

subsection \<open>Authorization\<close>

definition granted :: "env \<Rightarrow> request \<Rightarrow> server \<Rightarrow> string \<Rightarrow> server \<Rightarrow> bool" where
  \<comment> \<open>the credentials of the request give this role: a live cookie session, or else HTTP Basic\<close>
  "granted ev req sv role sv' \<longleftrightarrow>
     (\<exists>s. cookie_session ev req sv = Ret (Some s, sv') \<and> role = se_role s)
     \<or> cookie_session ev req sv = Ret (None, sv') \<and> basic_role req sv' = Ret (Role (Some role))"

definition suffices :: "string \<Rightarrow> string \<Rightarrow> bool" where
  "suffices role required \<longleftrightarrow> role = ''admin'' \<or> role = required"

definition denied :: "env \<Rightarrow> request \<Rightarrow> nat \<Rightarrow> route_entry \<Rightarrow> reply \<Rightarrow> bool" where
  \<comment> \<open>the four answers given without calling the handler: 401 or the login page, 400, 403\<close>
  "denied ev req osize e ans \<longleftrightarrow>
     ans = deny req e
     \<or> ans = build_http_response osize 400 ''BAD REQUEST'' (unlines [''400 Bad Request: invalid Base64''])
     \<or> ans = http_build_response (ev_date ev) 403 ''FORBIDDEN'' html_type page_role_forbidden False osize"

lemma auth_role_matches_iff: "r \<noteq> [] \<Longrightarrow> auth_role_matches role r \<longleftrightarrow> suffices role r"
  by (simp add: auth_role_matches_def suffices_def)

lemma cookie_session_frame:
  "cookie_session ev req sv = Ret (s, sv') \<Longrightarrow> sv' = sv\<lparr>sv_sess := sv_sess sv'\<rparr>"
  by (auto simp: cookie_session_def bind_run_Ret_iff split: option.splits if_splits)

lemma authorize_cases:
  assumes "authorize ev req osize e sv = Ret (v, sv1)" and "re_role e \<noteq> []"
  shows "(v = Allowed \<and> (\<exists>role. granted ev req sv role sv1 \<and> suffices role (re_role e)))
    \<or> (\<exists>ans. v = Answered ans \<and> denied ev req osize e ans
         \<and> \<not> (\<exists>role sv2. granted ev req sv role sv2 \<and> suffices role (re_role e)))"
proof -
  obtain s sv2 where c: "cookie_session ev req sv = Ret (s, sv2)"
    using assms by (auto simp: authorize_def bind_run_Ret_iff)
  show ?thesis
  proof (cases s)
    case (Some s)
    then have "v = check_role ev req osize e (Some (se_role s))" "sv1 = sv2"
      using assms c by (auto simp: authorize_def)
    then show ?thesis
      using c Some auth_role_matches_iff [OF assms(2)]
      by (auto simp: check_role_def granted_def denied_def)
  next
    case None
    then obtain b where b1: "basic_role req sv2 = Ret b"
        "(case b of Bad_Base64 \<Rightarrow> Ret (Answered (build_http_response osize 400 ''BAD REQUEST''
            (unlines [''400 Bad Request: invalid Base64''])), sv2)
          | Role r \<Rightarrow> Ret (check_role ev req osize e r, sv2)) = Ret (v, sv1)"
      using assms c by (auto simp: authorize_def bind_run_Ret_iff)
    then have b: "basic_role req sv2 = Ret b" "sv1 = sv2" by (auto split: basic_auth.splits)
    show ?thesis
    proof (cases b)
      case Bad_Base64
      then show ?thesis
        using assms c None b by (auto simp: authorize_def granted_def denied_def)
    next
      case (Role r)
      then have v: "v = check_role ev req osize e r"
        using assms c None b by (auto simp: authorize_def)
      show ?thesis
      proof (cases r)
        case None
        then show ?thesis
          using v c \<open>s = None\<close> b Role by (auto simp: check_role_def granted_def denied_def)
      next
        case (Some role)
        then show ?thesis
          using v c \<open>s = None\<close> b Role auth_role_matches_iff [OF assms(2)]
          by (auto simp: check_role_def granted_def denied_def)
      qed
    qed
  qed
qed

lemma authorize_frame:
  assumes "authorize ev req osize e sv = Ret (v, sv1)"
  shows "sv1 = sv\<lparr>sv_sess := sv_sess sv1\<rparr>"
proof -
  have "sv1 = sv \<or> (\<exists>s. cookie_session ev req sv = Ret (s, sv1))"
    using assms
    by (auto simp: authorize_def bind_run_Ret_iff split: option.splits basic_auth.splits if_splits)
      (metis basic_auth.exhaust)
  then show ?thesis using cookie_session_frame by fastforce
qed

lemma serve_protected:
  assumes "serve_result ev req osize r sv = Ret (ans, sv')"
    and "fr_entry r = Some e" and "\<not> fr_is_405 r" and "re_role e \<noteq> []"
  shows "(\<exists>role sv1. granted ev req sv role sv1 \<and> suffices role (re_role e)
            \<and> run_handler ev req osize (re_handler e) (fr_captured r) sv1 = Ret (ans, sv'))
    \<or> (denied ev req osize e ans \<and> sv' = sv\<lparr>sv_sess := sv_sess sv'\<rparr>
       \<and> \<not> (\<exists>role sv1. granted ev req sv role sv1 \<and> suffices role (re_role e)))"
proof -
  obtain v sv1 where a: "authorize ev req osize e sv = Ret (v, sv1)"
    and r: "(case v of Answered ans \<Rightarrow> Ret (ans, sv1)
      | Allowed \<Rightarrow> run_handler ev req osize (re_handler e) (fr_captured r) sv1) = Ret (ans, sv')"
    using assms(1-3) by (auto simp: serve_result_def bind_run_Ret_iff)
  show ?thesis
    using authorize_cases [OF a assms(4)] authorize_frame [OF a] r by (auto split: verdict.splits)
qed

subsection \<open>Sessions opened by a login\<close>

lemma hex_digits_plain: "c \<in> set hex_digits \<Longrightarrow> c \<noteq> CHR '';'' \<and> c \<noteq> SPC \<and> c \<noteq> NUL"
  by (auto simp: hex_digits_def)

lemma hex_encode_plain: "c \<in> set (hex_encode bs) \<Longrightarrow> c \<in> set hex_digits"
proof (induction bs)
  case (Cons b bs)
  then show ?case by (auto simp: hex_digit_in nibbles_less)
qed simp

lemma cookie_sid_hex:
  assumes "length bs = 32"
  shows "cookie_sid (''session_id='' @ hex_encode bs) = Some (hex_encode bs)"
proof -
  have "strstr (''session_id='' @ hex_encode bs) ''session_id='' = Some (''session_id='' @ hex_encode bs)"
    by (subst strstr.simps) (simp add: starts_with_def)
  moreover have "takeWhile (\<lambda>c. c \<noteq> CHR '';'' \<and> c \<noteq> SPC) (hex_encode bs) = hex_encode bs"
    using hex_digits_plain hex_encode_plain by fastforce
  moreover have "length (hex_encode bs) = 64" using assms by simp
  ultimately show ?thesis unfolding cookie_sid_def by (simp del: takeWhile_eq_all_conv)
qed

subsection \<open>Replies\<close>

definition http_reply :: "reply \<Rightarrow> bool" where
  "http_reply r \<longleftrightarrow> (case r of None \<Rightarrow> True | Some out \<Rightarrow> starts_with out ''HTTP/1.1 '')"

lemma http_reply_None [simp]: "http_reply None"
  by (simp add: http_reply_def)

lemma http_reply_head [simp]: "http_reply (Some (CHR ''H'' # CHR ''T'' # CHR ''T'' # CHR ''P'' # CHR ''/'' # CHR ''1'' # CHR ''.'' # CHR ''1'' # SPC # out))"
  by (simp add: http_reply_def starts_with_def)

lemma http_reply_build [simp]:
  "http_reply (build_http_response n status text body)"
  "http_reply (http_build_response date status text ct body keep n)"
  "http_reply (http_build_redirect date status location n)"
  by (simp_all add: build_http_response_def Let_def plain_head_def as_lines_def http_build_response_def
      emit_response_def response_head_def http_build_redirect_def redirect_head_def)

lemma http_reply_heads [simp]:
  "http_reply (Some (login_redirect sid ttl))" "http_reply (Some logout_redirect)"
  "http_reply (deny req e)" "http_reply (Some (head_index ct len conn @ data))"
  "http_reply (Some response_500)" "http_reply (Some response_malformed)"
  by (simp_all add: login_redirect_def logout_redirect_def deny_def head_401_def head_to_login_def
      head_index_def response_500_def response_malformed_def as_lines_def)

definition run_reply :: "(reply \<times> server) run \<Rightarrow> bool" where
  "run_reply m \<longleftrightarrow> (\<forall>r sv. m = Ret (r, sv) \<longrightarrow> http_reply r)"

lemma run_reply_Ret [simp]: "run_reply (Ret (r, sv)) = http_reply r"
  by (simp add: run_reply_def)

lemma run_reply_bind: "(\<And>a. m = Ret a \<Longrightarrow> run_reply (f a)) \<Longrightarrow> run_reply (bind_run m f)"
  by (auto simp: run_reply_def bind_run_Ret_iff)

lemma run_reply_respond [simp]:
  "run_reply (respond n status text body sv)" "run_reply (respond_html ev n status text body keep sv)"
  "run_reply (respond_user n found name sv)"
  by (simp_all add: respond_def respond_html_def respond_user_def split: option.split)

lemma run_reply_delete [simp]: "run_reply (delete_reply n name sv)"
  by (auto simp: delete_reply_def Let_def intro!: run_reply_bind split: prod.split)

lemma run_reply_compare [simp]: "run_reply (compare_reply v ev req captured n sv)"
  by (auto simp: compare_reply_def Let_def intro!: run_reply_bind split: option.split)

lemma run_reply_search [simp]: "run_reply (run_search c ev req captured n sv)"
  by (auto simp: run_search_def Let_def intro!: run_reply_bind split: prod.split)










subsection \<open>Properties\<close>

text \<open>
  C1: a route that requires a role is served only to credentials that suffice.  Either the live
  cookie session, or else HTTP Basic, gives a role that is \<open>admin\<close> or the required one, and the
  outcome is that of the handler; or there are no such credentials, the reply is one of 401, the
  redirect to the login page, 400 and 403, and nothing but expired sessions changes.
\<close>
theorem protected_route:
  assumes "request_handler_process_http ev req n sv = Ret (ans, sv')" and "0 < n"
    and "current_table sv = Ret (rt, sv0)"
    and "route_table_find rt (rq_method req) (rq_path req) = Ret r"
    and "fr_entry r = Some e" and "\<not> fr_is_405 r" and "re_role e \<noteq> []"
  shows "(\<exists>role sv1. granted ev req sv0 role sv1 \<and> (role = ''admin'' \<or> role = re_role e)
            \<and> run_handler ev req n (re_handler e) (fr_captured r) sv1 = Ret (ans, sv'))
    \<or> (denied ev req n e ans \<and> sv' = sv0\<lparr>sv_sess := sv_sess sv'\<rparr>
       \<and> \<not> (\<exists>role sv1. granted ev req sv0 role sv1 \<and> (role = ''admin'' \<or> role = re_role e)))"
proof -
  have "serve_result ev req n r sv0 = Ret (ans, sv')"
    using assms(1-4) by (simp add: request_handler_process_http_def)
  from serve_protected [OF this assms(5,6,7)] show ?thesis by (simp add: suffices_def)
qed

definition admin_table :: route_table where
  "admin_table = \<lparr>rt_exact = [], rt_prefix = [mk_entry ''GET'' ''/admin/'' MATCH_PREFIX HANDLER_HELP [] ''admin''],
     rt_hash = empty_slots\<rparr>"

definition demo_config :: server_config where
  "demo_config = \<lparr>cf_server_name = [], cf_host = [], cf_port = 8080, cf_www_root = ''www'', cf_user_file = [],
     cf_log_path = [], cf_system_log = [], cf_access_log = [], cf_auth_user_file = [], cf_log_level = LOG_INFO,
     cf_error_log = [], cf_error_log_level = LOG_WARNING, cf_log_max_lines = 0, cf_log_max_roll_files = 0,
     cf_max_connections = 1, cf_max_request_bytes = 1, cf_worker_processes = 1,
     cf_worker_shutdown_timeout_ms = 1, cf_servers = [], cf_route_table = Some admin_table, cf_root = [],
     cf_data_path = []\<rparr>"

definition demo_server :: server where
  "demo_server = \<lparr>sv_store = user_store_shm_init blank_region, sv_sess = session_init, sv_root = ''www'',
     sv_auth = [\<lparr>au_username = ''root'', au_password = ''pw'', au_role = ''admin''\<rparr>],
     sv_config = Some demo_config, sv_default_rt = None\<rparr>"

definition demo_env :: env where
  "demo_env = \<lparr>ev_fs = (\<lambda>_. None), ev_date = [], ev_now = 0, ev_random = replicate 32 7, ev_pipe = None,
     ev_compare = (\<lambda>_ _. [])\<rparr>"

definition admin_request :: request where
  "admin_request = zero_request\<lparr>rq_method := ''GET'', rq_path := ''/admin/x''\<rparr>"

lemma demo_table: "current_table demo_server = Ret (admin_table, demo_server)"
  by (simp add: current_table_def demo_server_def demo_config_def config_get_route_table_def
      no_routes_def admin_table_def)

lemma admin_entry:
  "rt_prefix admin_table = [\<lparr>re_path = ''/admin/'', re_match = MATCH_PREFIX, re_method = ''GET'',
      re_handler = HANDLER_HELP, re_realm = [], re_role = ''admin''\<rparr>]" "rt_exact admin_table = []"
  by (simp_all add: admin_table_def mk_entry_def copy_text_def)

lemma admin_find:
  "route_table_find admin_table ''GET'' ''/admin/x'' = Ret
     \<lparr>fr_entry = Some (hd (rt_prefix admin_table)), fr_captured = ''x'', fr_is_405 = False, fr_allow = []\<rparr>"
proof -
  have "rt_wf admin_table" by (simp add: rt_wf_def admin_table_def mk_entry_def)
  then have "hash_lookup admin_table ''GET'' ''/admin/x'' = Ret (None, False)"
    using hash_lookup_ends [of admin_table "''GET''" "''/admin/x''"] by (auto simp: admin_entry)
  then show ?thesis
    by (simp add: route_table_find_def admin_entry scan_prefix.simps(2) path_matches_prefix_def
        starts_with_def no_result_def)
qed

lemma admin_cookie: "cookie_session demo_env admin_request demo_server = Ret (None, demo_server)"
  by (simp add: cookie_session_def admin_request_def zero_request_def)

lemma admin_basic: "basic_role admin_request demo_server = Ret (Role None)"
  by (simp add: basic_role_def admin_request_def zero_request_def)

lemma protected_route_witness:
  "\<exists>ans sv'. request_handler_process_http demo_env admin_request 1000 demo_server = Ret (ans, sv')
     \<and> denied demo_env admin_request 1000 (hd (rt_prefix admin_table)) ans"
proof -
  let ?e = "hd (rt_prefix admin_table)"
  have r: "?e = \<lparr>re_path = ''/admin/'', re_match = MATCH_PREFIX, re_method = ''GET'',
      re_handler = HANDLER_HELP, re_realm = [], re_role = ''admin''\<rparr>" by (simp add: admin_entry)
  have mp: "rq_method admin_request = ''GET''" "rq_path admin_request = ''/admin/x''"
    by (simp_all add: admin_request_def zero_request_def)
  have "authorize demo_env admin_request 1000 ?e demo_server = Ret (Answered (deny admin_request ?e), demo_server)"
    by (simp add: authorize_def r admin_cookie admin_basic check_role_def)
  then have p: "request_handler_process_http demo_env admin_request 1000 demo_server
      = Ret (deny admin_request ?e, demo_server)"
    by (simp add: request_handler_process_http_def demo_table mp admin_find serve_result_def)
  have "\<not> granted demo_env admin_request demo_server role sv1" for role sv1
    by (auto simp: granted_def admin_cookie admin_basic)
  then have "denied demo_env admin_request 1000 ?e (deny admin_request ?e)"
    using protected_route [OF p _ demo_table, unfolded mp, OF _ admin_find, of ?e] by (simp add: r)
  then show ?thesis using p by blast
qed



text \<open>
  C8: a login opens a session that authorizes the requests that follow.  When the user name and
  password of the form give a role and the session table takes the session, the reply sets the
  cookie \<open>session_id\<close> to the token, and any request that sends this cookie back within the hour has
  exactly that role, cut to its field; the user store stays as it was.
\<close>
theorem login_then_session:
  assumes "rq_method req = ''POST''"
    and "auth_lookup sv (form_value (rq_body req) ''username='') (form_value (rq_body req) ''password='')
         = Ret (Some role)"
    and "sess_wf (sv_sess sv)" and "has_free (sv_sess sv)" and "length (ev_random ev) = 32"
    and "\<forall>i < MAX_SESSIONS. \<not> owns (ss_sessions (sv_sess sv)) (hex_encode (ev_random ev)) i"
    and "session_create (ev_random ev) (form_value (rq_body req) ''username='') role
           (ev_now ev) (ev_now ev) (ev_now ev) (sv_sess sv) = Ret (Some sid, st)"
    and "rq_cookie req2 = ''session_id='' @ sid" and "ev_now ev2 \<le> ev_now ev + SESSION_TTL"
  shows "handle_login ev req captured n sv = Ret (Some (login_redirect sid SESSION_TTL), sv\<lparr>sv_sess := st\<rparr>)
    \<and> granted ev2 req2 (sv\<lparr>sv_sess := st\<rparr>) (take 31 role) (sv\<lparr>sv_sess := st\<rparr>)"
proof -
  have sid: "sid = hex_encode (ev_random ev)"
    and look: "\<exists>s. session_lookup sid (ev_now ev2) st = Ret (Some s, st) \<and> se_role s = take 31 role"
    using created_session [OF assms(3-7) assms(9)] by auto
  have "handle_login ev req captured n sv = Ret (Some (login_redirect sid SESSION_TTL), sv\<lparr>sv_sess := st\<rparr>)"
    by (simp add: handle_login_def assms(1,2,7) login_session_def)
  moreover have "cookie_sid (rq_cookie req2) = Some sid" "rq_cookie req2 \<noteq> []"
    using assms(5,8) cookie_sid_hex sid by auto
  then have "granted ev2 req2 (sv\<lparr>sv_sess := st\<rparr>) (take 31 role) (sv\<lparr>sv_sess := st\<rparr>)"
    using look by (auto simp: granted_def cookie_session_def)
  ultimately show ?thesis by blast
qed

definition login_request :: request where
  "login_request = zero_request\<lparr>rq_method := ''POST'', rq_body := ''username=root&password=pw''\<rparr>"

lemma login_values:
  "form_value (rq_body login_request) ''username='' = ''root''"
  "form_value (rq_body login_request) ''password='' = ''pw''"
  by code_simp+

lemma login_then_session_witness:
  "\<exists>sid st. handle_login demo_env login_request [] 1000 demo_server
       = Ret (Some (login_redirect sid SESSION_TTL), demo_server\<lparr>sv_sess := st\<rparr>)
     \<and> granted demo_env (zero_request\<lparr>rq_cookie := ''session_id='' @ sid\<rparr>) (demo_server\<lparr>sv_sess := st\<rparr>)
         ''admin'' (demo_server\<lparr>sv_sess := st\<rparr>)"
proof -
  have r: "length (ev_random demo_env) = 32" by (simp add: demo_env_def)
  obtain st where st: "session_create (ev_random demo_env) ''root'' ''admin'' 0 0 0 session_init
      = Ret (Some (hex_encode (ev_random demo_env)), st)"
    using create_at_init [OF r] by blast
  have a: "auth_lookup demo_server ''root'' ''pw'' = Ret (Some ''admin'')"
    by (simp add: auth_lookup_def demo_server_def)
  have s: "sv_sess demo_server = session_init" "ev_now demo_env = 0"
    by (simp_all add: demo_server_def demo_env_def)
  have m: "rq_method login_request = ''POST''" by (simp add: login_request_def)
  show ?thesis
    using login_then_session [of login_request demo_server "''admin''" demo_env
        "hex_encode (ev_random demo_env)" st
        "zero_request\<lparr>rq_cookie := ''session_id='' @ hex_encode (ev_random demo_env)\<rparr>" demo_env "[]" 1000]
      sess_wf_init no_owner_init r st
    by (auto simp: login_values a s m)
qed

text \<open>
  Adding a user through the server refines adding an account.  The reply is \<open>ADDED\<close> exactly
  when the account was added; a malformed line and a full pool are answered \<open>EXISTS\<close>, as a name in
  use is; only the store changes, and it stays well formed.
\<close>
theorem handle_user_add_refines:
  assumes "store_inv (sv_store sv) us T" and "rq_body req \<noteq> []"
  shows "\<exists>rc st us' T'. handle_user_add ev req captured n sv
      = Ret (build_http_response n 200 ''OK'' (unlines [if rc = 0 then ''ADDED'' else ''EXISTS'']), sv\<lparr>sv_store := st\<rparr>)
    \<and> store_inv st us' T'
    \<and> (rc, accounts st us')
        = add_account (us_list_free (sv_store sv) < pool_nodes) (rq_body req) (accounts (sv_store sv) us)"
proof -
  obtain rc st us' T' where a: "user_store_add (rq_body req) (sv_store sv) = Some (rc, st)" "store_inv st us' T'"
      "(rc, accounts st us')
        = add_account (us_list_free (sv_store sv) < pool_nodes) (rq_body req) (accounts (sv_store sv) us)"
    using add_correct [OF assms(1), of "rq_body req"] by blast
  have "handle_user_add ev req captured n sv
      = Ret (build_http_response n 200 ''OK'' (unlines [if rc = 0 then ''ADDED'' else ''EXISTS'']), sv\<lparr>sv_store := st\<rparr>)"
    using assms(2) a(1) by (simp add: handle_user_add_def Let_def respond_def)
  then show ?thesis using a(2,3) by blast
qed

lemma handle_user_add_refines_witness:
  "\<exists>st. handle_user_add demo_env (zero_request\<lparr>rq_body := ''ann''\<rparr>) [] 1000 demo_server
     = Ret (build_http_response 1000 200 ''OK'' (unlines [''EXISTS'']), demo_server\<lparr>sv_store := st\<rparr>)"
proof -
  have s: "sv_store demo_server = user_store_shm_init blank_region" by (simp add: demo_server_def)
  have "add_account b ''ann'' [] = (-1, [])" for b
    by (simp add: add_account_def parse_csv_line_def strtok_fields_def)
  then show ?thesis
    using handle_user_add_refines [of demo_server "[]" Leaf "zero_request\<lparr>rq_body := ''ann''\<rparr>" demo_env "[]" 1000]
      store_inv_init [of blank_region] by (fastforce simp: s)
qed

text \<open>
  The two responses that the connection loop prints itself announce a wrong length: 17 for a
  body of 16 bytes, and 25 for a body of 26 bytes.
\<close>
theorem fixed_responses_misframed:
  "(\<exists>hs body. response_malformed = as_lines (hs @ [[]]) @ body \<and> ''Content-Length: 17'' \<in> set hs \<and> length body = 16)
   \<and> (\<exists>hs body. response_500 = as_lines (hs @ [[]]) @ body \<and> ''Content-Length: 25'' \<in> set hs \<and> length body = 26)"
proof (rule conjI)
  show "\<exists>hs body. response_malformed = as_lines (hs @ [[]]) @ body \<and> ''Content-Length: 17'' \<in> set hs \<and> length body = 16"
    by (rule exI [of _ "[''HTTP/1.1 400 BAD REQUEST'', ''Content-Type: text/plain; charset=utf-8'',
        ''Content-Length: 17'', ''Connection: close'']"], rule exI [of _ "unlines [''400 Bad Request'']"])
      (simp add: response_malformed_def unlines_def)
  show "\<exists>hs body. response_500 = as_lines (hs @ [[]]) @ body \<and> ''Content-Length: 25'' \<in> set hs \<and> length body = 26"
    by (rule exI [of _ "[''HTTP/1.1 500 INTERNAL SERVER ERROR'', ''Content-Type: text/plain; charset=utf-8'',
        ''Content-Length: 25'', ''Connection: close'']"], rule exI [of _ "unlines [''500 Internal Server Error'']"])
      (simp add: response_500_def unlines_def)
qed

text \<open>
  The document root selected by a Host header outlives its request: a later request without
  a Host header is served from it, whatever the default server block is.
\<close>
theorem host_root_sticks:
  assumes "config_find_server (sv_config sv) (Some (host_value h)) = Some i" and "scan_host raw = Some h"
    and "host_value h \<noteq> []" and "sv_config sv = Some cf" and "sb_root (cf_servers cf ! i) \<noteq> []"
    and "scan_host raw2 = None"
  shows "sv_root (route_host raw2 (route_host raw sv)) = copy_text 128 (sb_root (cf_servers cf ! i))"
  using assms by (simp add: route_host_def request_handler_set_root_def Let_def)

definition two_sites :: server_config where
  "two_sites = demo_config\<lparr>cf_servers :=
     [\<lparr>sb_host = [], sb_port = 80, sb_root = ''www'', sb_access_log = [], sb_names = [''a.com''], sb_default = True\<rparr>,
      \<lparr>sb_host = [], sb_port = 80, sb_root = ''private'', sb_access_log = [], sb_names = [''b.com''], sb_default = False\<rparr>]\<rparr>"

definition raw_b :: string where
  "raw_b = ''GET / HTTP/1.1'' @ crlf @ ''Host: b.com'' @ crlf"

definition raw_old :: string where
  "raw_old = ''GET / HTTP/1.0'' @ crlf"

lemma host_root_sticks_witness:
  "sv_root (route_host raw_old (route_host raw_b (demo_server\<lparr>sv_config := Some two_sites\<rparr>))) = ''private''
   \<and> config_find_server (Some two_sites) None = Some 0"
proof -
  have h: "scan_host raw_b = Some ('' b.com'' @ crlf)" "scan_host raw_old = None" by code_simp+
  have v: "host_value ('' b.com'' @ crlf) = ''b.com''" by code_simp
  have f: "config_find_server (Some two_sites) (Some ''b.com'') = Some 1"
    "config_find_server (Some two_sites) None = Some 0" by code_simp+
  have r: "sb_root (cf_servers two_sites ! 1) = ''private''" by (simp add: two_sites_def)
  have c: "sv_config (demo_server\<lparr>sv_config := Some two_sites\<rparr>) = Some two_sites" by simp
  have "sv_root (route_host raw_old (route_host raw_b (demo_server\<lparr>sv_config := Some two_sites\<rparr>)))
      = copy_text 128 (sb_root (cf_servers two_sites ! 1))"
    by (rule host_root_sticks [OF _ h(1) _ c _ h(2)], unfold v c r) (simp_all only: f, simp_all)
  then show ?thesis using f(2) r by (simp add: copy_text_def)
qed

end
