(* ===== verification/Request_Correct.thy ===== *)
theory Request_Correct
  imports Request
begin

text \<open>
  What reading a request promises: form values survive encoding and decoding, and whatever bytes
  arrive, the fields of the request fit the arrays of \<open>request_t\<close>.
\<close>

subsection \<open>Form encoding\<close>

definition hex_digit :: "nat \<Rightarrow> char" where
  "hex_digit n = (if n < 10 then char_of (48 + n) else char_of (55 + n))"

definition plain_char :: "char \<Rightarrow> bool" where
  "plain_char c \<longleftrightarrow> isdigit_c c \<or> isupper_c c \<or> islower_c c"

definition url_encode_char :: "char \<Rightarrow> string" where
  \<comment> \<open>what a browser sends for a character of a form value\<close>
  "url_encode_char c =
     (if plain_char c then [c] else if c = SPC then ''+''
      else [CHR ''%'', hex_digit (char_code c div 16), hex_digit (char_code c mod 16)])"

definition url_encode :: "string \<Rightarrow> string" where
  "url_encode s = concat (map url_encode_char s)"

lemma hex_digit_value: "n < 16 \<Longrightarrow> isxdigit_c (hex_digit n) \<and> hex_value (hex_digit n) = n"
  by (auto simp: hex_digit_def isxdigit_c_def hex_value_def isdigit_c_def isupper_c_def)

lemma hex_char_digits: "hex_char (hex_digit (char_code c div 16)) (hex_digit (char_code c mod 16)) = c"
proof -
  have "char_code c div 16 < 16" "char_code c mod 16 < 16"
    using char_code_less [of c] by (simp_all add: less_mult_imp_div_less)
  then show ?thesis by (simp add: hex_char_def hex_digit_value)
qed

lemma hex_digit_encoded: "isxdigit_c (hex_digit (char_code c div 16)) \<and> isxdigit_c (hex_digit (char_code c mod 16))"
  using hex_digit_value char_code_less [of c] by (simp add: less_mult_imp_div_less)

lemma plain_char_not_special: "plain_char c \<Longrightarrow> c \<noteq> CHR ''%'' \<and> c \<noteq> CHR ''+'' \<and> c \<noteq> CHR ''&''"
  by (auto simp: plain_char_def isdigit_c_def isupper_c_def islower_c_def char_code_def)

lemma url_decode_loop_char:
  "url_decode_loop (url_encode_char c @ s) (Suc n) = apsnd ((#) c) (url_decode_loop s n)"
  using plain_char_not_special [of c] hex_char_digits [of c] hex_digit_encoded [of c]
  by (auto simp: url_encode_char_def)

lemma url_decode_loop_encode:
  "length s \<le> n \<Longrightarrow> rest = [] \<or> hd rest = CHR ''&'' \<Longrightarrow> url_decode_loop (url_encode s @ rest) n = (True, s)"
proof (induction s arbitrary: n)
  case Nil
  then show ?case by (cases rest; cases n) (auto simp: url_encode_def)
next
  case (Cons c s)
  then obtain m where "n = Suc m" "length s \<le> m" by (cases n) auto
  then show ?case using Cons by (simp add: url_encode_def url_decode_loop_char)
qed

subsection \<open>Bounds\<close>

definition fits :: "nat \<Rightarrow> string \<Rightarrow> bool" where
  \<comment> \<open>a C string in an array of \<open>n\<close> bytes\<close>
  "fits n s \<longleftrightarrow> length s < n \<and> NUL \<notin> set s"

definition request_fits :: "request \<Rightarrow> bool" where
  "request_fits r \<longleftrightarrow> fits 16 (rq_method r) \<and> fits 256 (rq_path r) \<and> fits 512 (rq_body r)
     \<and> fits 64 (rq_content_type r) \<and> fits 256 (rq_authorization r) \<and> fits 512 (rq_cookie r)
     \<and> -1 \<le> rq_content_length r \<and> rq_content_length r < 2 ^ 31"

lemma fits_copy: "NUL \<notin> set s \<Longrightarrow> 0 < n \<Longrightarrow> fits n (copy_text n s)"
  using set_copy_text by (fastforce simp: fits_def copy_text_length)

lemma fits_Nil [simp]: "0 < n \<Longrightarrow> fits n []"
  by (simp add: fits_def)

lemma fits_rstrip: "fits n s \<Longrightarrow> fits n (rstrip P s)"
  using set_rstrip [of P s] length_rstrip [of P s] by (auto simp: fits_def)

lemma fits_header_text: "0 < n \<Longrightarrow> fits n (header_text n s)"
  by (auto simp: fits_def header_text_def dest!: in_set_takeD set_takeWhileD)

lemma NUL_cut [simp]: "NUL \<notin> set s \<Longrightarrow> NUL \<notin> set (cut_at c s)"
  using set_cut_at by blast

lemma NUL_tl: "NUL \<notin> set s \<Longrightarrow> NUL \<notin> set (tl s)"
  by (cases s) auto

lemma NUL_skip_spaces: "NUL \<notin> set s \<Longrightarrow> NUL \<notin> set (skip_spaces s)"
  by (auto simp: skip_spaces_def dest: set_dropWhileD)

lemma strchr_suffix: "strchr s c = Some p \<Longrightarrow> set p \<subseteq> set s"
  by (auto simp: strchr_def dest: set_dropWhileD split: list.splits)

lemma request_line_clean:
  assumes "parse_http_request_line line = Some (meth, path)" and "NUL \<notin> set line"
  shows "NUL \<notin> set meth \<and> NUL \<notin> set path"
proof -
  obtain p where p: "strchr line SPC = Some p" "meth = cut_at SPC line" "path = cut_at SPC (skip_spaces (tl p))"
    using assms(1) by (auto simp: parse_http_request_line_def split: option.splits)
  then have "NUL \<notin> set p" using strchr_suffix assms(2) by blast
  then show ?thesis using p assms(2) by (simp add: NUL_tl NUL_skip_spaces)
qed

lemma toupper_c_NUL: "toupper_c c = NUL \<longleftrightarrow> c = NUL"
proof
  assume a: "toupper_c c = NUL"
  show "c = NUL"
  proof (rule ccontr)
    assume n: "c \<noteq> NUL"
    then have l: "islower_c c" using a by (auto simp: toupper_c_def split: if_splits)
    have "char_code (char_of (char_code c - 32)) = char_code c - 32"
      using char_code_less [of c] by (intro char_code_char_of) linarith
    moreover have "char_of (char_code c - 32) = NUL" using a l by (simp add: toupper_c_def)
    ultimately have "char_code c - 32 = 0" by (metis char_code_0)
    then show False using l by (simp add: islower_c_def)
  qed
qed (simp add: toupper_c_def islower_c_def char_code_def)

lemma extract_body_clean: "extract_body raw = (Some b, raw') \<Longrightarrow> NUL \<notin> set b"
  using set_rstrip
  by (fastforce simp: extract_body_def Let_def trim_newlines_def split: option.splits if_splits)

lemma note_fits:
  "request_fits r \<Longrightarrow> request_fits (note_content raw r)"
  "request_fits r \<Longrightarrow> request_fits (note_cookie raw r)"
  "request_fits r \<Longrightarrow> request_fits (note_authorization raw r)"
proof -
  have a: "-1 \<le> (if atoi s < 0 then 0 else atoi s) \<and> (if atoi s < 0 then 0 else atoi s) < 2 ^ 31" for s
    unfolding atoi_def Let_def using to_int32_bounds by auto
  show "request_fits r \<Longrightarrow> request_fits (note_content raw r)"
    using a by (auto simp: request_fits_def note_content_def Let_def fits_rstrip fits_header_text
        split: prod.split option.split)
  show "request_fits r \<Longrightarrow> request_fits (note_cookie raw r)"
    by (simp add: request_fits_def note_cookie_def fits_header_text split: option.split)
  show "request_fits r \<Longrightarrow> request_fits (note_authorization raw r)"
    by (simp add: request_fits_def note_authorization_def fits_rstrip fits_header_text split: option.split)
qed

subsection \<open>Properties\<close>

text \<open>
  C37: decoding inverts form encoding: a value that fits its buffer is read back from a form, at
  the end of the body and in front of the next parameter.
\<close>
theorem url_decode_roundtrip:
  assumes "length s < n" and "NUL \<notin> set s" and "rest = [] \<or> hd rest = CHR ''&''"
  shows "url_decode (url_encode s @ rest) n = (True, s)"
proof -
  have "length s \<le> n - 1" using assms(1) by simp
  from url_decode_loop_encode [OF this assms(3)] show ?thesis
    using assms(2) by (simp add: url_decode_def cstr_id)
qed

lemma url_decode_roundtrip_witness:
  "url_decode ''a+b%26&phone=1'' 64 = (True, ''a b&'')"
proof -
  have "url_encode ''a b&'' @ ''&phone=1'' = ''a+b%26&phone=1''" by code_simp
  then show ?thesis using url_decode_roundtrip [of "''a b&''" 64 "''&phone=1''"] by simp
qed

text \<open>
  Whatever bytes one \<open>recv\<close> delivers, every field of the request read from them is a C string
  that fits its array, and the Content-Length is -1 or a non-negative 32-bit number.
\<close>
theorem read_request_fits:
  assumes "read_request raw = Some (req, raw')"
  shows "length (rq_method req) < 16 \<and> length (rq_path req) < 256 \<and> length (rq_body req) < 512
    \<and> length (rq_content_type req) < 64 \<and> length (rq_authorization req) < 256 \<and> length (rq_cookie req) < 512
    \<and> NUL \<notin> set (rq_method req @ rq_path req @ rq_body req @ rq_content_type req @ rq_authorization req @ rq_cookie req)
    \<and> -1 \<le> rq_content_length req \<and> rq_content_length req < 2 ^ 31"
proof -
  let ?line = "cut_at LF (cut_at CR (copy_text 512 (cstr raw)))"
  obtain meth path where l: "parse_http_request_line ?line = Some (meth, path)"
    using assms by (auto simp: read_request_def Let_def split: option.splits)
  obtain body raw1 where b: "extract_body raw = (body, raw1)" by (cases "extract_body raw")
  let ?r0 = "zero_request\<lparr>rq_content_length := -1, rq_method := map toupper_c (take 15 meth),
      rq_path := copy_text 256 path\<rparr>"
  let ?r1 = "case body of None \<Rightarrow> ?r0 | Some b \<Rightarrow> request_handler_set_body b ?r0"
  have "NUL \<notin> set (copy_text 512 (cstr raw))" using set_copy_text [of 512 "cstr raw"] NUL_notin_cstr [of raw] by blast
  then have "NUL \<notin> set ?line" by simp
  note c = request_line_clean [OF l this]
  have "NUL \<notin> set (take 15 meth)" using c in_set_takeD by fast
  then have "fits 16 (map toupper_c (take 15 meth))"
    unfolding fits_def set_map image_iff by (auto simp del: set_take_subset) (metis toupper_c_NUL)
  then have r0: "request_fits ?r0"
    using c by (simp add: request_fits_def zero_request_def fits_copy)
  have "request_fits ?r1"
    using r0 extract_body_clean b
    by (cases body) (auto simp: request_fits_def request_handler_set_body_def fits_copy)
  moreover have "req = note_authorization raw1 (note_cookie raw1 (note_content raw1 ?r1))"
    using assms l b by (auto simp: read_request_def Let_def)
  ultimately have "request_fits req" by (simp add: note_fits)
  then show ?thesis by (simp add: request_fits_def fits_def)
qed

definition raw_get :: string where
  "raw_get = ''get /hello HTTP/1.1'' @ crlf @ ''Content-Length: 3'' @ crlf @ crlf @ ''abc''"

lemma read_request_fits_witness:
  "\<exists>req raw'. read_request raw_get = Some (req, raw') \<and> rq_method req = ''GET'' \<and> rq_path req = ''/hello''
     \<and> rq_body req = ''abc'' \<and> length (rq_path req) < 256"
proof -
  obtain req raw' where r: "read_request raw_get = Some (req, raw')" "rq_method req = ''GET''"
      "rq_path req = ''/hello''" "rq_body req = ''abc''"
  proof -
    have "case read_request raw_get of None \<Rightarrow> False
        | Some (req, _) \<Rightarrow> rq_method req = ''GET'' \<and> rq_path req = ''/hello'' \<and> rq_body req = ''abc''"
      by code_simp
    then show ?thesis using that by (auto split: option.splits prod.splits)
  qed
  then show ?thesis using read_request_fits [OF r(1)] by auto
qed

end
