(* ===== verification/Server_Edits.thy ===== *)
theory Server_Edits
  imports Dispatch_Correct Account_Store
begin

text \<open>
  Changing users through the server: from the bytes of the answer down to the nodes of the index.  A
  sequence of requests that add and delete users, routed by the built-in table, is a sequence of
  changes of the list of accounts.
\<close>

subsection \<open>The routes\<close>







subsection \<open>What the requests mean\<close>









subsection \<open>One request\<close>





subsection \<open>A sequence of requests\<close>








end
