(* ===== verification/Fifo_Queue.thy ===== *)
theory Fifo_Queue
  imports Prelude
begin

text \<open>
  First-in-first-out queues.  The locale \<open>fifo\<close> is the contract that the workers of
  \<open>thread_pool.c\<close> and \<open>process_server.c\<close> rely on: what putting and taking mean for the list of
  waiting tasks.  Inside it, a sequence of operations is shown to hand out the tasks in the order
  of arrival.  \<open>ring\<close> is the circular buffer that both components use; it meets the contract.
\<close>

subsection \<open>The contract\<close>

datatype 'a queue_op = Put 'a | Take 'a

locale fifo =
  fixes inv :: "'s \<Rightarrow> bool" and waiting :: "'s \<Rightarrow> 'a list" and room :: "'s \<Rightarrow> bool"
    and put :: "'a \<Rightarrow> 's \<Rightarrow> 's" and get :: "'s \<Rightarrow> 'a \<times> 's"
  assumes put_inv: "inv s \<Longrightarrow> room s \<Longrightarrow> inv (put x s)"
    and put_waiting: "inv s \<Longrightarrow> room s \<Longrightarrow> waiting (put x s) = waiting s @ [x]"
    and get_inv: "inv s \<Longrightarrow> waiting s \<noteq> [] \<Longrightarrow> inv (snd (get s))"
    and get_head: "inv s \<Longrightarrow> waiting s \<noteq> [] \<Longrightarrow> fst (get s) = hd (waiting s)"
    and get_waiting: "inv s \<Longrightarrow> waiting s \<noteq> [] \<Longrightarrow> waiting (snd (get s)) = tl (waiting s)"
begin

fun allowed :: "'s \<Rightarrow> 'a queue_op list \<Rightarrow> 's \<Rightarrow> bool" where
  \<comment> \<open>the operations lead from one state to the other, each applied where its guard holds\<close>
  "allowed s [] s' \<longleftrightarrow> s' = s"
| "allowed s (Put x # ops) s' \<longleftrightarrow> room s \<and> allowed (put x s) ops s'"
| "allowed s (Take x # ops) s' \<longleftrightarrow> waiting s \<noteq> [] \<and> x = fst (get s) \<and> allowed (snd (get s)) ops s'"

definition arrivals :: "'a queue_op list \<Rightarrow> 'a list" where
  "arrivals ops = concat (map (\<lambda>op. case op of Put x \<Rightarrow> [x] | Take _ \<Rightarrow> []) ops)"

definition departures :: "'a queue_op list \<Rightarrow> 'a list" where
  "departures ops = concat (map (\<lambda>op. case op of Put _ \<Rightarrow> [] | Take x \<Rightarrow> [x]) ops)"

lemma arrivals_simps [simp]:
  "arrivals [] = []" "arrivals (Put x # ops) = x # arrivals ops" "arrivals (Take x # ops) = arrivals ops"
  "departures [] = []" "departures (Put x # ops) = departures ops" "departures (Take x # ops) = x # departures ops"
  by (simp_all add: arrivals_def departures_def)

lemma in_order:
  "inv s \<Longrightarrow> allowed s ops s' \<Longrightarrow> inv s' \<and> waiting s @ arrivals ops = departures ops @ waiting s'"
proof (induction s ops s' rule: allowed.induct)
  case (2 s x ops s')
  then show ?case using put_inv put_waiting by fastforce
next
  case (3 s x ops s')
  then have "waiting s = x # waiting (snd (get s))" using get_head get_waiting by auto
  then show ?case using 3 get_inv by fastforce
qed simp

end

subsection \<open>The circular buffer\<close>

record 'a ring =
  rg_buf :: "'a list"
  rg_count :: nat
  rg_head :: nat
  rg_tail :: nat

abbreviation rg_capacity :: "'a ring \<Rightarrow> nat" where "rg_capacity r \<equiv> length (rg_buf r)"

definition ring_init :: "'a list \<Rightarrow> 'a ring" where
  "ring_init buf = \<lparr>rg_buf = buf, rg_count = 0, rg_head = 0, rg_tail = 0\<rparr>"

definition ring_put :: "'a \<Rightarrow> 'a ring \<Rightarrow> 'a ring" where
  "ring_put x r = r\<lparr>rg_buf := (rg_buf r)[rg_tail r := x], rg_tail := (rg_tail r + 1) mod rg_capacity r,
                    rg_count := rg_count r + 1\<rparr>"

definition ring_get :: "'a ring \<Rightarrow> 'a \<times> 'a ring" where
  "ring_get r = (rg_buf r ! rg_head r,
                 r\<lparr>rg_head := (rg_head r + 1) mod rg_capacity r, rg_count := rg_count r - 1\<rparr>)"

definition ring_room :: "'a ring \<Rightarrow> bool" where
  "ring_room r \<longleftrightarrow> rg_count r < rg_capacity r"

definition ring_inv :: "'a ring \<Rightarrow> bool" where
  "ring_inv r \<longleftrightarrow> 0 < rg_capacity r \<and> rg_head r < rg_capacity r \<and> rg_count r \<le> rg_capacity r
     \<and> rg_tail r = (rg_head r + rg_count r) mod rg_capacity r"

definition ring_list :: "'a ring \<Rightarrow> 'a list" where
  \<comment> \<open>the waiting entries, oldest first\<close>
  "ring_list r = map (\<lambda>i. rg_buf r ! ((rg_head r + i) mod rg_capacity r)) [0..<rg_count r]"

lemma length_ring_list [simp]: "length (ring_list r) = rg_count r"
  by (simp add: ring_list_def)

lemma ring_list_Nil [simp]: "ring_list r = [] \<longleftrightarrow> rg_count r = 0"
  by (simp add: ring_list_def)

lemma ring_init_ok: "buf \<noteq> [] \<Longrightarrow> ring_inv (ring_init buf) \<and> ring_list (ring_init buf) = []"
  by (simp add: ring_inv_def ring_init_def ring_list_def)

lemma ring_index_distinct:
  fixes h i n c :: nat
  assumes "i < n" and "n < c" and "0 < c"
  shows "(h + i) mod c \<noteq> (h + n) mod c"
proof
  assume "(h + i) mod c = (h + n) mod c"
  then have "c dvd (h + n) - (h + i)" using assms(1) by (metis add_le_cancel_left less_imp_le mod_eq_dvd_iff_nat)
  then show False using assms by (auto dest: dvd_imp_le)
qed

lemma ring_put_list:
  assumes "ring_inv r" and "ring_room r"
  shows "ring_inv (ring_put x r)" and "ring_list (ring_put x r) = ring_list r @ [x]"
proof -
  let ?c = "rg_capacity r" and ?h = "rg_head r" and ?n = "rg_count r"
  have i: "0 < ?c" "?h < ?c" "?n < ?c" "rg_tail r = (?h + ?n) mod ?c"
    using assms by (auto simp: ring_inv_def ring_room_def)
  show "ring_inv (ring_put x r)"
    using i by (simp add: ring_inv_def ring_put_def mod_Suc_eq)
  have "map (\<lambda>i. (rg_buf r)[rg_tail r := x] ! ((?h + i) mod ?c)) [0..<?n] = ring_list r"
    unfolding ring_list_def
  proof (rule map_cong [OF refl])
    fix k assume "k \<in> set [0..<?n]"
    then have "(?h + k) mod ?c \<noteq> rg_tail r" using i ring_index_distinct [of k ?n ?c ?h] by simp
    then show "(rg_buf r)[rg_tail r := x] ! ((?h + k) mod ?c) = rg_buf r ! ((?h + k) mod ?c)" by simp
  qed
  moreover have "(rg_buf r)[rg_tail r := x] ! ((?h + ?n) mod ?c) = x" using i by simp
  ultimately show "ring_list (ring_put x r) = ring_list r @ [x]"
    by (simp add: ring_list_def ring_put_def)
qed

lemma ring_get_list:
  assumes "ring_inv r" and "ring_list r \<noteq> []"
  shows "ring_inv (snd (ring_get r))" and "fst (ring_get r) = hd (ring_list r)"
    and "ring_list (snd (ring_get r)) = tl (ring_list r)"
proof -
  let ?c = "rg_capacity r" and ?h = "rg_head r"
  obtain m where m: "rg_count r = Suc m" using assms(2) by (cases "rg_count r") auto
  have i: "0 < ?c" "?h < ?c" "Suc m \<le> ?c" "rg_tail r = (?h + Suc m) mod ?c"
    using assms m by (auto simp: ring_inv_def)
  have up: "[0..<Suc m] = 0 # map Suc [0..<m]" by (simp add: map_Suc_upt upt_conv_Cons del: upt_Suc)
  have "(Suc ?h mod ?c + m) mod ?c = (?h + Suc m) mod ?c" by (simp add: mod_add_left_eq)
  then show "ring_inv (snd (ring_get r))"
    using i m by (simp add: ring_inv_def ring_get_def)
  show "fst (ring_get r) = hd (ring_list r)"
    using i by (simp add: ring_list_def ring_get_def m up del: upt_Suc)
  show "ring_list (snd (ring_get r)) = tl (ring_list r)"
  proof -
    have "(Suc ?h mod ?c + k) mod ?c = (?h + Suc k) mod ?c" for k by (simp add: mod_add_left_eq)
    then have "ring_list (snd (ring_get r)) = map ((\<lambda>i. rg_buf r ! ((?h + i) mod ?c)) \<circ> Suc) [0..<m]"
      unfolding ring_list_def ring_get_def m by (simp add: comp_def)
    moreover have "tl (ring_list r) = map ((\<lambda>i. rg_buf r ! ((?h + i) mod ?c)) \<circ> Suc) [0..<m]"
      unfolding ring_list_def m up by (simp del: upt_Suc)
    ultimately show ?thesis by (rule trans [OF _ sym])
  qed
qed

interpretation ring: fifo ring_inv ring_list ring_room ring_put ring_get
  by unfold_locales (erule ring_put_list ring_get_list, assumption)+

end
