(* ===== verification/Slot_Sums.thy ===== *)
theory Slot_Sums
  imports Main
begin

text \<open>
  Sums over the numbered slots of a machine whose threads are told apart by their slot: how a sum
  changes when one slot does.
\<close>

definition slot_sum :: "nat \<Rightarrow> ('p \<Rightarrow> 'a::comm_monoid_add) \<Rightarrow> (nat \<Rightarrow> 'p) \<Rightarrow> 'a" where
  "slot_sum n f ph = (\<Sum>i<n. f (ph i))"

lemma slot_sum_upd:
  assumes "i < n"
  shows "slot_sum n f (ph(i := x)) + f (ph i) = slot_sum n f ph + f x"
proof -
  have "slot_sum n f (ph(i := x)) = f x + (\<Sum>j\<in>{..<n} - {i}. f ((ph(i := x)) j))"
    unfolding slot_sum_def using assms by (subst sum.remove [of _ i]) auto
  moreover have "slot_sum n f ph = f (ph i) + (\<Sum>j\<in>{..<n} - {i}. f (ph j))"
    unfolding slot_sum_def using assms by (subst sum.remove [of _ i]) auto
  moreover have "(\<Sum>j\<in>{..<n} - {i}. f ((ph(i := x)) j)) = (\<Sum>j\<in>{..<n} - {i}. f (ph j))"
    by (rule sum.cong) auto
  ultimately show ?thesis by (simp add: ac_simps)
qed

lemma slot_sum_zero: "(\<And>i. i < n \<Longrightarrow> f (ph i) = 0) \<Longrightarrow> slot_sum n f ph = 0"
  by (simp add: slot_sum_def)

lemma slot_sum_restrict:
  assumes "\<And>i. m \<le> i \<Longrightarrow> f (ph i) = 0" and "m \<le> n"
  shows "slot_sum n f ph = slot_sum m f ph"
  unfolding slot_sum_def by (rule sum.mono_neutral_right) (use assms in auto)

lemma slot_sum_bound:
  fixes f :: "'p \<Rightarrow> nat"
  assumes "\<And>p. f p \<le> 1"
  shows "slot_sum n f ph \<le> n"
  using sum_bounded_above [of "{..<n}" "\<lambda>i. f (ph i)" 1] assms by (simp add: slot_sum_def)

lemma slot_sum_less:
  fixes f :: "'p \<Rightarrow> nat"
  assumes "\<And>p. f p \<le> 1" and "i < n" and "f (ph i) = 0"
  shows "slot_sum n f ph < n"
  using sum_bounded_above [of "{..<n} - {i}" "\<lambda>j. f (ph j)" 1] assms sum.remove [of "{..<n}" i "\<lambda>j. f (ph j)"]
  by (simp add: slot_sum_def)

end
