(* ===== verification/Thread_Pool.thy ===== *)
theory Thread_Pool
  imports Fifo_Queue
begin

text \<open>
  The thread pool of \<open>src/thread_pool.c\<close> as a state machine.  \<open>pool\<close> is \<open>thread_pool_t\<close>; the
  definitions are its critical sections, each run under the mutex in one step.  \<open>sys\<close> adds what the
  threads are doing: the phase of the worker of each slot, how many threads are on their way from
  \<open>thread_pool_add_task\<close> to \<open>spawn_worker\<close>, and the history of connections accepted, taken and
  finished.  \<open>pool_step\<close> interleaves them in any order.
\<close>

abbreviation MAX_POOL_WORKERS :: nat where "MAX_POOL_WORKERS \<equiv> 64"

record pool =
  tp_tasks :: "int ring"
  tp_active :: "bool list"
  tp_num :: int
  tp_core :: nat
  tp_max :: nat
  tp_shutdown :: bool
  tp_processed :: int
  tp_errors :: int
  tp_peak :: int

datatype phase =
    Absent
  | Claimed bool          \<comment> \<open>slot taken, thread not created yet; the flag is \<open>is_core\<close>\<close>
  | Waiting bool          \<comment> \<open>at the top of its loop\<close>
  | Busy bool int         \<comment> \<open>handling a connection\<close>

record sys =
  sy_pool :: pool
  sy_phase :: "nat \<Rightarrow> phase"
  sy_want :: nat
  sy_accepted :: "int list"
  sy_taken :: "int list"
  sy_done :: "int list"

definition set_phase :: "nat \<Rightarrow> phase \<Rightarrow> sys \<Rightarrow> sys" where
  "set_phase i ph s = s\<lparr>sy_phase := (sy_phase s)(i := ph)\<rparr>"

definition on_pool :: "(pool \<Rightarrow> pool) \<Rightarrow> sys \<Rightarrow> sys" where
  "on_pool f s = s\<lparr>sy_pool := f (sy_pool s)\<rparr>"

subsection \<open>Spawning a worker\<close>

definition free_slot :: "pool \<Rightarrow> nat option" where
  "free_slot p = find (\<lambda>i. \<not> tp_active p ! i) [0..<tp_max p]"

definition occupy :: "nat \<Rightarrow> pool \<Rightarrow> pool" where
  "occupy slot p = p\<lparr>tp_active := (tp_active p)[slot := True], tp_num := tp_num p + 1\<rparr>"

definition vacate :: "nat \<Rightarrow> pool \<Rightarrow> pool" where
  \<comment> \<open>the rollback of a failed spawn, and what an exiting worker does\<close>
  "vacate slot p = p\<lparr>tp_active := (tp_active p)[slot := False], tp_num := tp_num p - 1\<rparr>"

definition note_peak :: "pool \<Rightarrow> pool" where
  "note_peak p = (if tp_num p > tp_peak p then p\<lparr>tp_peak := tp_num p\<rparr> else p)"

definition claim :: "bool \<Rightarrow> sys \<Rightarrow> (nat \<times> sys) option" where
  \<comment> \<open>the first critical section of \<open>spawn_worker\<close>\<close>
  "claim is_core s =
     (case free_slot (sy_pool s) of
        None \<Rightarrow> None
      | Some slot \<Rightarrow> Some (slot, set_phase slot (Claimed is_core) (on_pool (occupy slot) s)))"

definition create :: "nat \<Rightarrow> bool \<Rightarrow> bool \<Rightarrow> sys \<Rightarrow> sys" where
  \<comment> \<open>\<open>malloc\<close> and \<open>pthread_create\<close> succeed, or the slot is given back\<close>
  "create slot is_core ok s =
     (if ok then set_phase slot (Waiting is_core) s else set_phase slot Absent (on_pool (vacate slot) s))"

definition spawn_worker :: "bool \<Rightarrow> bool \<Rightarrow> sys \<Rightarrow> int \<times> sys" where
  \<comment> \<open>run without interference, as \<open>thread_pool_create\<close> does\<close>
  "spawn_worker ok is_core s =
     (case claim is_core s of
        None \<Rightarrow> (-1, s)
      | Some (slot, s) \<Rightarrow> (if ok then 0 else -1, create slot is_core ok (on_pool note_peak s)))"

subsection \<open>Interface\<close>

fun spawn_core :: "bool list \<Rightarrow> sys \<Rightarrow> sys option" where
  \<comment> \<open>one flag per worker: whether its creation succeeds\<close>
  "spawn_core [] s = Some s"
| "spawn_core (ok # oks) s =
     (let (rc, s) = spawn_worker ok True s in if rc \<noteq> 0 then None else spawn_core oks s)"

definition empty_pool :: "nat \<Rightarrow> nat \<Rightarrow> nat \<Rightarrow> pool" where
  "empty_pool core mx cap = \<lparr>tp_tasks = ring_init (replicate cap 0),
     tp_active = replicate MAX_POOL_WORKERS False, tp_num = 0, tp_core = core,
     tp_max = min mx MAX_POOL_WORKERS, tp_shutdown = False, tp_processed = 0, tp_errors = 0, tp_peak = 0\<rparr>"

definition empty_sys :: "pool \<Rightarrow> sys" where
  "empty_sys p = \<lparr>sy_pool = p, sy_phase = (\<lambda>_. Absent), sy_want = 0, sy_accepted = [], sy_taken = [], sy_done = []\<rparr>"

definition thread_pool_create :: "nat \<Rightarrow> nat \<Rightarrow> nat \<Rightarrow> (nat \<Rightarrow> bool) \<Rightarrow> sys option" where
  \<comment> \<open>\<open>ok i\<close>: whether the \<open>i\<close>th core worker can be created\<close>
  "thread_pool_create core mx cap ok =
     (if core < 1 \<or> mx < core \<or> cap < 1 then None
      else spawn_core (map ok [0..<core]) (empty_sys (empty_pool core mx cap)))"

definition thread_pool_add_task :: "int \<Rightarrow> sys \<Rightarrow> (int \<times> sys) option" where
  \<comment> \<open>\<open>None\<close> while the caller waits for room; a task that calls for another worker raises \<open>sy_want\<close>\<close>
  "thread_pool_add_task fd s =
     (let p = sy_pool s
      in if tp_shutdown p then Some (-1, s)
         else if rg_count (tp_tasks p) \<ge> rg_capacity (tp_tasks p) then None
         else let p = p\<lparr>tp_tasks := ring_put fd (tp_tasks p)\<rparr>;
                  should_spawn = (0 < rg_count (tp_tasks p) \<and> tp_num p < int (tp_max p))
              in Some (0, s\<lparr>sy_pool := p, sy_accepted := sy_accepted s @ [fd],
                            sy_want := sy_want s + (if should_spawn then 1 else 0)\<rparr>))"

definition thread_pool_shutdown :: "sys \<Rightarrow> sys" where
  "thread_pool_shutdown = on_pool (\<lambda>p. p\<lparr>tp_shutdown := True\<rparr>)"

definition thread_pool_destroy :: "sys \<Rightarrow> nat list \<times> int \<times> int" where
  \<comment> \<open>the slots that are joined, and the final statistics\<close>
  "thread_pool_destroy s =
     (filter (\<lambda>i. tp_active (sy_pool s) ! i) [0..<tp_max (sy_pool s)],
      tp_processed (sy_pool s), tp_errors (sy_pool s))"

definition thread_pool_get_processed :: "sys \<Rightarrow> int" where
  "thread_pool_get_processed s = tp_processed (sy_pool s)"

definition thread_pool_get_errors :: "sys \<Rightarrow> int" where
  "thread_pool_get_errors s = tp_errors (sy_pool s)"

definition thread_pool_get_peak_workers :: "sys \<Rightarrow> int" where
  "thread_pool_get_peak_workers s = tp_peak (sy_pool s)"

subsection \<open>The worker loop\<close>

definition take_task :: "nat \<Rightarrow> bool \<Rightarrow> sys \<Rightarrow> sys" where
  "take_task slot is_core s =
     (let (fd, r) = ring_get (tp_tasks (sy_pool s))
      in set_phase slot (Busy is_core fd)
           ((on_pool (\<lambda>p. p\<lparr>tp_tasks := r\<rparr>) s)\<lparr>sy_taken := sy_taken s @ [fd]\<rparr>))"

definition finish_task :: "nat \<Rightarrow> bool \<Rightarrow> int \<Rightarrow> int \<Rightarrow> sys \<Rightarrow> sys" where
  \<comment> \<open>\<open>ret\<close> is what \<open>request_handler_handle_connection\<close> returned\<close>
  "finish_task slot is_core fd ret s =
     set_phase slot (Waiting is_core)
       ((on_pool (\<lambda>p. p\<lparr>tp_processed := tp_processed p + 1,
                        tp_errors := (if ret \<noteq> 0 then tp_errors p + 1 else tp_errors p)\<rparr>) s)
        \<lparr>sy_done := sy_done s @ [fd]\<rparr>)"

definition leave :: "nat \<Rightarrow> sys \<Rightarrow> sys" where
  "leave slot s = set_phase slot Absent (on_pool (vacate slot) s)"

definition empty_queue :: "sys \<Rightarrow> bool" where
  "empty_queue s \<longleftrightarrow> rg_count (tp_tasks (sy_pool s)) = 0"

inductive pool_step :: "sys \<Rightarrow> sys \<Rightarrow> bool" where
  add: "thread_pool_add_task fd s = Some (rc, s') \<Longrightarrow> pool_step s s'"
| spawn_extra: "sy_want s = Suc n \<Longrightarrow> claim False (s\<lparr>sy_want := n\<rparr>) = Some (slot, s') \<Longrightarrow> pool_step s s'"
| spawn_full: "sy_want s = Suc n \<Longrightarrow> claim False (s\<lparr>sy_want := n\<rparr>) = None \<Longrightarrow> pool_step s (s\<lparr>sy_want := n\<rparr>)"
| peak: "pool_step s (on_pool note_peak s)"
| created: "sy_phase s slot = Claimed c \<Longrightarrow> pool_step s (create slot c ok s)"
| taken: "sy_phase s slot = Waiting c \<Longrightarrow> \<not> empty_queue s \<Longrightarrow> pool_step s (take_task slot c s)"
| finished: "sy_phase s slot = Busy c fd \<Longrightarrow> pool_step s (finish_task slot c fd ret s)"
| timeout: "sy_phase s slot = Waiting False \<Longrightarrow> empty_queue s \<Longrightarrow> \<not> tp_shutdown (sy_pool s)
    \<Longrightarrow> pool_step s (leave slot s)"
| drained: "sy_phase s slot = Waiting c \<Longrightarrow> tp_shutdown (sy_pool s) \<Longrightarrow> empty_queue s
    \<Longrightarrow> pool_step s (leave slot s)"
| shutdown: "pool_step s (thread_pool_shutdown s)"

inductive reachable :: "sys \<Rightarrow> sys \<Rightarrow> bool" for s0 where
  start: "reachable s0 s0"
| step: "reachable s0 s \<Longrightarrow> pool_step s s' \<Longrightarrow> reachable s0 s'"

end
