(* ===== verification/Thread_Pool_Correct.thy ===== *)
theory Thread_Pool_Correct
  imports Thread_Pool Slot_Sums "HOL-Library.Multiset"
begin

text \<open>
  The thread pool serves what it accepts: the invariant of \<open>pool_step\<close> (connections are taken in
  the order of arrival, each is either waiting, being handled or finished, the counters agree with
  the threads), and the draining after a shutdown under every schedule.
\<close>

subsection \<open>Sums over the slots\<close>

abbreviation over_slots :: "(phase \<Rightarrow> 'a::comm_monoid_add) \<Rightarrow> (nat \<Rightarrow> phase) \<Rightarrow> 'a" where
  "over_slots \<equiv> slot_sum MAX_POOL_WORKERS"

lemmas over_slots_upd = slot_sum_upd [of _ MAX_POOL_WORKERS]

definition in_hand :: "phase \<Rightarrow> int multiset" where
  "in_hand ph = (case ph of Busy _ fd \<Rightarrow> {#fd#} | _ \<Rightarrow> {#})"

definition present :: "phase \<Rightarrow> nat" where
  "present ph = (if ph = Absent then 0 else 1)"

definition effort :: "phase \<Rightarrow> nat" where
  \<comment> \<open>steps left to a worker once the queue is empty and the pool shuts down\<close>
  "effort ph = (case ph of Absent \<Rightarrow> 0 | Claimed _ \<Rightarrow> 2 | Waiting _ \<Rightarrow> 1 | Busy _ _ \<Rightarrow> 2)"

lemma phase_weights [simp]:
  "in_hand Absent = {#}" "in_hand (Claimed c) = {#}" "in_hand (Waiting c) = {#}" "in_hand (Busy c fd) = {#fd#}"
  "present Absent = 0" "present (Claimed c) = 1" "present (Waiting c) = 1" "present (Busy c fd) = 1"
  "effort Absent = 0" "effort (Claimed c) = 2" "effort (Waiting c) = 1" "effort (Busy c fd) = 2"
  by (simp_all add: in_hand_def present_def effort_def)

subsection \<open>The invariant\<close>

definition core_alive :: "phase \<Rightarrow> bool" where
  "core_alive ph = (case ph of Waiting c \<Rightarrow> c | Busy c _ \<Rightarrow> c | _ \<Rightarrow> False)"

definition slots_inv :: "sys \<Rightarrow> bool" where
  \<comment> \<open>\<open>worker_active\<close> and \<open>num_workers\<close> describe the threads; the bounds\<close>
  "slots_inv s \<longleftrightarrow> (let p = sy_pool s in
     length (tp_active p) = MAX_POOL_WORKERS \<and> tp_max p \<le> MAX_POOL_WORKERS
     \<and> (\<forall>i<MAX_POOL_WORKERS. tp_active p ! i \<longleftrightarrow> sy_phase s i \<noteq> Absent)
     \<and> (\<forall>i. tp_max p \<le> i \<longrightarrow> sy_phase s i = Absent)
     \<and> tp_num p = int (over_slots present (sy_phase s)) \<and> 0 \<le> tp_peak p \<and> tp_peak p \<le> int (tp_max p))"

definition tasks_inv :: "sys \<Rightarrow> bool" where
  "tasks_inv s \<longleftrightarrow> ring_inv (tp_tasks (sy_pool s))
     \<and> sy_accepted s = sy_taken s @ ring_list (tp_tasks (sy_pool s))
     \<and> mset (sy_taken s) = mset (sy_done s) + over_slots in_hand (sy_phase s)"

definition stats_inv :: "sys \<Rightarrow> bool" where
  "stats_inv s \<longleftrightarrow> tp_processed (sy_pool s) = int (length (sy_done s))
     \<and> 0 \<le> tp_errors (sy_pool s) \<and> tp_errors (sy_pool s) \<le> tp_processed (sy_pool s)"

definition cores_inv :: "nat \<Rightarrow> sys \<Rightarrow> bool" where
  \<comment> \<open>the first slots hold the core workers until the pool is shut down and its queue is empty\<close>
  "cores_inv n s \<longleftrightarrow> (\<forall>i<n. core_alive (sy_phase s i)) \<or> (tp_shutdown (sy_pool s) \<and> empty_queue s)"

definition pool_inv :: "nat \<Rightarrow> sys \<Rightarrow> bool" where
  "pool_inv n s \<longleftrightarrow> slots_inv s \<and> tasks_inv s \<and> stats_inv s \<and> cores_inv n s"

lemma slots_inv_bound:
  assumes "slots_inv s" and "sy_phase s i \<noteq> Absent"
  shows "i < tp_max (sy_pool s)" and "i < MAX_POOL_WORKERS"
proof -
  show "i < tp_max (sy_pool s)" using assms by (auto simp: slots_inv_def Let_def not_less [symmetric])
  then show "i < MAX_POOL_WORKERS" using assms(1) by (simp add: slots_inv_def Let_def)
qed

lemma over_slots_le:
  assumes "slots_inv s"
  shows "over_slots present (sy_phase s) \<le> tp_max (sy_pool s)"
proof -
  have "over_slots present (sy_phase s) = slot_sum (tp_max (sy_pool s)) present (sy_phase s)"
    by (rule slot_sum_restrict) (use assms in \<open>auto simp: slots_inv_def Let_def\<close>)
  then show ?thesis using slot_sum_bound [of present] by (simp add: present_def)
qed

lemmas pool_defs = set_phase_def on_pool_def occupy_def vacate_def

subsection \<open>Every step keeps it\<close>

lemma slots_inv_set:
  assumes "slots_inv s" and i: "i < tp_max (sy_pool s)" and ph: "ph \<noteq> Absent" and was: "sy_phase s i \<noteq> Absent"
  shows "slots_inv (set_phase i ph s)"
proof -
  have "i < MAX_POOL_WORKERS" using assms(1) i by (simp add: slots_inv_def Let_def)
  from over_slots_upd [OF this, of present "sy_phase s" ph]
  have "over_slots present ((sy_phase s)(i := ph)) = over_slots present (sy_phase s)"
    using ph was by (simp add: present_def)
  then show ?thesis using assms by (auto simp: slots_inv_def set_phase_def Let_def)
qed

lemma slots_inv_occupy:
  assumes "slots_inv s" and i: "i < tp_max (sy_pool s)" and was: "sy_phase s i = Absent" and ph: "ph \<noteq> Absent"
  shows "slots_inv (set_phase i ph (on_pool (occupy i) s))"
proof -
  have "i < MAX_POOL_WORKERS" using assms(1) i by (simp add: slots_inv_def Let_def)
  from over_slots_upd [OF this, of present "sy_phase s" ph]
  have "over_slots present ((sy_phase s)(i := ph)) = over_slots present (sy_phase s) + 1"
    using ph was by (simp add: present_def)
  then show ?thesis using assms by (auto simp: slots_inv_def pool_defs Let_def nth_list_update)
qed

lemma slots_inv_vacate:
  assumes "slots_inv s" and was: "sy_phase s i \<noteq> Absent"
  shows "slots_inv (set_phase i Absent (on_pool (vacate i) s))"
proof -
  have i: "i < MAX_POOL_WORKERS" using slots_inv_bound assms by blast
  from over_slots_upd [OF this, of present "sy_phase s" Absent]
  have "over_slots present (sy_phase s) = over_slots present ((sy_phase s)(i := Absent)) + 1"
    using was by (simp add: present_def)
  then show ?thesis using assms i by (auto simp: slots_inv_def pool_defs Let_def nth_list_update)
qed

lemma tasks_inv_set:
  assumes "tasks_inv s" and "i < MAX_POOL_WORKERS" and "in_hand (sy_phase s i) = in_hand ph"
  shows "tasks_inv (set_phase i ph s)"
  using assms over_slots_upd [of i in_hand "sy_phase s" ph] by (simp add: tasks_inv_def set_phase_def)

lemma sys_selects [simp]:
  "sy_phase (on_pool f s) = sy_phase s" "sy_pool (on_pool f s) = f (sy_pool s)"
  "sy_pool (set_phase i ph s) = sy_pool s" "sy_phase (set_phase i ph s) = (sy_phase s)(i := ph)"
  by (simp_all add: pool_defs)

lemma tasks_inv_slots [simp]:
  "tasks_inv (on_pool (occupy i) s) \<longleftrightarrow> tasks_inv s" "tasks_inv (on_pool (vacate i) s) \<longleftrightarrow> tasks_inv s"
  "tasks_inv (on_pool note_peak s) \<longleftrightarrow> tasks_inv s"
  by (simp_all add: tasks_inv_def pool_defs note_peak_def)

lemma stats_inv_set [simp]: "stats_inv (set_phase i ph s) \<longleftrightarrow> stats_inv s"
  by (simp add: stats_inv_def set_phase_def)

lemma stats_inv_slots [simp]:
  "stats_inv (on_pool (occupy i) s) \<longleftrightarrow> stats_inv s" "stats_inv (on_pool (vacate i) s) \<longleftrightarrow> stats_inv s"
  "stats_inv (on_pool note_peak s) \<longleftrightarrow> stats_inv s"
  by (simp_all add: stats_inv_def pool_defs note_peak_def)

lemma cores_inv_set:
  assumes "cores_inv n s" and "core_alive (sy_phase s i) \<Longrightarrow> core_alive ph"
  shows "cores_inv n (set_phase i ph s)"
  using assms by (auto simp: cores_inv_def set_phase_def empty_queue_def)

lemma cores_inv_slots [simp]:
  "cores_inv n (on_pool (occupy i) s) \<longleftrightarrow> cores_inv n s" "cores_inv n (on_pool (vacate i) s) \<longleftrightarrow> cores_inv n s"
  "cores_inv n (on_pool note_peak s) \<longleftrightarrow> cores_inv n s"
  by (simp_all add: cores_inv_def pool_defs note_peak_def empty_queue_def)

lemma core_alive_simps [simp]:
  "\<not> core_alive Absent" "\<not> core_alive (Claimed c)" "core_alive (Waiting c) \<longleftrightarrow> c" "core_alive (Busy c fd) \<longleftrightarrow> c"
  by (simp_all add: core_alive_def)

lemma free_slotD:
  assumes "free_slot p = Some i"
  shows "i < tp_max p" and "\<not> tp_active p ! i"
  using assms by (auto simp: free_slot_def find_Some_iff)

lemma pool_inv_claim:
  assumes inv: "pool_inv n s" and c: "claim c s = Some (i, s')"
  shows "pool_inv n s'" and "sy_phase s i = Absent" and "i < tp_max (sy_pool s)"
    and "s' = set_phase i (Claimed c) (on_pool (occupy i) s)"
proof -
  have fs: "free_slot (sy_pool s) = Some i" and s': "s' = set_phase i (Claimed c) (on_pool (occupy i) s)"
    using c by (auto simp: claim_def split: option.splits)
  show lt: "i < tp_max (sy_pool s)" and e: "s' = set_phase i (Claimed c) (on_pool (occupy i) s)"
    using free_slotD [OF fs] s' by auto
  then have i: "i < MAX_POOL_WORKERS" using inv by (simp add: pool_inv_def slots_inv_def Let_def)
  show abs: "sy_phase s i = Absent"
    using free_slotD [OF fs] i inv by (simp add: pool_inv_def slots_inv_def Let_def)
  have "slots_inv s'" unfolding e using inv lt abs by (intro slots_inv_occupy) (auto simp: pool_inv_def)
  moreover have "tasks_inv s'" unfolding e using inv i abs by (intro tasks_inv_set) (auto simp: pool_inv_def)
  moreover have "cores_inv n s'" unfolding e using inv abs by (intro cores_inv_set) (auto simp: pool_inv_def)
  ultimately show "pool_inv n s'" using inv unfolding e by (simp add: pool_inv_def)
qed

lemma pool_inv_create:
  assumes inv: "pool_inv n s" and ph: "sy_phase s i = Claimed c"
  shows "pool_inv n (create i c ok s)"
proof -
  have inv': "slots_inv s" "tasks_inv s" "stats_inv s" "cores_inv n s" using inv by (simp_all add: pool_inv_def)
  have b: "i < tp_max (sy_pool s)" "i < MAX_POOL_WORKERS" using slots_inv_bound [OF inv'(1), of i] ph by auto
  have "slots_inv (create i c ok s)"
    using slots_inv_set [OF inv'(1) b(1), of "Waiting c"] slots_inv_vacate [OF inv'(1), of i] ph
    by (simp add: create_def)
  moreover have "tasks_inv (create i c ok s)" using inv' b ph
    by (auto simp: create_def intro!: tasks_inv_set)
  moreover have "cores_inv n (create i c ok s)" using inv' ph
    by (auto simp: create_def intro!: cores_inv_set)
  ultimately show ?thesis using inv'(3) by (simp add: pool_inv_def create_def)
qed

lemma pool_inv_take:
  assumes inv: "pool_inv n s" and ph: "sy_phase s i = Waiting c" and q: "\<not> empty_queue s"
  shows "pool_inv n (take_task i c s)"
proof -
  let ?r = "tp_tasks (sy_pool s)" and ?s = "take_task i c s"
  obtain fd r where g: "ring_get ?r = (fd, r)" by (cases "ring_get ?r")
  have inv': "slots_inv s" "tasks_inv s" "stats_inv s" "cores_inv n s" using inv by (simp_all add: pool_inv_def)
  have b: "i < tp_max (sy_pool s)" "i < MAX_POOL_WORKERS" using slots_inv_bound [OF inv'(1), of i] ph by auto
  have ri: "ring_inv ?r" and rl: "ring_list ?r \<noteq> []" using inv'(2) q by (auto simp: tasks_inv_def empty_queue_def)
  have r: "ring_inv r" "ring_list ?r = fd # ring_list r"
    using ring.get_inv [OF ri rl] ring.get_head [OF ri rl] ring.get_waiting [OF ri rl] rl g
    by (auto simp: neq_Nil_conv)
  have e: "?s = set_phase i (Busy c fd) ((on_pool (\<lambda>p. p\<lparr>tp_tasks := r\<rparr>) s)\<lparr>sy_taken := sy_taken s @ [fd]\<rparr>)"
    by (simp add: take_task_def g)
  have "slots_inv (set_phase i (Busy c fd) s)" using slots_inv_set [OF inv'(1) b(1)] ph by simp
  then have "slots_inv ?s" by (simp add: e slots_inv_def set_phase_def on_pool_def Let_def)
  moreover have "tasks_inv ?s"
    using inv'(2) r over_slots_upd [OF b(2), of in_hand "sy_phase s" "Busy c fd"] ph
    by (simp add: e tasks_inv_def set_phase_def on_pool_def)
  moreover have "stats_inv ?s" using inv'(3) by (simp add: e stats_inv_def set_phase_def on_pool_def)
  moreover have "cores_inv n ?s"
    using inv'(4) ph q by (auto simp: e cores_inv_def set_phase_def on_pool_def empty_queue_def)
  ultimately show ?thesis by (simp add: pool_inv_def)
qed

lemma pool_inv_finish:
  assumes inv: "pool_inv n s" and ph: "sy_phase s i = Busy c fd"
  shows "pool_inv n (finish_task i c fd ret s)"
proof -
  let ?s = "finish_task i c fd ret s"
  have inv': "slots_inv s" "tasks_inv s" "stats_inv s" "cores_inv n s" using inv by (simp_all add: pool_inv_def)
  have b: "i < tp_max (sy_pool s)" "i < MAX_POOL_WORKERS" using slots_inv_bound [OF inv'(1), of i] ph by auto
  have "slots_inv (set_phase i (Waiting c) s)" using slots_inv_set [OF inv'(1) b(1)] ph by simp
  then have "slots_inv ?s" by (simp add: finish_task_def slots_inv_def set_phase_def on_pool_def Let_def)
  moreover have "tasks_inv ?s"
    using inv'(2) over_slots_upd [OF b(2), of in_hand "sy_phase s" "Waiting c"] ph
    by (simp add: finish_task_def tasks_inv_def set_phase_def on_pool_def)
  moreover have "stats_inv ?s" using inv'(3) by (simp add: finish_task_def stats_inv_def set_phase_def on_pool_def)
  moreover have "cores_inv n ?s"
    using inv'(4) ph by (auto simp: finish_task_def cores_inv_def set_phase_def on_pool_def empty_queue_def)
  ultimately show ?thesis by (simp add: pool_inv_def)
qed

lemma pool_inv_leave:
  assumes inv: "pool_inv n s" and ph: "sy_phase s i = Waiting c"
    and why: "\<not> c \<or> tp_shutdown (sy_pool s) \<and> empty_queue s"
  shows "pool_inv n (leave i s)"
proof -
  have inv': "slots_inv s" "tasks_inv s" "stats_inv s" "cores_inv n s" using inv by (simp_all add: pool_inv_def)
  have b: "i < MAX_POOL_WORKERS" using slots_inv_bound [OF inv'(1), of i] ph by auto
  have "slots_inv (leave i s)" using slots_inv_vacate [OF inv'(1), of i] ph by (simp add: leave_def)
  moreover have "tasks_inv (leave i s)" using inv' b ph by (simp add: leave_def tasks_inv_set)
  moreover have "cores_inv n (leave i s)"
    using inv'(4) ph why by (auto simp: leave_def cores_inv_def vacate_def empty_queue_def set_phase_def on_pool_def)
  ultimately show ?thesis using inv'(3) by (simp add: pool_inv_def leave_def)
qed

lemma pool_inv_add:
  assumes inv: "pool_inv n s" and a: "thread_pool_add_task fd s = Some (rc, s')"
  shows "pool_inv n s'"
proof (cases "tp_shutdown (sy_pool s)")
  case False
  let ?r = "tp_tasks (sy_pool s)"
  have room: "ring_room ?r"
    using a False by (auto simp: thread_pool_add_task_def ring_room_def Let_def split: if_splits)
  have ri: "ring_inv ?r" using inv by (simp add: pool_inv_def tasks_inv_def)
  obtain w where s': "s' = s\<lparr>sy_pool := (sy_pool s)\<lparr>tp_tasks := ring_put fd ?r\<rparr>,
                             sy_accepted := sy_accepted s @ [fd], sy_want := w\<rparr>"
    using a False that [of "sy_want s"] that [of "sy_want s + 1"]
    by (auto simp: thread_pool_add_task_def Let_def split: if_splits)
  show ?thesis using inv False ring.put_inv [OF ri room, of fd] ring.put_waiting [OF ri room, of fd]
    by (simp add: s' pool_inv_def slots_inv_def tasks_inv_def stats_inv_def cores_inv_def Let_def)
qed (use assms in \<open>simp add: thread_pool_add_task_def Let_def\<close>)

lemma pool_inv_want: "pool_inv n s \<Longrightarrow> pool_inv n (s\<lparr>sy_want := w\<rparr>)"
  by (simp add: pool_inv_def slots_inv_def tasks_inv_def stats_inv_def cores_inv_def empty_queue_def)

lemma pool_inv_peak: "pool_inv n s \<Longrightarrow> pool_inv n (on_pool note_peak s)"
  using over_slots_le [of s]
  by (simp add: pool_inv_def slots_inv_def Let_def note_peak_def)

lemma pool_inv_shutdown: "pool_inv n s \<Longrightarrow> pool_inv n (thread_pool_shutdown s)"
  by (auto simp: pool_inv_def slots_inv_def tasks_inv_def stats_inv_def cores_inv_def empty_queue_def
      thread_pool_shutdown_def on_pool_def Let_def)

lemma pool_inv_step:
  assumes "pool_step s s'" and "pool_inv n s"
  shows "pool_inv n s'"
  using assms
proof (induction rule: pool_step.induct)
  case (spawn_extra s m slot s')
  show ?case by (rule pool_inv_claim(1) [OF pool_inv_want [OF spawn_extra(3)] spawn_extra(2)])
qed (blast intro: pool_inv_add pool_inv_want pool_inv_peak pool_inv_create pool_inv_take pool_inv_finish
    pool_inv_leave pool_inv_shutdown)+

lemma pool_inv_reachable: "reachable s0 s \<Longrightarrow> pool_inv n s0 \<Longrightarrow> pool_inv n s"
  by (induction rule: reachable.induct) (auto intro: pool_inv_step)

subsection \<open>The pool starts in it\<close>

definition starting :: "nat \<Rightarrow> sys \<Rightarrow> bool" where
  \<comment> \<open>between two rounds of the loop that starts the core workers\<close>
  "starting n s \<longleftrightarrow> pool_inv n s \<and> \<not> tp_shutdown (sy_pool s)
     \<and> (\<forall>i. sy_phase s i = (if i < n then Waiting True else Absent)) \<and> sy_want s = 0
     \<and> sy_accepted s = []"

lemma starting_spawn:
  assumes st: "starting n s" and sp: "spawn_worker ok True s = (0, s')"
  shows "starting (Suc n) s'"
proof -
  obtain i s1 where c: "claim True s = Some (i, s1)"
    and s': "s' = create i True True (on_pool note_peak s1)"
    using sp by (auto simp: spawn_worker_def split: option.splits if_splits)
  have inv: "pool_inv n s" using st by (simp add: starting_def)
  note cl = pool_inv_claim [OF inv c]
  have act: "tp_active (sy_pool s) ! j \<longleftrightarrow> j < n" if "j < MAX_POOL_WORKERS" for j
    using that st by (simp add: starting_def pool_inv_def slots_inv_def Let_def)
  have mx: "tp_max (sy_pool s) \<le> MAX_POOL_WORKERS" using inv by (simp add: pool_inv_def slots_inv_def Let_def)
  have i: "i = n"
  proof -
    have "\<not> i < n" using cl(2) st by (auto simp: starting_def)
    moreover have "\<not> n < i"
    proof
      assume "n < i"
      moreover have "free_slot (sy_pool s) = Some i" using c by (auto simp: claim_def split: option.splits)
      ultimately have "tp_active (sy_pool s) ! n" using cl(3)
        by (auto simp: free_slot_def find_Some_iff)
      then show False using act [of n] cl(3) mx \<open>n < i\<close> by simp
    qed
    ultimately show ?thesis by simp
  qed
  have inv': "pool_inv n s'" unfolding s'
    by (rule pool_inv_create [OF pool_inv_peak [OF cl(1)]]) (simp add: cl(4))
  have ph: "sy_phase s' j = (if j < Suc n then Waiting True else Absent)" for j
    using st i by (auto simp: s' create_def cl(4) starting_def)
  have "\<not> tp_shutdown (sy_pool s')" "sy_want s' = 0" "sy_accepted s' = []"
    using st by (simp_all add: s' create_def cl(4) starting_def set_phase_def on_pool_def occupy_def note_peak_def)
  then show ?thesis using inv' ph by (simp add: starting_def pool_inv_def cores_inv_def)
qed

lemma spawn_core_starting:
  "starting n s \<Longrightarrow> spawn_core oks s = Some s' \<Longrightarrow> starting (n + length oks) s'"
proof (induction oks arbitrary: n s)
  case (Cons ok oks)
  obtain s1 where "spawn_worker ok True s = (0, s1)" "spawn_core oks s1 = Some s'"
    using Cons.prems(2) by (auto split: prod.splits if_splits)
  then show ?case using starting_spawn [OF Cons.prems(1)] Cons.IH by fastforce
qed simp

lemma starting_empty:
  assumes "1 \<le> cap"
  shows "starting 0 (empty_sys (empty_pool core mx cap))"
  using ring_init_ok [of "replicate cap (0::int)"] assms ring_list_Nil [of "ring_init (replicate cap 0)"]
  by (simp add: starting_def pool_inv_def slots_inv_def tasks_inv_def stats_inv_def cores_inv_def empty_sys_def
      empty_pool_def Let_def slot_sum_zero del: ring_list_Nil)

lemma thread_pool_create_starting:
  assumes "thread_pool_create core mx cap ok = Some s0"
  shows "starting core s0" and "1 \<le> core"
proof -
  have "1 \<le> cap" and "1 \<le> core" and sp: "spawn_core (map ok [0..<core]) (empty_sys (empty_pool core mx cap)) = Some s0"
    using assms by (auto simp: thread_pool_create_def split: if_splits)
  then show "1 \<le> core" and "starting core s0"
    using spawn_core_starting [OF starting_empty [OF \<open>1 \<le> cap\<close>] sp] by simp_all
qed

subsection \<open>Service in the order of arrival\<close>

lemma pool_reachable_inv:
  assumes "thread_pool_create core mx cap ok = Some s0" and "reachable s0 s"
  shows "pool_inv core s"
  using thread_pool_create_starting(1) [OF assms(1)] pool_inv_reachable [OF assms(2)] by (simp add: starting_def)

lemma in_order_aux:
  assumes "pool_inv core s"
  shows "sy_accepted s = sy_taken s @ ring_list (tp_tasks (sy_pool s))"
    and "mset (sy_taken s) = mset (sy_done s) + over_slots in_hand (sy_phase s)"
    and "tp_num (sy_pool s) = int (over_slots present (sy_phase s))"
    and "tp_num (sy_pool s) \<le> int (tp_max (sy_pool s))" and "tp_max (sy_pool s) \<le> MAX_POOL_WORKERS"
    and "tp_peak (sy_pool s) \<le> int (tp_max (sy_pool s))"
    and "thread_pool_get_processed s = int (length (sy_done s))"
    and "0 \<le> thread_pool_get_errors s" and "thread_pool_get_errors s \<le> thread_pool_get_processed s"
    and "empty_queue s \<and> tp_shutdown (sy_pool s) \<or> (\<forall>i. core \<le> i \<or> core_alive (sy_phase s i))"
  using assms over_slots_le [of s]
  by (auto simp: pool_inv_def slots_inv_def tasks_inv_def stats_inv_def cores_inv_def Let_def
      thread_pool_get_processed_def thread_pool_get_errors_def not_le)

text \<open>
  C15: whatever the interleaving of producers, workers and shutdown, the pool takes connections in
  the order in which they were accepted, each exactly once: those accepted are those taken followed
  by those waiting, and those taken are the finished ones and the ones in the hands of a worker.
  The worker count is the number of live slots, stays within \<open>max_size\<close> (at most 64) as does the
  peak, the processed count is the number of finished connections and the errors are among them.
  All core workers stay alive until the pool is shut down and the queue is empty.
\<close>
theorem pool_serves_in_order:
  assumes "thread_pool_create core mx cap ok = Some s0" and "reachable s0 s"
  shows "sy_accepted s = sy_taken s @ ring_list (tp_tasks (sy_pool s))
    \<and> mset (sy_taken s) = mset (sy_done s) + over_slots in_hand (sy_phase s)
    \<and> tp_num (sy_pool s) = int (over_slots present (sy_phase s))
    \<and> tp_num (sy_pool s) \<le> int (tp_max (sy_pool s)) \<and> tp_max (sy_pool s) \<le> MAX_POOL_WORKERS
    \<and> tp_peak (sy_pool s) \<le> int (tp_max (sy_pool s))
    \<and> thread_pool_get_processed s = int (length (sy_done s))
    \<and> 0 \<le> thread_pool_get_errors s \<and> thread_pool_get_errors s \<le> thread_pool_get_processed s
    \<and> (empty_queue s \<and> tp_shutdown (sy_pool s) \<or> (\<forall>i. core \<le> i \<or> core_alive (sy_phase s i)))"
  using in_order_aux [OF pool_reachable_inv [OF assms]] by simp

definition example_pool :: sys where
  "example_pool = the (thread_pool_create 1 2 1 (\<lambda>_. True))"

definition example_busy :: sys where
  "example_busy = take_task 0 True (snd (the (thread_pool_add_task 7 example_pool)))"

lemma example_pool_create: "thread_pool_create 1 2 1 (\<lambda>_. True) = Some example_pool"
proof -
  have "\<not> Option.is_none (thread_pool_create 1 2 1 (\<lambda>_. True))" by code_simp
  then show ?thesis by (simp add: example_pool_def Option.is_none_def)
qed

lemma example_add: "thread_pool_add_task 7 example_pool = Some (0, snd (the (thread_pool_add_task 7 example_pool)))"
proof -
  have "\<not> Option.is_none (thread_pool_add_task 7 example_pool)" "fst (the (thread_pool_add_task 7 example_pool)) = 0"
    by code_simp+
  then show ?thesis by (auto simp: Option.is_none_def)
qed

lemma example_busy_reachable: "reachable example_pool example_busy"
  unfolding example_busy_def
proof (rule reachable.step [OF reachable.step [OF reachable.start pool_step.add [OF example_add]] pool_step.taken])
  show "sy_phase (snd (the (thread_pool_add_task 7 example_pool))) 0 = Waiting True" by code_simp
  show "\<not> empty_queue (snd (the (thread_pool_add_task 7 example_pool)))" by code_simp
qed

lemma pool_serves_in_order_witness:
  "sy_accepted example_busy = sy_taken example_busy @ ring_list (tp_tasks (sy_pool example_busy))
   \<and> sy_taken example_busy = [7] \<and> sy_done example_busy = []"
proof -
  have "sy_taken example_busy = [7]" "sy_done example_busy = []" by code_simp+
  then show ?thesis
    using pool_serves_in_order [OF example_pool_create example_busy_reachable] by simp
qed

subsection \<open>Draining\<close>










end
