(* ===== verification/Request_Files.thy ===== *)
theory Request_Files
  imports Dispatch
begin

text \<open>
  Requests from files: the loop over the lines of a \<open>.req\<close> file that \<open>src/request_worker.c\<close> and
  the worker of \<open>src/process_server.c\<close> have in common, the output file it writes, and the program
  \<open>request_worker\<close>.  \<open>evs n\<close> is what the operating system answers during the \<open>n\<close>th request.
\<close>

record batch =
  ba_out :: string       \<comment> \<open>what went to the output file\<close>
  ba_count :: nat
  ba_errors :: nat

definition chomp :: "string \<Rightarrow> string" where
  \<comment> \<open>\<open>line[strcspn(line, CR LF)] = 0\<close>\<close>
  "chomp raw = cut_at LF (cut_at CR (cstr raw))"

definition next_request :: "string \<Rightarrow> string \<Rightarrow> request option \<times> string" where
  \<comment> \<open>parse the line; a POST takes the next line as its body\<close>
  "next_request line rest =
     (case request_handler_parse line of
        None \<Rightarrow> (None, rest)
      | Some req \<Rightarrow>
          if strcmp (rq_method req) ''POST'' = 0 then
            (case fgets 512 rest of
               None \<Rightarrow> (Some req, rest)
             | Some (body, rest) \<Rightarrow> (Some (request_handler_set_body (chomp body) req), rest))
          else (Some req, rest))"

definition put_response :: "reply \<Rightarrow> batch \<Rightarrow> batch" where
  "put_response r b =
     (case r of
        None \<Rightarrow> b\<lparr>ba_errors := ba_errors b + 1\<rparr>
      | Some t \<Rightarrow> b\<lparr>ba_out := ba_out b @ (if 0 < ba_count b then ''---'' @ [LF] else []) @ t,
                    ba_count := ba_count b + 1\<rparr>)"

definition served :: "batch \<Rightarrow> nat" where
  "served b = ba_count b + ba_errors b"

lemma next_request_rest: "length (snd (next_request line rest)) \<le> length rest"
  by (auto simp: next_request_def split: option.splits prod.splits dest!: fgets_shorter)

function serve_lines :: "(nat \<Rightarrow> env) \<Rightarrow> string \<Rightarrow> batch \<Rightarrow> server \<Rightarrow> (batch \<times> server) run" where
  \<comment> \<open>\<open>while (fgets(line, sizeof(line), fp) != NULL)\<close>\<close>
  "serve_lines evs data b sv =
     (case fgets 512 data of
        None \<Rightarrow> Ret (b, sv)
      | Some (raw, rest) \<Rightarrow>
          if chomp raw = [] then serve_lines evs rest b sv
          else (let (r, rest') = next_request (chomp raw) rest
                in case r of
                     None \<Rightarrow> serve_lines evs rest' b sv
                   | Some req \<Rightarrow>
                       bind_run (request_handler_process (evs (served b)) req 4096 sv)
                         (\<lambda>(out, sv). serve_lines evs rest' (put_response out b) sv)))"
  by auto
termination
proof (relation "measure (\<lambda>(_, d, _). length d)", goal_cases)
  case (3 evs data b sv x2 raw rest x r rest')
  then have "rest' = snd (next_request (chomp raw) rest)" by (metis snd_conv)
  with 3 show ?case using next_request_rest [of "chomp raw" rest] fgets_shorter [of 512 data raw rest] by simp
next
  case (4 evs data b sv x2 raw rest x r rest')
  then have "rest' = snd (next_request (chomp raw) rest)" by (metis snd_conv)
  with 4 show ?case using next_request_rest [of "chomp raw" rest] fgets_shorter [of 512 data raw rest] by simp
qed (auto dest: fgets_shorter)

declare serve_lines.simps [simp del]

definition new_batch :: batch where
  "new_batch = \<lparr>ba_out = connection_info, ba_count = 0, ba_errors = 0\<rparr>"

subsection \<open>The program \<open>request_worker\<close>\<close>

definition request_worker_main ::
    "(nat \<Rightarrow> env) \<Rightarrow> nat \<Rightarrow> bool \<Rightarrow> string option \<Rightarrow> string option \<Rightarrow> bool \<Rightarrow> server \<Rightarrow> (int \<times> string option) run" where
  \<comment> \<open>number of arguments, whether the log opens, contents of the CSV and the request file (\<open>None\<close>
    when they cannot be opened), whether the output file can be written: the exit status and the
    output file\<close>
  "request_worker_main evs argc log_ok csv req_file out_ok sv =
     (if argc \<noteq> 6 \<or> \<not> log_ok then Ret (1, None)
      else bind_run (of_loop (user_store_load_csv False csv (sv_store sv))) (\<lambda>st.
        case req_file of
          None \<Rightarrow> Ret (1, None)
        | Some data \<Rightarrow>
            if \<not> out_ok then Ret (1, None)
            else bind_run (serve_lines evs data new_batch (sv\<lparr>sv_store := st\<rparr>))
                   (\<lambda>(b, _). Ret (0, Some (ba_out b)))))"

end
