(* ===== verification/Request_Files_Correct.thy ===== *)
theory Request_Files_Correct
  imports Request_Files Dispatch_Correct
begin

text \<open>
  A file of printed requests is served as these requests one after the other: the reader of
  \<open>.req\<close> files inverts the printer, and the output is the answers with a separator between them.
\<close>

subsection \<open>Reading a printed request\<close>

lemma fgets_line:
  assumes "LF \<notin> set l" and "length l + 1 < n"
  shows "fgets n (l @ LF # r) = Some (l @ [LF], r)"
proof (cases l)
  case (Cons c t)
  then have "fgets n (l @ LF # r) = Some (take (Suc (length l)) (l @ LF # r), drop (Suc (length l)) (l @ LF # r))"
    using assms cut_at_append [OF assms(1), of r] by (simp add: fgets.simps min_absorb2)
  then show ?thesis by simp
qed (use assms in \<open>simp add: fgets.simps cut_at_def\<close>)

definition one_line :: "string \<Rightarrow> bool" where
  "one_line s \<longleftrightarrow> NUL \<notin> set s \<and> CR \<notin> set s \<and> LF \<notin> set s"

lemma chomp_line: "one_line s \<Longrightarrow> chomp (s @ [LF]) = s"
  by (simp add: chomp_def one_line_def cstr_id cut_at_id cut_at_append)

definition word :: "nat \<Rightarrow> string \<Rightarrow> bool" where
  "word n s \<longleftrightarrow> s \<noteq> [] \<and> length s \<le> n \<and> (\<forall>c\<in>set s. \<not> isspace_c c) \<and> NUL \<notin> set s"

lemma isspace_line_ends: "isspace_c LF" "isspace_c CR" "isspace_c SPC"
  by (simp_all add: isspace_c_def char_code_def)

lemma word_one_line: "word n s \<Longrightarrow> one_line s"
  using isspace_line_ends by (auto simp: word_def one_line_def)

lemma scan_word_word:
  assumes "word n w" and "t = [] \<or> isspace_c (hd t)"
  shows "scan_word n (w @ t) = Some (w, t)"
proof -
  have ns: "\<forall>c\<in>set w. \<not> isspace_c c" and ne: "w \<noteq> []" and len: "length w \<le> n" using assms by (simp_all add: word_def)
  have "dropWhile isspace_c (w @ t) = w @ t" using ns ne by (cases w) auto
  moreover have "takeWhile (\<lambda>c. \<not> isspace_c c) (w @ t) = w"
    using ns assms(2) by (cases t) (auto simp: takeWhile_append2)
  moreover have "0 < n" using ne len by (cases w) auto
  ultimately show ?thesis using ne len by (simp add: scan_word_def)
qed

lemma scan_word_space: "scan_word n (SPC # s) = scan_word n s"
  by (simp add: scan_word_def isspace_c_def)

definition printable :: "request \<Rightarrow> bool" where
  \<comment> \<open>a request that a \<open>.req\<close> file can express\<close>
  "printable req \<longleftrightarrow> word 15 (rq_method req) \<and> word 255 (rq_path req)
     \<and> one_line (rq_body req) \<and> length (rq_body req) \<le> 510
     \<and> (rq_body req = [] \<or> rq_method req = ''POST'')
     \<and> req = zero_request\<lparr>rq_method := rq_method req, rq_path := rq_path req, rq_body := rq_body req\<rparr>"

definition print_request :: "request \<Rightarrow> string" where
  "print_request req = rq_method req @ [SPC] @ rq_path req @ [LF]
     @ (if rq_method req = ''POST'' then rq_body req @ [LF] else [])"

lemma parse_printed:
  assumes "word 15 m" and "word 255 p"
  shows "request_handler_parse (m @ SPC # p) = Some (zero_request\<lparr>rq_method := m, rq_path := p\<rparr>)"
proof -
  have "scan_word 15 (m @ SPC # p) = Some (m, SPC # p)"
    by (rule scan_word_word [OF assms(1)]) (simp add: isspace_c_def)
  moreover have "scan_word 255 (SPC # p) = Some (p, [])"
    using scan_word_word [OF assms(2), of "[]"] by (simp add: scan_word_space)
  moreover have "length m < 16" "length p < 256" using assms by (auto simp: word_def)
  ultimately show ?thesis by (simp add: request_handler_parse_def copy_text_id)
qed

lemma next_request_printed:
  assumes "printable req"
  shows "next_request (rq_method req @ SPC # rq_path req)
           ((if rq_method req = ''POST'' then rq_body req @ [LF] else []) @ rest) = (Some req, rest)"
proof -
  have w: "word 15 (rq_method req)" "word 255 (rq_path req)"
    and b: "one_line (rq_body req)" "length (rq_body req) \<le> 510"
    and other: "rq_method req \<noteq> ''POST'' \<Longrightarrow> rq_body req = []"
    and e: "zero_request\<lparr>rq_method := rq_method req, rq_path := rq_path req, rq_body := rq_body req\<rparr> = req"
    using assms unfolding printable_def by auto
  note parsed = parse_printed [OF w]
  show ?thesis
  proof (cases "rq_method req = ''POST''")
    case True
    have "fgets 512 (rq_body req @ LF # rest) = Some (rq_body req @ [LF], rest)"
      by (rule fgets_line) (use b in \<open>auto simp: one_line_def\<close>)
    moreover have "request_handler_set_body (rq_body req)
        (zero_request\<lparr>rq_method := rq_method req, rq_path := rq_path req\<rparr>) = req"
      using e b by (simp add: request_handler_set_body_def copy_text_id)
    ultimately show ?thesis using True parsed b by (simp add: next_request_def chomp_line)
  next
    case False
    have "zero_request\<lparr>rq_method := rq_method req, rq_path := rq_path req\<rparr> = req"
      using e other [OF False] by (cases req) (simp add: zero_request_def)
    then show ?thesis using False parsed by (simp add: next_request_def)
  qed
qed

subsection \<open>Serving a printed file\<close>

fun process_all :: "(nat \<Rightarrow> env) \<Rightarrow> nat \<Rightarrow> request list \<Rightarrow> server \<Rightarrow> (reply list \<times> server) run" where
  \<comment> \<open>the reference: the requests handled one after the other\<close>
  "process_all evs n [] sv = Ret ([], sv)"
| "process_all evs n (req # reqs) sv =
     bind_run (request_handler_process (evs n) req 4096 sv) (\<lambda>(out, sv).
       bind_run (process_all evs (n + 1) reqs sv) (\<lambda>(outs, sv). Ret (out # outs, sv)))"

definition answers :: "reply list \<Rightarrow> string list" where
  "answers rs = map the (filter (\<lambda>r. r \<noteq> None) rs)"

definition separated :: "string list \<Rightarrow> string" where
  "separated ts = concat (map (\<lambda>t. ''---'' @ LF # t) ts)"

fun joined :: "string list \<Rightarrow> string" where
  "joined [] = []"
| "joined (t # ts) = t @ separated ts"

lemma answers_simps [simp]: "answers [] = []" "answers (None # rs) = answers rs" "answers (Some t # rs) = t # answers rs"
  by (simp_all add: answers_def)

lemma length_answers: "length (answers rs) \<le> length rs"
  by (simp add: answers_def)

lemma fold_put_response:
  "fold put_response rs b = \<lparr>ba_out = ba_out b @ (if ba_count b = 0 then joined (answers rs) else separated (answers rs)),
     ba_count = ba_count b + length (answers rs), ba_errors = ba_errors b + (length rs - length (answers rs))\<rparr>"
proof (induction rs arbitrary: b)
  case (Cons r rs)
  then show ?case using length_answers [of rs]
    by (cases r) (auto simp: put_response_def separated_def Suc_diff_le)
qed (simp add: separated_def)

lemma served_put_response [simp]: "served (put_response r b) = Suc (served b)"
  by (simp add: served_def put_response_def split: option.splits)

lemma bind_run_assoc: "bind_run (bind_run r f) g = bind_run r (\<lambda>x. bind_run (f x) g)"
  by (cases r) auto

lemma serve_lines_printed_aux:
  assumes "printable req"
  shows "serve_lines evs (print_request req @ rest) b sv
    = bind_run (request_handler_process (evs (served b)) req 4096 sv)
        (\<lambda>(out, sv). serve_lines evs rest (put_response out b) sv)"
proof -
  let ?l = "rq_method req @ SPC # rq_path req"
    and ?r = "(if rq_method req = ''POST'' then rq_body req @ [LF] else []) @ rest"
  have w: "word 15 (rq_method req)" "word 255 (rq_path req)" using assms by (auto simp: printable_def)
  then have o: "one_line ?l" "length ?l + 1 < 512"
    using word_one_line by (auto simp: word_def one_line_def)
  have "fgets 512 (?l @ LF # ?r) = Some (?l @ [LF], ?r)"
    by (rule fgets_line) (use o in \<open>simp_all add: one_line_def\<close>)
  moreover have "print_request req @ rest = ?l @ LF # ?r" by (simp add: print_request_def)
  moreover have "chomp (?l @ [LF]) = ?l" using o(1) by (rule chomp_line)
  ultimately show ?thesis
    using next_request_printed [OF assms, of rest] by (subst serve_lines.simps) simp
qed

lemma serve_printed_aux:
  "list_all printable reqs \<Longrightarrow>
   serve_lines evs (concat (map print_request reqs)) b sv
     = bind_run (process_all evs (served b) reqs sv) (\<lambda>(rs, sv). Ret (fold put_response rs b, sv))"
proof (induction reqs arbitrary: b sv)
  case Nil
  then show ?case by (subst serve_lines.simps) (simp add: fgets.simps)
next
  case (Cons req reqs)
  then have p: "printable req" by simp
  have "serve_lines evs (concat (map print_request (req # reqs))) b sv
    = bind_run (request_handler_process (evs (served b)) req 4096 sv)
        (\<lambda>(out, sv). serve_lines evs (concat (map print_request reqs)) (put_response out b) sv)"
    using serve_lines_printed_aux [OF p] by simp
  also have "\<dots> = bind_run (process_all evs (served b) (req # reqs) sv) (\<lambda>(rs, sv). Ret (fold put_response rs b, sv))"
    using Cons.IH Cons.prems by (simp add: bind_run_assoc case_prod_unfold)
  finally show ?case .
qed

text \<open>
  C20: serving a file of printed requests is handling the requests in their order: the output file is
  the connection info followed by the answers of those requests that were answered, with a line of
  three dashes between them; the others are counted as errors, and the state of the server is the one
  that the requests left.
\<close>
theorem serve_file_printed:
  assumes "list_all printable reqs"
  shows "serve_lines evs (concat (map print_request reqs)) new_batch sv
    = bind_run (process_all evs 0 reqs sv) (\<lambda>(rs, sv').
        Ret (\<lparr>ba_out = connection_info @ joined (answers rs), ba_count = length (answers rs),
              ba_errors = length rs - length (answers rs)\<rparr>, sv'))"
  unfolding serve_printed_aux [OF assms] by (simp add: fold_put_response new_batch_def served_def)

definition example_requests :: "request list" where
  "example_requests = [zero_request\<lparr>rq_method := ''GET'', rq_path := ''/hello''\<rparr>,
     zero_request\<lparr>rq_method := ''POST'', rq_path := ''/other'', rq_body := ''ann,pw''\<rparr>]"

lemma example_requests_printable: "list_all printable example_requests"
  by (simp add: example_requests_def printable_def word_def one_line_def zero_request_def isspace_c_def char_code_def)

lemma example_requests_processed:
  "process_all evs 0 example_requests demo_server
    = Ret ([Some (connection_info @ the (build_hello_response 512)),
            Some (connection_info @ ''404 Not Found: POST /other'' @ [LF])], demo_server)"
  by (simp add: example_requests_def request_handler_process_def process_text_def zero_request_def
      connection_info_def unlines_def build_hello_response_def starts_with_def)

lemma serve_file_printed_witness:
  "serve_lines (\<lambda>_. demo_env) (concat (map print_request example_requests)) new_batch demo_server
    = Ret (\<lparr>ba_out = connection_info @ (connection_info @ the (build_hello_response 512)) @ ''---'' @ [LF]
                       @ connection_info @ ''404 Not Found: POST /other'' @ [LF],
             ba_count = 2, ba_errors = 0\<rparr>, demo_server)"
  using serve_file_printed [OF example_requests_printable, of "\<lambda>_. demo_env" demo_server]
  by (simp add: example_requests_processed separated_def)

end
