(* ===== verification/Process_Server.thy ===== *)
theory Process_Server
  imports Request_Files Fifo_Queue "HOL-Library.Multiset"
begin

text \<open>
  The launcher of \<open>src/process_server.c\<close>: the scan of the directory \<open>requests\<close> fills a ring of
  paths, then the workers empty it.  \<open>batch_sys\<close> holds the shared data and the place in its loop
  at which each worker is; \<open>batch_step\<close> interleaves the workers.  \<open>done_flag\<close> and the semaphore
  are set before the first worker is created, so it is constantly 1 here.
\<close>

abbreviation MAX_REQ_FILES :: nat where "MAX_REQ_FILES \<equiv> 64"
abbreviation NUM_WORKERS :: nat where "NUM_WORKERS \<equiv> 4"

subsection \<open>One request file\<close>

definition file_name :: "string \<Rightarrow> string" where
  "file_name path = (case strrchr path CHR ''/'' of None \<Rightarrow> path | Some p \<Rightarrow> tl p)"

definition strip_suffix :: "string \<Rightarrow> string" where
  \<comment> \<open>\<open>dot = strrchr(s, '.'); if (dot) *dot = 0\<close>\<close>
  "strip_suffix s = (case strrchr s CHR ''.'' of None \<Rightarrow> s | Some p \<Rightarrow> take (length s - length p) s)"

definition output_path :: "string \<Rightarrow> string" where
  "output_path path = snprintf_to 512 (''outputs/'' @ strip_suffix (file_name path) @ ''.out'')"

datatype outcome = Failed | Served nat  \<comment> \<open>with the number of errors\<close>

definition process_file ::
    "(nat \<Rightarrow> env) \<Rightarrow> (string \<Rightarrow> string option) \<Rightarrow> (string \<Rightarrow> bool) \<Rightarrow> string \<Rightarrow> server
      \<Rightarrow> (outcome \<times> (string \<times> string) option \<times> server) run" where
  \<comment> \<open>the outcome for the statistics, the output file with its content, and the state of the server\<close>
  "process_file evs fs can_write path sv =
     (case fs path of
        None \<Rightarrow> Ret (Failed, None, sv)
      | Some data \<Rightarrow>
          if \<not> can_write (output_path path) then Ret (Failed, None, sv)
          else bind_run (serve_lines evs data new_batch sv) (\<lambda>(b, sv).
                 Ret (Served (ba_errors b), Some (output_path path, ba_out b), sv)))"

subsection \<open>Filling the queue\<close>

definition is_req_file :: "string \<Rightarrow> bool" where
  "is_req_file name =
     (case strrchr name CHR ''.'' of None \<Rightarrow> False | Some ext \<Rightarrow> strcmp ext ''.req'' = 0)"

fun scan_requests :: "string list \<Rightarrow> string ring \<Rightarrow> nat \<Rightarrow> string ring \<times> nat" where
  \<comment> \<open>the loop over \<open>readdir\<close>; the number counts the posts of the semaphore\<close>
  "scan_requests [] q tokens = (q, tokens)"
| "scan_requests (name # names) q tokens =
     (if \<not> is_req_file name then scan_requests names q tokens
      else if MAX_REQ_FILES \<le> rg_count q then (q, tokens)
      else scan_requests names (ring_put (copy_text 512 (snprintf_to 512 (''requests/'' @ name))) q) (tokens + 1))"

subsection \<open>The workers\<close>

datatype place =
    Not_Started
  | Before_Wait            \<comment> \<open>at \<open>sem_wait\<close>\<close>
  | After_Wait             \<comment> \<open>about to lock the queue\<close>
  | Working string
  | Exited

record batch_sys =
  bs_queue :: "string ring"
  bs_tokens :: nat          \<comment> \<open>the value of \<open>tasks_sem\<close>\<close>
  bs_worker :: "nat \<Rightarrow> place"
  bs_processed :: int
  bs_errors :: int
  bs_taken :: "string list"
  bs_done :: "string list"

definition place_worker :: "nat \<Rightarrow> place \<Rightarrow> batch_sys \<Rightarrow> batch_sys" where
  "place_worker i p s = s\<lparr>bs_worker := (bs_worker s)(i := p)\<rparr>"

definition sem_down :: "nat \<Rightarrow> batch_sys \<Rightarrow> batch_sys" where
  "sem_down i s = place_worker i After_Wait (s\<lparr>bs_tokens := bs_tokens s - 1\<rparr>)"

definition fetch :: "nat \<Rightarrow> batch_sys \<Rightarrow> batch_sys" where
  \<comment> \<open>with the queue locked: leave when it is empty (\<open>done_flag\<close> is set), else take the oldest path\<close>
  "fetch i s =
     (if rg_count (bs_queue s) = 0 then place_worker i Exited s
      else (let (path, q) = ring_get (bs_queue s)
            in place_worker i (Working (copy_text 512 path))
                 (s\<lparr>bs_queue := q, bs_taken := bs_taken s @ [path]\<rparr>)))"

definition account :: "outcome \<Rightarrow> batch_sys \<Rightarrow> batch_sys" where
  "account r s =
     (case r of
        Failed \<Rightarrow> s\<lparr>bs_errors := bs_errors s + 1\<rparr>
      | Served errs \<Rightarrow> s\<lparr>bs_processed := bs_processed s + 1, bs_errors := bs_errors s + int errs\<rparr>)"

definition conclude :: "nat \<Rightarrow> string \<Rightarrow> outcome \<Rightarrow> batch_sys \<Rightarrow> batch_sys" where
  "conclude i path r s = place_worker i Before_Wait ((account r s)\<lparr>bs_done := bs_done s @ [path]\<rparr>)"

inductive batch_step :: "batch_sys \<Rightarrow> batch_sys \<Rightarrow> bool" where
  wait: "bs_worker s i = Before_Wait \<Longrightarrow> 0 < bs_tokens s \<Longrightarrow> batch_step s (sem_down i s)"
| fetch: "bs_worker s i = After_Wait \<Longrightarrow> batch_step s (fetch i s)"
| conclude: "bs_worker s i = Working path \<Longrightarrow> batch_step s (conclude i path r s)"

inductive batch_reachable :: "batch_sys \<Rightarrow> batch_sys \<Rightarrow> bool" for s0 where
  start: "batch_reachable s0 s0"
| step: "batch_reachable s0 s \<Longrightarrow> batch_step s s' \<Longrightarrow> batch_reachable s0 s'"

definition process_server_start :: "bool \<Rightarrow> string list option \<Rightarrow> (nat \<Rightarrow> bool) \<Rightarrow> batch_sys option" where
  \<comment> \<open>\<open>process_server_run\<close> up to its joins: whether \<open>outputs\<close> and the primitives exist, the names
    in the directory (\<open>None\<close> when it cannot be opened), and which workers can be created\<close>
  "process_server_start ok dir started =
     (if \<not> ok then None
      else case dir of
        None \<Rightarrow> None
      | Some names \<Rightarrow>
          (let (q, tokens) = scan_requests names (ring_init (replicate MAX_REQ_FILES [])) 0
           in Some \<lparr>bs_queue = q, bs_tokens = tokens + NUM_WORKERS,
                    bs_worker = (\<lambda>i. if i < NUM_WORKERS \<and> started i then Before_Wait else Not_Started),
                    bs_processed = 0, bs_errors = 0, bs_taken = [], bs_done = []\<rparr>))"

definition all_joined :: "batch_sys \<Rightarrow> bool" where
  \<comment> \<open>every worker that was created has returned, so that \<open>process_server_run\<close> returns 0\<close>
  "all_joined s \<longleftrightarrow> list_all (\<lambda>i. bs_worker s i = Not_Started \<or> bs_worker s i = Exited) [0..<NUM_WORKERS]"

end
