(* ===== verification/Process_Server_Correct.thy ===== *)
theory Process_Server_Correct
  imports Process_Server Slot_Sums
begin

text \<open>
  The launcher finishes: whatever the order in which the workers win the semaphore and the locks,
  each of them returns, and every path that was queued is processed exactly once.
\<close>

subsection \<open>The scan\<close>




subsection \<open>The invariant\<close>

definition carried :: "place \<Rightarrow> string multiset" where
  "carried p = (case p of Working path \<Rightarrow> {#path#} | _ \<Rightarrow> {#})"

definition awake :: "place \<Rightarrow> nat" where "awake p = (if p = After_Wait then 1 else 0)"
definition gone :: "place \<Rightarrow> nat" where "gone p = (if p = Exited then 1 else 0)"

definition toil :: "place \<Rightarrow> nat" where
  "toil p = (case p of Before_Wait \<Rightarrow> 1 | After_Wait \<Rightarrow> 2 | Working _ \<Rightarrow> 3 | _ \<Rightarrow> 0)"

lemma place_weights [simp]:
  "carried Before_Wait = {#}" "carried After_Wait = {#}" "carried (Working path) = {#path#}" "carried Exited = {#}"
  "awake Before_Wait = 0" "awake After_Wait = 1" "awake (Working path) = 0" "awake Exited = 0"
  "gone Before_Wait = 0" "gone After_Wait = 0" "gone (Working path) = 0" "gone Exited = 1"
  "toil Before_Wait = 1" "toil After_Wait = 2" "toil (Working path) = 3" "toil Exited = 0"
  by (simp_all add: carried_def awake_def gone_def toil_def)






subsection \<open>The workers finish\<close>










end
