(* ===== verification/Config_Text.thy ===== *)
theory Config_Text
  imports Config Request User_Store
begin

text \<open>
  What the parsers of \<open>src/config.c\<close> share: their results, the lines of a file, words, and the
  directives that the nginx, JSON and YAML formats have in common.
\<close>

subsection \<open>Results\<close>

datatype 'a parsed =
    Stuck       \<comment> \<open>a loop that does not end\<close>
  | Crash       \<comment> \<open>a NULL pointer is dereferenced\<close>
  | Fail        \<comment> \<open>the function returns -1; the callers drop the configuration then\<close>
  | Parsed 'a

fun bind_parsed :: "'a parsed \<Rightarrow> ('a \<Rightarrow> 'b parsed) \<Rightarrow> 'b parsed" where
  "bind_parsed (Parsed a) f = f a"
| "bind_parsed Stuck f = Stuck"
| "bind_parsed Crash f = Crash"
| "bind_parsed Fail f = Fail"

lemma bind_parsed_cong [fundef_cong]:
  "m = m' \<Longrightarrow> (\<And>a. m' = Parsed a \<Longrightarrow> f a = g a) \<Longrightarrow> bind_parsed m f = bind_parsed m' g"
  by (cases m') auto

lemma bind_parsed_iff: "bind_parsed m f = Parsed b \<longleftrightarrow> (\<exists>a. m = Parsed a \<and> f a = Parsed b)"
  by (cases m) auto

definition of_run :: "'a option run \<Rightarrow> 'a parsed" where
  "of_run r = (case r of Loops \<Rightarrow> Stuck | Ret None \<Rightarrow> Fail | Ret (Some a) \<Rightarrow> Parsed a)"

lemma of_run_Parsed [simp]: "of_run r = Parsed a \<longleftrightarrow> r = Ret (Some a)"
  by (auto simp: of_run_def split: run.splits option.splits)

subsection \<open>Lines and words\<close>

definition config_line :: "string \<Rightarrow> string" where
  \<comment> \<open>\<open>remove_newline(line); text = trim(line);\<close>\<close>
  "config_line raw = trim (config_remove_newline (cstr raw))"

definition ignored_line :: "string \<Rightarrow> bool" where
  "ignored_line text \<longleftrightarrow> text = [] \<or> hd text = CHR ''#''"

fun words_from :: "string \<Rightarrow> string \<Rightarrow> string list" where
  "words_from w [] = (if w = [] then [] else [w])"
| "words_from w (c # s) =
     (if c = SPC \<or> c = TAB then (if w = [] then words_from [] s else w # words_from [] s)
      else words_from (w @ [c]) s)"

definition strtok_blanks :: "string \<Rightarrow> string list" where
  \<comment> \<open>the tokens that repeated \<open>strtok_r\<close> with blanks and tabs gives\<close>
  "strtok_blanks s = words_from [] s"

definition key_value :: "char \<Rightarrow> string \<Rightarrow> (string \<times> string) option" where
  \<comment> \<open>split at the first such character and trim both sides\<close>
  "key_value c text = map_option (\<lambda>sep. (trim (cut_at c text), trim (tl sep))) (strchr text c)"

definition directive :: "string \<Rightarrow> (string \<times> string) option" where
  \<comment> \<open>a key and a value, separated by an equals sign or else by a blank; none without a key\<close>
  "directive text =
     (case (if strchr text CHR ''='' \<noteq> None then key_value CHR ''='' text else key_value SPC text) of
        None \<Rightarrow> None
      | Some (k, v) \<Rightarrow> if k = [] then None else Some (k, v))"

subsection \<open>Values\<close>

definition level_of :: "string \<Rightarrow> log_level option" where
  "level_of s =
     (if s = ''debug'' then Some LOG_DEBUG else if s = ''info'' then Some LOG_INFO
      else if s = ''warning'' then Some LOG_WARNING else if s = ''error'' then Some LOG_ERROR
      else if s = ''none'' then Some LOG_NONE else None)"

definition zero_block :: server_block where
  \<comment> \<open>\<open>memset(block, 0, sizeof(*block))\<close> and the defaults\<close>
  "zero_block = \<lparr>sb_host = ''0.0.0.0'', sb_port = 80, sb_root = [], sb_access_log = [], sb_names = [],
                 sb_default = False\<rparr>"

definition blank_default_server :: "string \<Rightarrow> bool \<times> string" where
  \<comment> \<open>whether the flag occurs, and the text with blanks in its place\<close>
  "blank_default_server buf =
     (case strstr buf ''default_server'' of
        None \<Rightarrow> (False, buf)
      | Some ds \<Rightarrow> (True, take (length buf - length ds) buf @ replicate 14 SPC @ drop 14 ds))"

definition parse_listen :: "string \<Rightarrow> server_block \<Rightarrow> server_block" where
  "parse_listen val block =
     (let (dflt, buf) = blank_default_server (copy_text 128 val);
          rest = trim buf;
          block = block\<lparr>sb_default := dflt\<rparr>;
          block = (case strchr rest CHR '':'' of
                     Some colon \<Rightarrow>
                       block\<lparr>sb_host := copy_text 64 (trim (cut_at CHR '':'' rest)),
                             sb_port := atoi (cut_at SPC (trim (tl colon)))\<rparr>
                   | None \<Rightarrow>
                       if atoi rest \<le> 0 then block\<lparr>sb_host := copy_text 64 rest, sb_port := 80\<rparr>
                       else block\<lparr>sb_port := atoi rest\<rparr>);
          block = (if sb_port block \<le> 0 then block\<lparr>sb_port := 80\<rparr> else block)
      in if sb_host block = [] then block\<lparr>sb_host := ''0.0.0.0''\<rparr> else block)"

definition path_match :: "string \<Rightarrow> string \<times> match_type" where
  \<comment> \<open>a path that ends in a slash and a star is a prefix without the star\<close>
  "path_match path =
     (if 2 \<le> length path \<and> drop (length path - 2) path = ''/*'' then (butlast path, MATCH_PREFIX)
      else (path, MATCH_EXACT))"

fun add_methods ::
    "string list \<Rightarrow> string \<Rightarrow> match_type \<Rightarrow> handler_type \<Rightarrow> string \<Rightarrow> string \<Rightarrow> route_table \<Rightarrow> route_table parsed" where
  \<comment> \<open>one route per method\<close>
  "add_methods [] path mt h realm role rt = Parsed rt"
| "add_methods (meth # ms) path mt h realm role rt =
     bind_parsed (of_run (route_table_add rt meth path mt h realm role)) (add_methods ms path mt h realm role)"

definition on_routes :: "(route_table \<Rightarrow> route_table parsed) \<Rightarrow> server_config \<Rightarrow> server_config parsed" where
  \<comment> \<open>apply to \<open>*config->route_table\<close>\<close>
  "on_routes f cfg =
     (case cf_route_table cfg of
        None \<Rightarrow> Crash
      | Some rt \<Rightarrow> bind_parsed (f rt) (\<lambda>rt. Parsed (cfg\<lparr>cf_route_table := Some rt\<rparr>)))"

end
