(* ===== verification/Config_Nginx.thy ===== *)
theory Config_Nginx
  imports Config_Text
begin

text \<open>
  The nginx format of \<open>src/config.c\<close> (and the flat format that it contains): global directives,
  \<open>server\<close> blocks and \<open>location\<close> blocks.  Each parser takes what is left of the file and returns
  what it leaves.
\<close>

subsection \<open>Global directives\<close>

definition set_error_log :: "string \<Rightarrow> server_config \<Rightarrow> server_config" where
  \<comment> \<open>\<open>sscanf(value, "%127s %31s", path_buf, level_buf)\<close>\<close>
  "set_error_log val cfg =
     (case scan_word 127 val of
        None \<Rightarrow> cfg
      | Some (path, rest) \<Rightarrow>
          cfg\<lparr>cf_error_log := copy_text 128 path,
              cf_error_log_level :=
                (case scan_word 31 rest of
                   None \<Rightarrow> LOG_WARNING
                 | Some (l, _) \<Rightarrow>
                     (case level_of l of None \<Rightarrow> LOG_WARNING | Some LOG_NONE \<Rightarrow> LOG_WARNING | Some lv \<Rightarrow> lv))\<rparr>)"

definition parse_flat_line :: "string \<Rightarrow> string \<Rightarrow> server_config \<Rightarrow> server_config" where
  "parse_flat_line key val cfg =
     (if key = ''server_name'' then cfg\<lparr>cf_server_name := copy_text 64 val\<rparr>
      else if key = ''host'' then cfg\<lparr>cf_host := copy_text 64 val\<rparr>
      else if key = ''port'' then cfg\<lparr>cf_port := atoi val\<rparr>
      else if key = ''www_root'' then cfg\<lparr>cf_www_root := copy_text 128 val\<rparr>
      else if key = ''root'' then cfg\<lparr>cf_root := copy_text 128 val\<rparr>
      else if key = ''user_file'' then cfg\<lparr>cf_user_file := copy_text 128 val\<rparr>
      else if key = ''data'' then cfg\<lparr>cf_data_path := copy_text 128 val\<rparr>
      else if key = ''log'' then cfg\<lparr>cf_log_path := copy_text 128 val\<rparr>
      else if key = ''system_log'' then cfg\<lparr>cf_system_log := copy_text 128 val\<rparr>
      else if key = ''access_log'' then cfg\<lparr>cf_access_log := copy_text 128 val\<rparr>
      else if key = ''log_level'' then
        cfg\<lparr>cf_log_level := (case level_of val of None \<Rightarrow> LOG_INFO | Some l \<Rightarrow> l)\<rparr>
      else if key = ''error_log'' then set_error_log val cfg
      else if key = ''log_max_lines'' then cfg\<lparr>cf_log_max_lines := atoi val\<rparr>
      else if key = ''log_max_roll_files'' then cfg\<lparr>cf_log_max_roll_files := atoi val\<rparr>
      else if key = ''auth_user_file'' then cfg\<lparr>cf_auth_user_file := copy_text 128 val\<rparr>
      else if key = ''max_connections'' then cfg\<lparr>cf_max_connections := atoi val\<rparr>
      else if key = ''max_request_bytes'' then cfg\<lparr>cf_max_request_bytes := atoi val\<rparr>
      else if key = ''worker_processes'' then cfg\<lparr>cf_worker_processes := atoi val\<rparr>
      else if key = ''worker_shutdown_timeout_ms'' then cfg\<lparr>cf_worker_shutdown_timeout_ms := atoi val\<rparr>
      else cfg)"

function load_legacy_config :: "string \<Rightarrow> server_config \<Rightarrow> server_config" where
  "load_legacy_config data cfg =
     (case fgets 256 data of
        None \<Rightarrow> cfg
      | Some (raw, rest) \<Rightarrow>
          let key = config_line raw
          in if ignored_line key then load_legacy_config rest cfg
             else case key_value CHR ''='' key of
                 None \<Rightarrow> load_legacy_config rest cfg
               | Some (k, v) \<Rightarrow>
                   load_legacy_config rest (if k = [] \<or> v = [] then cfg else parse_flat_line k v cfg))"
  by auto
termination
  by (relation "measure (\<lambda>(d, _). length d)") (auto dest: fgets_shorter)

declare load_legacy_config.simps [simp del]

subsection \<open>Location blocks\<close>

definition location_head :: "string \<Rightarrow> (string \<times> match_type) option" where
  \<comment> \<open>the path and the kind of match of a line \<open>location ... {\<close>\<close>
  "location_head line =
     (let p = trim (cut_at CHR ''{'' (copy_text 256 line))
      in if \<not> starts_with p ''location'' then None
         else let p = skip_blanks (drop 8 p);
                  p = (if p \<noteq> [] \<and> hd p = CHR ''='' then skip_blanks (tl p) else p)
              in Some (path_match (copy_text 256 (takeWhile (\<lambda>c. c \<noteq> SPC \<and> c \<noteq> TAB \<and> c \<noteq> CHR ''{'') p))))"

record location =
  lc_handler :: "string option"
  lc_methods :: "string list"
  lc_realm :: string
  lc_role :: string

definition is_quote :: "char \<Rightarrow> bool" where
  "is_quote c \<longleftrightarrow> c = CHR 0x22 \<or> c = CHR 0x27"

definition unquote :: "string \<Rightarrow> string" where
  "unquote v =
     (if v \<noteq> [] \<and> is_quote (hd v)
      then tl (if 1 < length v \<and> is_quote (last v) then butlast v else v)
      else v)"

definition location_directive :: "string \<Rightarrow> location \<Rightarrow> location" where
  "location_directive text lc =
     (case key_value SPC (strip_semicolon text) of
        None \<Rightarrow> lc
      | Some (key, val) \<Rightarrow>
          if key = ''handler'' then lc\<lparr>lc_handler := Some (copy_text 64 val)\<rparr>
          else if key = ''auth_basic'' then lc\<lparr>lc_realm := copy_text 64 (unquote val)\<rparr>
          else if key = ''auth_role'' then lc\<lparr>lc_role := copy_text 32 val\<rparr>
          else if key = ''methods'' then
            lc\<lparr>lc_methods := map (\<lambda>t. map toupper_c (copy_text 16 t)) (take 8 (strtok_blanks (copy_text 256 val)))\<rparr>
          else lc)"

definition close_location :: "string \<Rightarrow> match_type \<Rightarrow> location \<Rightarrow> route_table \<Rightarrow> route_table parsed" where
  "close_location path mt lc rt =
     (case lc_handler lc of
        None \<Rightarrow> Fail
      | Some name \<Rightarrow>
          let h = route_table_lookup_handler name
          in if h = HANDLER_NONE then Fail
             else if lc_methods lc = [] then Fail
             else add_methods (lc_methods lc) path mt h (lc_realm lc) (lc_role lc) rt)"

function location_lines ::
    "string \<Rightarrow> string \<Rightarrow> match_type \<Rightarrow> location \<Rightarrow> server_config \<Rightarrow> (string \<times> server_config) parsed" where
  "location_lines data path mt lc cfg =
     (case fgets 256 data of
        None \<Rightarrow> Fail
      | Some (raw, rest) \<Rightarrow>
          let text = config_line raw
          in if ignored_line text then location_lines rest path mt lc cfg
             else if hd text = CHR ''}'' then
               bind_parsed (on_routes (close_location path mt lc) cfg) (\<lambda>cfg. Parsed (rest, cfg))
             else location_lines rest path mt (location_directive text lc) cfg)"
  by auto
termination
  by (relation "measure (\<lambda>(d, _). length d)") (auto dest: fgets_shorter)

declare location_lines.simps [simp del]

definition parse_location_directive ::
    "string \<Rightarrow> string \<Rightarrow> server_config \<Rightarrow> (string \<times> server_config) parsed" where
  "parse_location_directive line data cfg =
     (case location_head line of
        None \<Rightarrow> Fail
      | Some (path, mt) \<Rightarrow>
          location_lines data path mt \<lparr>lc_handler = None, lc_methods = [], lc_realm = [], lc_role = []\<rparr> cfg)"

lemma location_lines_rest:
  "location_lines data path mt lc cfg = Parsed (rest, cfg') \<Longrightarrow> length rest < length data"
proof (induction "length data" arbitrary: data lc rule: less_induct)
  case less
  obtain raw r where f: "fgets 256 data = Some (raw, r)"
    using less.prems by (subst (asm) location_lines.simps) (auto split: option.splits)
  then have sh: "length r < length data" by (auto dest: fgets_shorter)
  have "length rest \<le> length r"
    using less.prems f less.hyps [OF sh]
    by (subst (asm) location_lines.simps) (force simp: Let_def bind_parsed_iff split: if_splits)
  with sh show ?case by simp
qed

lemma parse_location_rest:
  "parse_location_directive line data cfg = Parsed (rest, cfg') \<Longrightarrow> length rest < length data"
  by (auto simp: parse_location_directive_def split: option.splits dest: location_lines_rest)

subsection \<open>Server blocks\<close>

definition parse_server_name :: "string \<Rightarrow> server_block \<Rightarrow> server_block" where
  "parse_server_name val block =
     block\<lparr>sb_names := map (copy_text MAX_SERVER_NAME_LEN) (take MAX_SERVER_NAMES (strtok_blanks (copy_text 512 val)))\<rparr>"

definition parse_block_directive :: "string \<Rightarrow> string \<Rightarrow> server_block \<Rightarrow> server_block" where
  "parse_block_directive key val block =
     (if key = ''listen'' then parse_listen val block
      else if key = ''server_name'' then parse_server_name val block
      else if key = ''root'' then block\<lparr>sb_root := copy_text 128 val\<rparr>
      else if key = ''access_log'' then block\<lparr>sb_access_log := copy_text 128 val\<rparr>
      else block)"

function server_lines :: "string \<Rightarrow> server_block \<Rightarrow> server_config \<Rightarrow> (string \<times> server_config) parsed" where
  "server_lines data block cfg =
     (case fgets 256 data of
        None \<Rightarrow> Fail
      | Some (raw, rest) \<Rightarrow>
          let text = config_line raw
          in if ignored_line text then server_lines rest block cfg
             else if hd text = CHR ''}'' then Parsed (rest, cfg\<lparr>cf_servers := cf_servers cfg @ [block]\<rparr>)
             else if starts_with text ''location'' then
               bind_parsed (parse_location_directive text rest cfg) (\<lambda>(rest, cfg). server_lines rest block cfg)
             else case directive (strip_semicolon text) of
                 None \<Rightarrow> server_lines rest block cfg
               | Some (key, val) \<Rightarrow> server_lines rest (parse_block_directive key val block) cfg)"
  by auto
termination
  by (relation "measure (\<lambda>(d, _). length d)")
     (auto dest!: fgets_shorter parse_location_rest intro: less_trans)

declare server_lines.simps [simp del]

definition parse_server_block :: "string \<Rightarrow> server_config \<Rightarrow> (string \<times> server_config) parsed" where
  "parse_server_block data cfg =
     (if MAX_SERVER_BLOCKS \<le> length (cf_servers cfg) then Fail else server_lines data zero_block cfg)"

lemma server_lines_rest:
  "server_lines data block cfg = Parsed (rest, cfg') \<Longrightarrow> length rest < length data"
proof (induction "length data" arbitrary: data block cfg rule: less_induct)
  case less
  obtain raw r where f: "fgets 256 data = Some (raw, r)"
    using less.prems by (subst (asm) server_lines.simps) (auto split: option.splits)
  then have sh: "length r < length data" by (auto dest: fgets_shorter)
  show ?case
  proof (cases "\<not> ignored_line (config_line raw) \<and> hd (config_line raw) \<noteq> CHR ''}''
                \<and> starts_with (config_line raw) ''location''")
    case True
    then obtain r' c where l: "parse_location_directive (config_line raw) r cfg = Parsed (r', c)"
        "server_lines r' block c = Parsed (rest, cfg')"
      using less.prems f by (subst (asm) server_lines.simps) (auto simp: Let_def bind_parsed_iff)
    have "length r' < length data" using parse_location_rest [OF l(1)] sh by simp
    from less.hyps [OF this l(2)] this show ?thesis by simp
  next
    case False
    have "length rest \<le> length r"
      using less.prems f less.hyps [OF sh] False
      by (subst (asm) server_lines.simps) (force simp: Let_def split: if_splits option.splits)
    with sh show ?thesis by simp
  qed
qed

lemma parse_server_block_rest:
  "parse_server_block data cfg = Parsed (rest, cfg') \<Longrightarrow> length rest < length data"
  by (auto simp: parse_server_block_def split: if_splits dest: server_lines_rest)

subsection \<open>The file\<close>

definition opens_server :: "string \<Rightarrow> bool" where
  "opens_server text \<longleftrightarrow> text = ''server {'' \<or> starts_with text ''server{''"

function load_nginx_config :: "string \<Rightarrow> server_config \<Rightarrow> server_config parsed" where
  "load_nginx_config data cfg =
     (case fgets 256 data of
        None \<Rightarrow> Parsed cfg
      | Some (raw, rest) \<Rightarrow>
          let text = config_line raw
          in if ignored_line text then load_nginx_config rest cfg
             else if opens_server text then
               bind_parsed (parse_server_block rest cfg) (\<lambda>(rest, cfg). load_nginx_config rest cfg)
             else if starts_with text ''location'' then
               bind_parsed (parse_location_directive text rest cfg) (\<lambda>(rest, cfg). load_nginx_config rest cfg)
             else if hd text = CHR ''{'' \<or> hd text = CHR ''}'' then load_nginx_config rest cfg
             else case directive (strip_semicolon text) of
                 None \<Rightarrow> load_nginx_config rest cfg
               | Some (key, val) \<Rightarrow> load_nginx_config rest (parse_flat_line key val cfg))"
  by auto
termination
  by (relation "measure (\<lambda>(d, _). length d)")
     (auto dest!: fgets_shorter parse_location_rest parse_server_block_rest intro: less_trans)

declare load_nginx_config.simps [simp del]

fun has_server_blocks :: "string list \<Rightarrow> bool" where
  \<comment> \<open>over the lines that \<open>fgets\<close> reads\<close>
  "has_server_blocks [] = False"
| "has_server_blocks (raw # lines) =
     (opens_server (trim (config_remove_newline (trim (cstr raw)))) \<or> has_server_blocks lines)"

end
