(* ===== verification/Config_Json.thy ===== *)
theory Config_Json
  imports Config_Text
begin

text \<open>
  The JSON format of \<open>src/config.c\<close>: a parser that works on the text in place.  A pointer into the
  text is the string that it designates, up to the terminating NUL byte.
\<close>

abbreviation QUOTE :: char where "QUOTE \<equiv> CHR 0x22"
abbreviation BACKSLASH :: char where "BACKSLASH \<equiv> CHR 0x5C"

subsection \<open>Scanning\<close>

definition json_skip_ws :: "string \<Rightarrow> string" where
  "json_skip_ws p = dropWhile (\<lambda>c. c = SPC \<or> c = TAB \<or> c = LF \<or> c = CR) p"

definition json_escape :: "char \<Rightarrow> char" where
  "json_escape c = (if c = CHR ''n'' then LF else if c = CHR ''t'' then TAB else c)"

fun json_chars :: "nat \<Rightarrow> string \<Rightarrow> string \<times> string" where
  \<comment> \<open>the loop of \<open>json_get_string\<close> with room for \<open>n\<close> characters: what it copies and where it stops\<close>
  "json_chars 0 p = ([], p)"
| "json_chars (Suc n) [] = ([], [])"
| "json_chars (Suc n) [c] = (if c = QUOTE then ([], [c]) else ([c], []))"
| "json_chars (Suc n) (c # d # s) =
     (if c = QUOTE then ([], c # d # s)
      else if c = BACKSLASH then apfst ((#) (json_escape d)) (json_chars n s)
      else apfst ((#) c) (json_chars n (d # s)))"

definition json_get_string :: "string \<Rightarrow> nat \<Rightarrow> (string \<times> string) option" where
  \<comment> \<open>the destination and the pointer returned; \<open>None\<close> for NULL\<close>
  "json_get_string p dst_size =
     (case json_skip_ws p of
        c # s \<Rightarrow> if c \<noteq> QUOTE then None
                 else (let (t, r) = json_chars (dst_size - 1) s
                       in Some (t, if r \<noteq> [] \<and> hd r = QUOTE then tl r else r))
      | [] \<Rightarrow> None)"

fun skip_nested :: "char \<Rightarrow> char \<Rightarrow> nat \<Rightarrow> string \<Rightarrow> string" where
  \<comment> \<open>\<open>while (*p && d) { if (*p == open) d++; if (*p == close) d--; p++; }\<close>\<close>
  "skip_nested l r d [] = []"
| "skip_nested l r 0 (c # s) = c # s"
| "skip_nested l r (Suc d) (c # s) =
     skip_nested l r (if c = l then Suc (Suc d) else if c = r then d else Suc d) s"

definition json_skip_value :: "string \<Rightarrow> string" where
  "json_skip_value p =
     (case p of
        [] \<Rightarrow> []
      | c # s \<Rightarrow>
          if c = QUOTE then (case json_get_string p 256 of None \<Rightarrow> p | Some (_, r) \<Rightarrow> r)
          else if c = CHR ''{'' then skip_nested CHR ''{'' CHR ''}'' 1 s
          else if c = CHR ''['' then skip_nested CHR ''['' CHR '']'' 1 s
          else dropWhile (\<lambda>c. c \<noteq> CHR '','' \<and> c \<noteq> CHR ''}'' \<and> c \<noteq> LF) p)"

lemma json_skip_ws_le: "length (json_skip_ws p) \<le> length p"
  by (simp add: json_skip_ws_def length_dropWhile_le)

lemma json_chars_le: "length (snd (json_chars n p)) \<le> length p"
  by (induction n p rule: json_chars.induct) auto

lemma skip_nested_le: "length (skip_nested l r d p) \<le> length p"
  by (induction l r d p rule: skip_nested.induct) (auto intro: le_SucI)

lemma json_get_string_shorter: "json_get_string p n = Some (t, r) \<Longrightarrow> length r < length p"
  using json_skip_ws_le [of p] json_chars_le [of "n - 1" "tl (json_skip_ws p)"]
  by (auto simp: json_get_string_def Let_def split: list.splits if_splits prod.splits)

lemma json_skip_value_le: "length (json_skip_value p) \<le> length p"
proof (cases p)
  case (Cons c s)
  then show ?thesis
    using skip_nested_le [of "CHR ''{''" "CHR ''}''" 1 s] skip_nested_le [of "CHR ''[''" "CHR '']''" 1 s]
      length_dropWhile_le [of "\<lambda>c. c \<noteq> CHR '','' \<and> c \<noteq> CHR ''}'' \<and> c \<noteq> LF" p]
    by (auto simp: json_skip_value_def split: option.splits dest: json_get_string_shorter)
qed (simp add: json_skip_value_def)

function json_members :: "string \<Rightarrow> string \<Rightarrow> string option" where
  \<comment> \<open>the loop of \<open>json_find_key\<close>, inside the braces\<close>
  "json_members key p =
     (case json_skip_ws p of
        [] \<Rightarrow> None
      | c # s \<Rightarrow>
          if c = CHR ''}'' then None
          else if c = CHR '','' then json_members key s
          else case json_get_string (c # s) 128 of
              None \<Rightarrow> None
            | Some (k, r) \<Rightarrow>
                (case json_skip_ws r of
                   [] \<Rightarrow> None
                 | d # v \<Rightarrow>
                     if d \<noteq> CHR '':'' then None
                     else if k = key then Some (json_skip_ws v)
                     else json_members key (json_skip_value (json_skip_ws v))))"
  by pat_completeness auto
termination
proof (relation "measure (\<lambda>(_, p). length p)", goal_cases)
  case (2 key p c s)
  then show ?case using json_skip_ws_le [of p] by simp
next
  case (3 key p c s a k r d v)
  then show ?case
    using json_skip_ws_le [of p] json_skip_ws_le [of r] json_skip_ws_le [of v]
      json_get_string_shorter [of "c # s" 128 k r] json_skip_value_le [of "json_skip_ws v"]
    by simp
qed simp

declare json_members.simps [simp del]

definition json_find_key :: "string \<Rightarrow> string \<Rightarrow> string option" where
  "json_find_key p key =
     (case json_skip_ws p of
        [] \<Rightarrow> None
      | c # s \<Rightarrow> if c \<noteq> CHR ''{'' then None else json_members key s)"

subsection \<open>Values\<close>

definition json_get_int :: "string \<Rightarrow> int" where
  "json_get_int p =
     (let p = json_skip_ws p
      in if p \<noteq> [] \<and> hd p = QUOTE
         then (case json_get_string p 32 of None \<Rightarrow> 0 | Some (buf, _) \<Rightarrow> atoi buf)
         else atoi p)"

definition json_get_str :: "string \<Rightarrow> nat \<Rightarrow> string" where
  "json_get_str p dst_size =
     (let p = json_skip_ws p
      in if p \<noteq> [] \<and> hd p = QUOTE
         then (case json_get_string p dst_size of None \<Rightarrow> [] | Some (t, _) \<Rightarrow> t)
         else take (dst_size - 1)
                (takeWhile (\<lambda>c. c \<noteq> CHR '','' \<and> c \<noteq> CHR ''}'' \<and> c \<noteq> CHR '']'' \<and> c \<noteq> LF) p))"

function json_strings :: "nat \<Rightarrow> string \<Rightarrow> string list parsed" where
  \<comment> \<open>the loop of \<open>json_get_string_array\<close> with room for \<open>n\<close> strings; it goes on with the pointer
    that \<open>json_get_string\<close> returns, even when that is NULL\<close>
  "json_strings n p =
     (if p = [] \<or> n = 0 then Parsed []
      else case json_skip_ws p of
        [] \<Rightarrow> Crash
      | c # s \<Rightarrow>
          if c = CHR '']'' then Parsed []
          else if c = CHR '','' then json_strings n s
          else case json_get_string (c # s) 128 of
              None \<Rightarrow> Crash
            | Some (t, r) \<Rightarrow> bind_parsed (json_strings (n - 1) r) (\<lambda>ts. Parsed (t # ts)))"
  by pat_completeness auto
termination
proof (relation "measure (\<lambda>(_, p). length p)", goal_cases)
  case (2 n p c s)
  then show ?case using json_skip_ws_le [of p] by simp
next
  case (3 n p c s a t r)
  then show ?case using json_skip_ws_le [of p] json_get_string_shorter [of "c # s" 128 t r] by simp
qed simp

declare json_strings.simps [simp del]

definition json_get_string_array :: "string \<Rightarrow> nat \<Rightarrow> string list parsed" where
  "json_get_string_array p max_count =
     (case json_skip_ws p of
        [] \<Rightarrow> Parsed []
      | c # s \<Rightarrow> if c \<noteq> CHR ''['' then Parsed [] else json_strings max_count s)"

definition json_object :: "nat \<Rightarrow> string \<Rightarrow> string \<times> string" where
  \<comment> \<open>the object that begins here, cut to the buffer, and what follows it\<close>
  "json_object n p =
     (let rest = skip_nested CHR ''{'' CHR ''}'' 1 (tl p)
      in (take (n - 1) (take (length p - length rest) p), rest))"

lemma json_object_shorter: "p \<noteq> [] \<Longrightarrow> length (snd (json_object n p)) < length p"
  using skip_nested_le [of "CHR ''{''" "CHR ''}''" 1 "tl p"]
  by (cases p) (auto simp: json_object_def Let_def)

subsection \<open>Routes and servers\<close>

definition optional_str :: "string option \<Rightarrow> nat \<Rightarrow> string \<Rightarrow> string" where
  \<comment> \<open>\<open>if (v) json_get_str(v, field, n)\<close>\<close>
  "optional_str v n old = (case v of None \<Rightarrow> old | Some p \<Rightarrow> json_get_str p n)"

definition json_parse_route :: "string \<Rightarrow> route_table \<Rightarrow> route_table parsed" where
  "json_parse_route p rt =
     (case (json_find_key p ''method'', json_find_key p ''path'', json_find_key p ''handler'') of
        (Some m, Some q, Some n) \<Rightarrow>
          let meth = map toupper_c (json_get_str m 16);
              (path, mt) = path_match (json_get_str q 256);
              h = route_table_lookup_handler (json_get_str n 64)
          in if h = HANDLER_NONE then Fail
             else of_run (route_table_add rt meth path mt h
                    (optional_str (json_find_key p ''auth'') 64 []) (optional_str (json_find_key p ''role'') 32 []))
      | _ \<Rightarrow> Fail)"

function json_route_list :: "string \<Rightarrow> route_table \<Rightarrow> route_table parsed" where
  \<comment> \<open>the loop of \<open>json_parse_routes\<close>\<close>
  "json_route_list p rt =
     (case json_skip_ws p of
        [] \<Rightarrow> Parsed rt
      | c # s \<Rightarrow>
          if c = CHR '']'' then Parsed rt
          else if c = CHR ''{'' then
            (let (obj, rest) = json_object 1024 (c # s)
             in bind_parsed (json_parse_route obj rt) (json_route_list rest))
          else json_route_list s rt)"
  by pat_completeness auto
termination
proof (relation "measure (\<lambda>(p, _). length p)", goal_cases)
  case (2 p rt c s x obj rest rt')
  then have "rest = snd (json_object 1024 (c # s))" by (metis snd_conv)
  then show ?case using 2 json_skip_ws_le [of p] json_object_shorter [of "c # s" 1024] by simp
next
  case (3 p rt c s)
  then show ?case using json_skip_ws_le [of p] by simp
qed simp

declare json_route_list.simps [simp del]

definition json_parse_routes :: "string \<Rightarrow> route_table \<Rightarrow> route_table parsed" where
  "json_parse_routes p rt =
     (case json_skip_ws p of
        [] \<Rightarrow> Parsed rt
      | c # s \<Rightarrow> if c \<noteq> CHR ''['' then Parsed rt else json_route_list s rt)"

definition add_routes_of :: "string option \<Rightarrow> server_config \<Rightarrow> server_config parsed" where
  "add_routes_of v cfg =
     (case v of None \<Rightarrow> Parsed cfg | Some p \<Rightarrow> on_routes (json_parse_routes p) cfg)"

definition json_parse_server :: "string \<Rightarrow> server_config \<Rightarrow> server_config parsed" where
  "json_parse_server p cfg =
     (if MAX_SERVER_BLOCKS \<le> length (cf_servers cfg) then Fail
      else let sb = (case json_find_key p ''listen'' of
                       None \<Rightarrow> zero_block | Some v \<Rightarrow> parse_listen (json_get_str v 128) zero_block)
           in bind_parsed (case json_find_key p ''server_name'' of
                             None \<Rightarrow> Parsed [] | Some v \<Rightarrow> json_get_string_array v MAX_SERVER_NAMES) (\<lambda>names.
              let sb = sb\<lparr>sb_names := names, sb_root := optional_str (json_find_key p ''root'') 128 [],
                          sb_access_log := optional_str (json_find_key p ''access_log'') 128 []\<rparr>
              in bind_parsed (add_routes_of (json_find_key p ''routes'') cfg) (\<lambda>cfg.
                   Parsed (cfg\<lparr>cf_servers := cf_servers cfg @ [sb]\<rparr>))))"

function json_server_list :: "string \<Rightarrow> server_config \<Rightarrow> server_config parsed" where
  "json_server_list p cfg =
     (case json_skip_ws p of
        [] \<Rightarrow> Parsed cfg
      | c # s \<Rightarrow>
          if c = CHR '']'' then Parsed cfg
          else if c = CHR ''{'' then
            (let (obj, rest) = json_object 2048 (c # s)
             in bind_parsed (json_parse_server obj cfg) (json_server_list rest))
          else json_server_list s cfg)"
  by pat_completeness auto
termination
proof (relation "measure (\<lambda>(p, _). length p)", goal_cases)
  case (2 p cfg c s x obj rest cfg')
  then have "rest = snd (json_object 2048 (c # s))" by (metis snd_conv)
  then show ?case using 2 json_skip_ws_le [of p] json_object_shorter [of "c # s" 2048] by simp
next
  case (3 p cfg c s)
  then show ?case using json_skip_ws_le [of p] by simp
qed simp

declare json_server_list.simps [simp del]

definition json_servers :: "string option \<Rightarrow> server_config \<Rightarrow> server_config parsed" where
  "json_servers v cfg =
     (case v of
        None \<Rightarrow> Parsed cfg
      | Some p \<Rightarrow> (case json_skip_ws p of
                    [] \<Rightarrow> Parsed cfg
                  | c # s \<Rightarrow> if c = CHR ''['' then json_server_list s cfg else Parsed cfg))"

subsection \<open>The file\<close>

definition optional_int :: "string option \<Rightarrow> int \<Rightarrow> int" where
  "optional_int v old = (case v of None \<Rightarrow> old | Some p \<Rightarrow> json_get_int p)"

definition optional_level :: "string option \<Rightarrow> log_level \<Rightarrow> log_level" where
  "optional_level v old =
     (case v of
        None \<Rightarrow> old
      | Some p \<Rightarrow> (case level_of (json_get_str p 32) of None \<Rightarrow> old | Some l \<Rightarrow> l))"

definition json_flat_fields :: "string \<Rightarrow> server_config \<Rightarrow> server_config" where
  "json_flat_fields p cfg =
     (let k = json_find_key p
      in cfg\<lparr>cf_host := optional_str (k ''host'') 64 (cf_host cfg),
             cf_port := optional_int (k ''port'') (cf_port cfg),
             cf_www_root := optional_str (k ''www_root'') 128 (cf_www_root cfg),
             cf_user_file := optional_str (k ''user_file'') 128 (cf_user_file cfg),
             cf_system_log := optional_str (k ''system_log'') 128 (cf_system_log cfg),
             cf_access_log := optional_str (k ''access_log'') 128 (cf_access_log cfg),
             cf_log_level := optional_level (k ''log_level'') (cf_log_level cfg),
             cf_error_log := optional_str (k ''error_log'') 128 (cf_error_log cfg),
             cf_log_max_lines := optional_int (k ''log_max_lines'') (cf_log_max_lines cfg),
             cf_log_max_roll_files := optional_int (k ''log_max_roll_files'') (cf_log_max_roll_files cfg),
             cf_worker_processes := optional_int (k ''worker_processes'') (cf_worker_processes cfg),
             cf_worker_shutdown_timeout_ms :=
               optional_int (k ''worker_shutdown_timeout_ms'') (cf_worker_shutdown_timeout_ms cfg),
             cf_max_connections := optional_int (k ''max_connections'') (cf_max_connections cfg),
             cf_max_request_bytes := optional_int (k ''max_request_bytes'') (cf_max_request_bytes cfg)\<rparr>)"

definition json_logging :: "string option \<Rightarrow> server_config \<Rightarrow> server_config" where
  "json_logging v cfg =
     (case v of
        None \<Rightarrow> cfg
      | Some p \<Rightarrow>
          let k = json_find_key p
          in cfg\<lparr>cf_log_level := optional_level (k ''level'') (cf_log_level cfg),
                 cf_system_log := optional_str (k ''system_log'') 128
                   (optional_str (k ''file'') 128 (cf_system_log cfg)),
                 cf_access_log := optional_str (k ''access_log'') 128 (cf_access_log cfg)\<rparr>)"

definition load_json_config :: "string \<Rightarrow> server_config \<Rightarrow> server_config parsed" where
  "load_json_config raw cfg =
     (let cfg = json_logging (json_find_key raw ''logging'') (json_flat_fields raw cfg)
      in bind_parsed (add_routes_of (json_find_key raw ''routes'') cfg)
           (json_servers (json_find_key raw ''servers'')))"

end
