(* ===== verification/Config_Yaml.thy ===== *)
theory Config_Yaml
  imports Config_Json
begin

text \<open>
  The YAML format of \<open>src/config.c\<close>: a parser over the array of lines.  The pair of \<open>lines\<close> and
  \<open>*idx\<close> is the list of the lines from the current one on; each parser returns the lines that it
  leaves.
\<close>

subsection \<open>Lines\<close>

definition yaml_indent :: "string \<Rightarrow> nat" where
  "yaml_indent line = length (takeWhile (\<lambda>c. c = SPC) line)"

definition yaml_is_doc_marker :: "string \<Rightarrow> bool" where
  "yaml_is_doc_marker line \<longleftrightarrow> starts_with (skip_spaces line) ''---'' \<or> starts_with (skip_spaces line) ''--''"

definition yaml_get_value :: "string \<Rightarrow> nat \<Rightarrow> string" where
  "yaml_get_value line dst_size =
     (case strchr line CHR '':'' of
        None \<Rightarrow> []
      | Some colon \<Rightarrow>
          let p = skip_spaces (tl colon)
          in if p \<noteq> [] \<and> hd p = QUOTE then (case json_get_string p dst_size of None \<Rightarrow> [] | Some (t, _) \<Rightarrow> t)
             else if p \<noteq> [] \<and> hd p = CHR 0x27
               then take (dst_size - 1) (takeWhile (\<lambda>c. c \<noteq> CHR 0x27) (tl p))
             else rstrip (\<lambda>c. c = SPC)
                    (take (dst_size - 1) (takeWhile (\<lambda>c. c \<noteq> LF \<and> c \<noteq> CR \<and> c \<noteq> CHR ''#'') p)))"

definition yaml_is_list_item :: "string \<Rightarrow> nat \<Rightarrow> bool" where
  "yaml_is_list_item line indent \<longleftrightarrow>
     take indent line = replicate indent SPC \<and> starts_with (drop indent line) ''- ''"

definition yaml_is_key_at :: "string \<Rightarrow> nat \<Rightarrow> string \<Rightarrow> bool" where
  "yaml_is_key_at line indent key \<longleftrightarrow>
     take indent line = replicate indent SPC \<and> starts_with (drop indent line) (key @ '':'')"

definition is_item :: "string \<Rightarrow> bool" where
  \<comment> \<open>a dash and a blank behind the indentation\<close>
  "is_item line \<longleftrightarrow> starts_with (drop (yaml_indent line) line) ''- ''"

definition yaml_blank :: "string \<Rightarrow> bool" where
  "yaml_blank line \<longleftrightarrow> line = [] \<or> hd line = CHR ''#''"

definition yaml_content :: "string \<Rightarrow> string" where
  \<comment> \<open>without the indentation and the dash of a list item\<close>
  "yaml_content line = (let s = skip_spaces line in if starts_with s ''- '' then drop 2 s else s)"

definition yaml_parse_key_value :: "string \<Rightarrow> (string \<times> string) option" where
  "yaml_parse_key_value line =
     (if strchr (yaml_content line) CHR '':'' = None then None
      else Some (rstrip (\<lambda>c. c = SPC) (copy_text 64 (cut_at CHR '':'' (yaml_content line))),
                 yaml_get_value line 256))"

subsection \<open>Routes\<close>

record yaml_route =
  yr_method :: string
  yr_path :: string
  yr_handler :: string
  yr_realm :: string
  yr_role :: string

definition no_route :: yaml_route where
  "no_route = \<lparr>yr_method = [], yr_path = [], yr_handler = [], yr_realm = [], yr_role = []\<rparr>"

definition yaml_route_key :: "string \<Rightarrow> string option" where
  "yaml_route_key line =
     (let content = skip_spaces (yaml_content line)
      in if strchr content CHR '':'' = None then None
         else Some (rstrip (\<lambda>c. c = SPC) (copy_text 64 (cut_at CHR '':'' content))))"

definition yaml_route_line :: "string \<Rightarrow> yaml_route \<Rightarrow> yaml_route" where
  "yaml_route_line line r =
     (case yaml_route_key line of
        None \<Rightarrow> r
      | Some key \<Rightarrow>
          let val = yaml_get_value line 256
          in if key = ''method'' then r\<lparr>yr_method := map toupper_c (copy_text 16 val)\<rparr>
             else if key = ''path'' then r\<lparr>yr_path := copy_text 256 val\<rparr>
             else if key = ''handler'' then r\<lparr>yr_handler := copy_text 64 val\<rparr>
             else if key = ''auth'' then r\<lparr>yr_realm := copy_text 64 val\<rparr>
             else if key = ''role'' then r\<lparr>yr_role := copy_text 32 val\<rparr>
             else r)"

fun yaml_route_lines :: "nat \<Rightarrow> string list \<Rightarrow> yaml_route \<Rightarrow> yaml_route \<times> string list" where
  \<comment> \<open>the loop of \<open>yaml_parse_route_map\<close>: it ends at a line that is not indented more than the
    list, unless that line is a list item\<close>
  "yaml_route_lines list_indent [] r = (r, [])"
| "yaml_route_lines list_indent (l # ls) r =
     (if yaml_blank l then yaml_route_lines list_indent ls r
      else if yaml_indent l \<le> list_indent \<and> \<not> is_item l then (r, l # ls)
      else yaml_route_lines list_indent ls (yaml_route_line l r))"

definition yaml_add_route :: "yaml_route \<Rightarrow> route_table \<Rightarrow> route_table parsed" where
  "yaml_add_route r rt =
     (if yr_method r \<noteq> [] \<and> yr_path r \<noteq> [] \<and> yr_handler r \<noteq> []
      then (let (path, mt) = path_match (yr_path r); h = route_table_lookup_handler (yr_handler r)
            in if h = HANDLER_NONE then Fail
               else of_run (route_table_add rt (yr_method r) path mt h (yr_realm r) (yr_role r)))
      else Parsed rt)"

definition yaml_parse_route_map :: "string list \<Rightarrow> nat \<Rightarrow> route_table \<Rightarrow> (string list \<times> route_table) parsed" where
  "yaml_parse_route_map lines list_indent rt =
     (let (r, rest) = yaml_route_lines list_indent lines no_route
      in bind_parsed (yaml_add_route r rt) (\<lambda>rt. Parsed (rest, rt)))"

lemma yaml_route_lines_le: "length (snd (yaml_route_lines n ls r)) \<le> length ls"
  by (induction n ls r rule: yaml_route_lines.induct) (auto intro: le_SucI)

lemma list_item_indent:
  assumes "yaml_is_list_item l n"
  shows "yaml_indent l = n" and "is_item l" and "\<not> yaml_blank l"
proof -
  obtain s where l: "l = replicate n SPC @ ''- '' @ s"
    using assms unfolding yaml_is_list_item_def starts_with_prefix prefix_def by (metis append_take_drop_id)
  show i: "yaml_indent l = n" by (simp add: l yaml_indent_def takeWhile_append)
  show "is_item l" unfolding is_item_def i by (simp add: l starts_with_def)
  show "\<not> yaml_blank l" by (cases n) (simp_all add: l yaml_blank_def)
qed

lemma yaml_parse_route_map_rest:
  assumes "yaml_parse_route_map (l # ls) n rt = Parsed (rest, rt')" and "yaml_is_list_item l n"
  shows "length rest \<le> length ls"
  using assms(1) yaml_route_lines_le [of n ls "yaml_route_line l no_route"] list_item_indent [OF assms(2)]
  by (auto simp: yaml_parse_route_map_def bind_parsed_iff split: prod.splits)

function yaml_parse_routes :: "string list \<Rightarrow> nat \<Rightarrow> route_table \<Rightarrow> (string list \<times> route_table) parsed" where
  "yaml_parse_routes lines base_indent rt =
     (case lines of
        [] \<Rightarrow> Parsed ([], rt)
      | l # ls \<Rightarrow>
          if yaml_blank l \<or> yaml_is_doc_marker l then yaml_parse_routes ls base_indent rt
          else if yaml_indent l < base_indent then Parsed (l # ls, rt)
          else if yaml_indent l = base_indent \<and> \<not> yaml_is_list_item l (base_indent + 2) then Parsed (l # ls, rt)
          else if yaml_is_list_item l (base_indent + 2) then
            bind_parsed (yaml_parse_route_map (l # ls) (base_indent + 2) rt)
              (\<lambda>(rest, rt). yaml_parse_routes rest base_indent rt)
          else yaml_parse_routes ls base_indent rt)"
  by pat_completeness auto
termination
  by (relation "measure (\<lambda>(ls, _). length ls)") (auto dest!: yaml_parse_route_map_rest)

declare yaml_parse_routes.simps [simp del]

lemma yaml_parse_routes_rest:
  "yaml_parse_routes lines b rt = Parsed (rest, rt') \<Longrightarrow> length rest \<le> length lines"
proof (induction "length lines" arbitrary: lines rt rule: less_induct)
  case less
  show ?case
  proof (cases lines)
    case (Cons l ls)
    then have ih: "yaml_parse_routes ls b r = Parsed (rest, rt') \<Longrightarrow> length rest \<le> length ls" for r
      using less.hyps [of ls] by simp
    have ih': "length rest \<le> length rest'" if "yaml_parse_route_map (l # ls) (b + 2) rt = Parsed (rest', r')"
      "yaml_is_list_item l (b + 2)" "yaml_parse_routes rest' b r' = Parsed (rest, rt')" for rest' r'
      using less.hyps [of rest'] yaml_parse_route_map_rest [OF that(1,2)] that(3) Cons by simp
    show ?thesis
      using less.prems Cons ih yaml_parse_route_map_rest [of l ls "b + 2" rt] ih'
      by (subst (asm) yaml_parse_routes.simps)
         (fastforce simp: bind_parsed_iff split: if_splits intro: le_SucI le_trans)
  qed (use less.prems in \<open>simp add: yaml_parse_routes.simps\<close>)
qed

subsection \<open>Servers\<close>

fun yaml_parse_string_list :: "string list \<Rightarrow> nat \<Rightarrow> nat \<Rightarrow> string list \<times> string list" where
  \<comment> \<open>the entries, room for \<open>n\<close> of them, and the lines left\<close>
  "yaml_parse_string_list [] base_indent n = ([], [])"
| "yaml_parse_string_list (l # ls) base_indent n =
     (if yaml_blank l then yaml_parse_string_list ls base_indent n
      else if yaml_indent l \<le> base_indent then ([], l # ls)
      else if yaml_is_list_item l (base_indent + 2) \<and> 0 < n
        then apfst ((#) (yaml_get_value l 128)) (yaml_parse_string_list ls base_indent (n - 1))
      else yaml_parse_string_list ls base_indent n)"

lemma yaml_string_list_le: "length (snd (yaml_parse_string_list ls b n)) \<le> length ls"
  by (induction ls b n rule: yaml_parse_string_list.induct) (auto intro: le_SucI)

function yaml_server_lines ::
    "string list \<Rightarrow> nat \<Rightarrow> server_block \<Rightarrow> server_config \<Rightarrow> (string list \<times> server_block \<times> server_config) parsed" where
  "yaml_server_lines lines base_indent sb cfg =
     (case lines of
        [] \<Rightarrow> Parsed ([], sb, cfg)
      | l # ls \<Rightarrow>
          if yaml_blank l then yaml_server_lines ls base_indent sb cfg
          else if yaml_indent l < base_indent then Parsed (l # ls, sb, cfg)
          else if yaml_indent l = base_indent \<and> \<not> is_item l then Parsed (l # ls, sb, cfg)
          else case yaml_parse_key_value l of
              None \<Rightarrow> yaml_server_lines ls base_indent sb cfg
            | Some (key, val) \<Rightarrow>
                if key = ''listen'' then yaml_server_lines ls base_indent (parse_listen val sb) cfg
                else if key = ''server_name'' then
                  yaml_server_lines (snd (yaml_parse_string_list ls (yaml_indent l) MAX_SERVER_NAMES)) base_indent
                    (sb\<lparr>sb_names := fst (yaml_parse_string_list ls (yaml_indent l) MAX_SERVER_NAMES)\<rparr>) cfg
                else if key = ''root'' then
                  yaml_server_lines ls base_indent (sb\<lparr>sb_root := copy_text 128 val\<rparr>) cfg
                else if key = ''access_log'' then
                  yaml_server_lines ls base_indent (sb\<lparr>sb_access_log := copy_text 128 val\<rparr>) cfg
                else if key = ''routes'' then
                  (case cf_route_table cfg of
                     None \<Rightarrow> Crash
                   | Some rt \<Rightarrow>
                       bind_parsed (yaml_parse_routes ls (yaml_indent l) rt) (\<lambda>(rest, rt).
                         yaml_server_lines rest base_indent sb (cfg\<lparr>cf_route_table := Some rt\<rparr>)))
                else yaml_server_lines ls base_indent sb cfg)"
  by pat_completeness auto
termination
  by (relation "measure (\<lambda>(ls, _). length ls)")
     (auto dest!: yaml_parse_routes_rest intro: le_imp_less_Suc yaml_string_list_le)

declare yaml_server_lines.simps [simp del]

definition yaml_parse_server ::
    "string list \<Rightarrow> nat \<Rightarrow> server_config \<Rightarrow> (string list \<times> server_config) parsed" where
  "yaml_parse_server lines base_indent cfg =
     (if MAX_SERVER_BLOCKS \<le> length (cf_servers cfg) then Fail
      else bind_parsed (yaml_server_lines lines base_indent zero_block cfg) (\<lambda>(rest, sb, cfg).
             Parsed (rest, cfg\<lparr>cf_servers := cf_servers cfg @ [sb]\<rparr>)))"

lemma yaml_server_lines_rest:
  "yaml_server_lines lines b sb cfg = Parsed (rest, sb', cfg') \<Longrightarrow> length rest \<le> length lines"
proof (induction "length lines" arbitrary: lines sb cfg rule: less_induct)
  case less
  show ?case
  proof (cases lines)
    case (Cons l ls)
    then have ih: "length ls' \<le> length ls \<Longrightarrow> yaml_server_lines ls' b s c = Parsed (rest, sb', cfg')
        \<Longrightarrow> length rest \<le> Suc (length ls)" for ls' s c
      using less.hyps [of ls' s c] by simp
    note names = ih [OF yaml_string_list_le]
    note routes = ih [OF yaml_parse_routes_rest]
    show ?thesis
      using less.prems Cons ih [OF order_refl] names routes
      by (subst (asm) yaml_server_lines.simps)
         (auto simp: bind_parsed_iff split: if_splits option.splits)
  qed (use less.prems in \<open>simp add: yaml_server_lines.simps\<close>)
qed

lemma yaml_parse_server_rest:
  assumes "yaml_parse_server (l # ls) n cfg = Parsed (rest, cfg')" and "yaml_is_list_item l n"
  shows "length rest \<le> length ls"
proof -
  note it = list_item_indent [OF assms(2)]
  obtain sb c where s: "yaml_server_lines (l # ls) n zero_block cfg = Parsed (rest, sb, c)"
    using assms(1) by (auto simp: yaml_parse_server_def bind_parsed_iff split: if_splits)
  have le: "length rest \<le> length ls'" if "yaml_server_lines ls' n s' c' = Parsed (rest, sb, c)" for ls' s' c'
    using yaml_server_lines_rest [OF that] .
  show ?thesis
    using s it le le_trans [OF le yaml_string_list_le] le_trans [OF le yaml_parse_routes_rest]
    by (subst (asm) yaml_server_lines.simps) (auto simp: bind_parsed_iff split: if_splits option.splits)
qed

function yaml_server_list :: "string list \<Rightarrow> server_config \<Rightarrow> (string list \<times> server_config) parsed" where
  \<comment> \<open>the lines below \<open>servers:\<close>\<close>
  "yaml_server_list lines cfg =
     (case lines of
        [] \<Rightarrow> Parsed ([], cfg)
      | l # ls \<Rightarrow>
          if yaml_blank l then yaml_server_list ls cfg
          else if yaml_indent l = 0 then Parsed (l # ls, cfg)
          else if yaml_is_list_item l 2 then
            bind_parsed (yaml_parse_server (l # ls) 2 cfg) (\<lambda>(rest, cfg). yaml_server_list rest cfg)
          else yaml_server_list ls cfg)"
  by pat_completeness auto
termination
  by (relation "measure (\<lambda>(ls, _). length ls)") (auto dest!: yaml_parse_server_rest)

declare yaml_server_list.simps [simp del]

lemma yaml_server_list_rest:
  "yaml_server_list lines cfg = Parsed (rest, cfg') \<Longrightarrow> length rest \<le> length lines"
proof (induction "length lines" arbitrary: lines cfg rule: less_induct)
  case less
  show ?case
  proof (cases lines)
    case (Cons l ls)
    then have ih: "length ls' \<le> length ls \<Longrightarrow> yaml_server_list ls' c = Parsed (rest, cfg')
        \<Longrightarrow> length rest \<le> Suc (length ls)" for ls' c
      using less.hyps [of ls' c] by simp
    note servers = ih [OF yaml_parse_server_rest]
    show ?thesis
      using less.prems Cons ih [OF order_refl] servers
      by (subst (asm) yaml_server_list.simps) (auto simp: bind_parsed_iff split: if_splits)
  qed (use less.prems in \<open>simp add: yaml_server_list.simps\<close>)
qed

subsection \<open>The file\<close>

definition set_level :: "string \<Rightarrow> server_config \<Rightarrow> server_config" where
  "set_level s cfg = (case level_of s of None \<Rightarrow> cfg | Some l \<Rightarrow> cfg\<lparr>cf_log_level := l\<rparr>)"

fun yaml_logging :: "string list \<Rightarrow> server_config \<Rightarrow> string list \<times> server_config" where
  "yaml_logging [] cfg = ([], cfg)"
| "yaml_logging (l # ls) cfg =
     (if yaml_blank l then yaml_logging ls cfg
      else if yaml_indent l \<le> 2 then (l # ls, cfg)
      else yaml_logging ls
        (if yaml_is_key_at l 4 ''level'' then set_level (yaml_get_value l 32) cfg
         else if yaml_is_key_at l 4 ''file'' \<or> yaml_is_key_at l 4 ''system_log''
           then cfg\<lparr>cf_system_log := copy_text 128 (yaml_get_value l 128)\<rparr>
         else if yaml_is_key_at l 4 ''access_log''
           then cfg\<lparr>cf_access_log := copy_text 128 (yaml_get_value l 128)\<rparr>
         else cfg))"

lemma yaml_logging_le: "length (fst (yaml_logging ls cfg)) \<le> length ls"
  by (induction ls arbitrary: cfg) (auto intro: le_SucI)

definition yaml_flat_line :: "string \<Rightarrow> string \<Rightarrow> server_config \<Rightarrow> server_config" where
  "yaml_flat_line key l cfg =
     (let text = (\<lambda>n. copy_text n (yaml_get_value l 128)); num = atoi (yaml_get_value l 32)
      in if key = ''host'' then cfg\<lparr>cf_host := text 64\<rparr>
         else if key = ''port'' then cfg\<lparr>cf_port := num\<rparr>
         else if key = ''www_root'' then cfg\<lparr>cf_www_root := text 128\<rparr>
         else if key = ''user_file'' then cfg\<lparr>cf_user_file := text 128\<rparr>
         else if key = ''system_log'' then cfg\<lparr>cf_system_log := text 128\<rparr>
         else if key = ''access_log'' then cfg\<lparr>cf_access_log := text 128\<rparr>
         else if key = ''log_level'' then set_level (yaml_get_value l 32) cfg
         else if key = ''error_log'' then cfg\<lparr>cf_error_log := text 128\<rparr>
         else if key = ''log_max_lines'' then cfg\<lparr>cf_log_max_lines := num\<rparr>
         else if key = ''log_max_roll_files'' then cfg\<lparr>cf_log_max_roll_files := num\<rparr>
         else if key = ''worker_processes'' then cfg\<lparr>cf_worker_processes := num\<rparr>
         else if key = ''worker_shutdown_timeout_ms'' then cfg\<lparr>cf_worker_shutdown_timeout_ms := num\<rparr>
         else if key = ''max_connections'' then cfg\<lparr>cf_max_connections := num\<rparr>
         else if key = ''max_request_bytes'' then cfg\<lparr>cf_max_request_bytes := num\<rparr>
         else cfg)"

function load_yaml_config :: "string list \<Rightarrow> server_config \<Rightarrow> server_config parsed" where
  "load_yaml_config lines cfg =
     (case lines of
        [] \<Rightarrow> Parsed cfg
      | l # ls \<Rightarrow>
          if yaml_blank l \<or> yaml_is_doc_marker l then load_yaml_config ls cfg
          else if yaml_indent l \<noteq> 0 \<or> strchr l CHR '':'' = None then load_yaml_config ls cfg
          else let key = copy_text 64 (cut_at CHR '':'' l)
               in if key = ''logging'' then
                    load_yaml_config (fst (yaml_logging ls cfg)) (snd (yaml_logging ls cfg))
                  else if key = ''routes'' then
                    (case cf_route_table cfg of
                       None \<Rightarrow> Crash
                     | Some rt \<Rightarrow>
                         bind_parsed (yaml_parse_routes ls 0 rt) (\<lambda>(rest, rt).
                           load_yaml_config rest (cfg\<lparr>cf_route_table := Some rt\<rparr>)))
                  else if key = ''servers'' then
                    bind_parsed (yaml_server_list ls cfg) (\<lambda>(rest, cfg). load_yaml_config rest cfg)
                  else load_yaml_config ls (yaml_flat_line key l cfg))"
  by pat_completeness auto
termination
  by (relation "measure (\<lambda>(ls, _). length ls)")
     (auto dest!: yaml_parse_routes_rest yaml_server_list_rest simp: case_prod_unfold
       intro: le_imp_less_Suc yaml_logging_le)

declare load_yaml_config.simps [simp del]

end
