(* ===== verification/Config_Load.thy ===== *)
theory Config_Load
  imports Config_Nginx Config_Yaml
begin

text \<open>
  \<open>load_config\<close> of \<open>src/config.c\<close>: the format of a file, its parser, the defaults and the final
  checks; and the listing of \<open>print_config\<close>.
\<close>

subsection \<open>Format detection\<close>

datatype config_format = FMT_NGINX | FMT_JSON | FMT_YAML

record evidence =
  ed_brace :: bool
  ed_colon :: bool
  ed_assign :: bool

definition has_assign :: "string \<Rightarrow> bool" where
  \<comment> \<open>a blank with a value behind it, on a line without a colon or a brace\<close>
  "has_assign t \<longleftrightarrow>
     (case strchr t SPC of
        None \<Rightarrow> False
      | Some sp \<Rightarrow>
          CHR '':'' \<notin> set t \<and> CHR ''{'' \<notin> set t \<and> CHR ''}'' \<notin> set t
          \<and> (case skip_blanks sp of [] \<Rightarrow> False | c # _ \<Rightarrow> c \<noteq> LF \<and> c \<noteq> CR \<and> c \<noteq> CHR ''#''))"

definition gather :: "string \<Rightarrow> evidence \<Rightarrow> evidence" where
  "gather t ev = \<lparr>ed_brace = ed_brace ev \<or> CHR ''{'' \<in> set t \<or> CHR ''}'' \<in> set t,
                  ed_colon = ed_colon ev \<or> (CHR '':'' \<in> set t \<and> hd t \<noteq> CHR ''}''),
                  ed_assign = ed_assign ev \<or> has_assign t\<rparr>"

definition decide_format :: "evidence \<Rightarrow> config_format" where
  "decide_format ev =
     (if ed_assign ev then FMT_NGINX
      else if ed_brace ev \<and> \<not> ed_colon ev then FMT_JSON
      else if ed_brace ev then FMT_JSON
      else if ed_colon ev \<and> \<not> ed_brace ev \<and> \<not> ed_assign ev then FMT_YAML
      else FMT_NGINX)"

function detect_lines :: "string \<Rightarrow> nat \<Rightarrow> evidence \<Rightarrow> config_format" where
  "detect_lines data line_count ev =
     (case fgets 256 data of
        None \<Rightarrow> decide_format ev
      | Some (raw, rest) \<Rightarrow>
          if 50 \<le> line_count then decide_format ev
          else let t = skip_blanks (cstr raw)
               in if t = [] \<or> hd t = CHR ''#'' \<or> hd t = LF \<or> hd t = CR then detect_lines rest (line_count + 1) ev
                  else if starts_with t ''server'' \<and> CHR ''{'' \<in> set t then FMT_NGINX
                  else if starts_with t ''location'' then FMT_NGINX
                  else if starts_with t ''---'' then FMT_YAML
                  else detect_lines rest (line_count + 1) (gather t ev))"
  by auto
termination
  by (relation "measure (\<lambda>(d, _). length d)") (auto dest: fgets_shorter)

declare detect_lines.simps [simp del]

definition detect_config_format :: "string \<Rightarrow> config_format" where
  "detect_config_format data = detect_lines data 0 \<lparr>ed_brace = False, ed_colon = False, ed_assign = False\<rparr>"

subsection \<open>Defaults\<close>

definition or_text :: "string \<Rightarrow> nat \<Rightarrow> string \<Rightarrow> string" where
  \<comment> \<open>\<open>if (field[0] == 0) copy_text(field, n, other)\<close>\<close>
  "or_text old n other = (if old = [] then copy_text n other else old)"

definition or_int :: "int \<Rightarrow> int \<Rightarrow> int" where
  "or_int old other = (if old \<le> 0 then other else old)"

definition legacy_from_blocks :: "server_config \<Rightarrow> server_config" where
  "legacy_from_blocks cfg =
     (case cf_servers cfg of
        [] \<Rightarrow> cfg
      | sb # _ \<Rightarrow>
          let cfg = cfg\<lparr>cf_host := or_text (cf_host cfg) 64 (sb_host sb),
                        cf_port := or_int (cf_port cfg) (sb_port sb),
                        cf_www_root := or_text (cf_www_root cfg) 128 (sb_root sb),
                        cf_server_name := (if sb_names sb = [] then cf_server_name cfg
                                           else or_text (cf_server_name cfg) 64 (hd (sb_names sb)))\<rparr>
          in cfg\<lparr>cf_servers := map (\<lambda>sb. sb\<lparr>sb_port := or_int (sb_port sb) (cf_port cfg),
                                              sb_host := or_text (sb_host sb) 64 (cf_host cfg)\<rparr>) (cf_servers cfg)\<rparr>)"

definition cross_copy :: "server_config \<Rightarrow> server_config" where
  \<comment> \<open>the old and the new names of two fields; copying an empty text changes nothing\<close>
  "cross_copy cfg =
     (let cfg = cfg\<lparr>cf_www_root := or_text (cf_www_root cfg) 128 (cf_root cfg)\<rparr>;
          cfg = cfg\<lparr>cf_root := or_text (cf_root cfg) 128 (cf_www_root cfg)\<rparr>;
          cfg = cfg\<lparr>cf_user_file := or_text (cf_user_file cfg) 128 (cf_data_path cfg)\<rparr>
      in cfg\<lparr>cf_data_path := or_text (cf_data_path cfg) 128 (cf_user_file cfg)\<rparr>)"

definition apply_defaults :: "server_config \<Rightarrow> server_config" where
  \<comment> \<open>the tests of the two levels never succeed: every value of the type is within their range\<close>
  "apply_defaults cfg =
     cfg\<lparr>cf_max_connections := or_int (cf_max_connections cfg) 256,
         cf_max_request_bytes := or_int (cf_max_request_bytes cfg) 4096,
         cf_worker_processes := or_int (cf_worker_processes cfg) 2,
         cf_worker_shutdown_timeout_ms := or_int (cf_worker_shutdown_timeout_ms cfg) 3000,
         cf_log_max_lines := or_int (cf_log_max_lines cfg) 10000,
         cf_log_max_roll_files := or_int (cf_log_max_roll_files cfg) 5,
         cf_system_log := or_text (cf_system_log cfg) 128 (cf_log_path cfg),
         cf_access_log := or_text (cf_access_log cfg) 128 (cf_log_path cfg)\<rparr>"

definition config_post_process :: "server_config \<Rightarrow> server_config" where
  "config_post_process cfg = apply_defaults (cross_copy (legacy_from_blocks cfg))"

subsection \<open>Loading\<close>

definition zero_config :: server_config where
  \<comment> \<open>\<open>memset(config, 0, sizeof(*config))\<close> and an empty route table\<close>
  "zero_config = \<lparr>cf_server_name = [], cf_host = [], cf_port = 0, cf_www_root = [], cf_user_file = [],
     cf_log_path = [], cf_system_log = [], cf_access_log = [], cf_auth_user_file = [], cf_log_level = LOG_DEBUG,
     cf_error_log = [], cf_error_log_level = LOG_DEBUG, cf_log_max_lines = 0, cf_log_max_roll_files = 0,
     cf_max_connections = 0, cf_max_request_bytes = 0, cf_worker_processes = 0,
     cf_worker_shutdown_timeout_ms = 0, cf_servers = [], cf_route_table = Some route_table_init,
     cf_root = [], cf_data_path = []\<rparr>"

definition drop_line_end :: "string \<Rightarrow> string" where
  "drop_line_end l =
     (let l = (if l \<noteq> [] \<and> (last l = LF \<or> last l = CR) then butlast l else l)
      in if l \<noteq> [] \<and> last l = CR then butlast l else l)"

function yaml_file_lines :: "string \<Rightarrow> nat \<Rightarrow> string list" where
  \<comment> \<open>the lines read into \<open>yaml_lines\<close>, room for \<open>n\<close> more\<close>
  "yaml_file_lines data n =
     (case fgets 512 data of
        None \<Rightarrow> []
      | Some (raw, rest) \<Rightarrow> if n = 0 then [] else drop_line_end (cstr raw) # yaml_file_lines rest (n - 1))"
  by auto
termination
  by (relation "measure (\<lambda>(d, _). length d)") (auto dest: fgets_shorter)

declare yaml_file_lines.simps [simp del]

definition parse_config :: "string \<Rightarrow> server_config parsed" where
  \<comment> \<open>the parser for the format of the file\<close>
  "parse_config data =
     (case detect_config_format data of
        FMT_JSON \<Rightarrow> if data = [] \<or> length data > 10 * 1024 * 1024 then Fail
                     else load_json_config (cstr data) zero_config
      | FMT_YAML \<Rightarrow> load_yaml_config (yaml_file_lines data 500) zero_config
      | FMT_NGINX \<Rightarrow> load_nginx_config data zero_config)"

definition valid_routes :: "server_config \<Rightarrow> bool" where
  "valid_routes cfg =
     (case cf_route_table cfg of
        None \<Rightarrow> True
      | Some rt \<Rightarrow> if length (rt_exact rt) + length (rt_prefix rt) > 0 then route_table_validate rt = 0 else True)"

definition check_required :: "server_config \<Rightarrow> server_config parsed" where
  "check_required cfg =
     (if cf_host cfg = [] \<or> cf_port cfg \<le> 0 \<or> cf_www_root cfg = [] \<or> cf_user_file cfg = []
      then (let cfg = (if cf_servers cfg \<noteq> [] \<and> cf_log_path cfg = []
                       then cfg\<lparr>cf_log_path := ''logs/server.log''\<rparr> else cfg)
            in if cf_log_path cfg = [] then Fail
               else if cf_servers cfg \<noteq> [] then Parsed cfg else Fail)
      else Parsed cfg)"

definition load_config :: "string option \<Rightarrow> server_config parsed" where
  \<comment> \<open>the content of the file, \<open>None\<close> when it cannot be opened\<close>
  "load_config file =
     (case file of
        None \<Rightarrow> Fail
      | Some data \<Rightarrow>
          bind_parsed (parse_config data) (\<lambda>cfg.
            let cfg = config_post_process cfg
            in if valid_routes cfg then check_required cfg else Fail))"

subsection \<open>Printing\<close>

definition setting :: "string \<Rightarrow> string \<Rightarrow> string" where
  "setting name val = name @ ''='' @ val @ [LF]"

definition level_number :: "log_level \<Rightarrow> int" where
  "level_number l =
     (case l of LOG_DEBUG \<Rightarrow> 0 | LOG_INFO \<Rightarrow> 1 | LOG_WARNING \<Rightarrow> 2 | LOG_ERROR \<Rightarrow> 3 | LOG_NONE \<Rightarrow> 4)"

fun commas :: "string list \<Rightarrow> string" where
  "commas [] = []"
| "commas (n # ns) = n @ concat (map (\<lambda>n. '', '' @ n) ns)"

definition print_block :: "nat \<Rightarrow> server_block \<Rightarrow> string" where
  "print_block i sb =
     ''server['' @ dec_nat i @ '']:'' @ [LF]
     @ ''  listen='' @ sb_host sb @ '':'' @ dec_int (sb_port sb)
     @ (if sb_default sb then '' (default_server)'' else []) @ [LF]
     @ setting ''  root'' (sb_root sb)
     @ setting ''  access_log'' (if sb_access_log sb = [] then ''(global)'' else sb_access_log sb)
     @ ''  server_names=['' @ commas (sb_names sb) @ '']'' @ [LF]"

definition print_config :: "server_config \<Rightarrow> string" where
  "print_config cfg =
     setting ''server_name'' (cf_server_name cfg) @ setting ''host'' (cf_host cfg)
     @ setting ''port'' (dec_int (cf_port cfg)) @ setting ''www_root'' (cf_www_root cfg)
     @ setting ''user_file'' (cf_user_file cfg) @ setting ''log'' (cf_log_path cfg)
     @ setting ''system_log'' (cf_system_log cfg) @ setting ''access_log'' (cf_access_log cfg)
     @ setting ''max_connections'' (dec_int (cf_max_connections cfg))
     @ setting ''max_request_bytes'' (dec_int (cf_max_request_bytes cfg))
     @ setting ''worker_processes'' (dec_int (cf_worker_processes cfg))
     @ setting ''worker_shutdown_timeout_ms'' (dec_int (cf_worker_shutdown_timeout_ms cfg))
     @ setting ''log_max_lines'' (dec_int (cf_log_max_lines cfg))
     @ setting ''log_max_roll_files'' (dec_int (cf_log_max_roll_files cfg))
     @ setting ''log_level'' (dec_int (level_number (cf_log_level cfg)))
     @ setting ''error_log'' (cf_error_log cfg @ '' (level='' @ dec_int (level_number (cf_error_log_level cfg)) @ '')'')
     @ setting ''server_count'' (dec_nat (length (cf_servers cfg)))
     @ setting ''route_count'' (dec_nat (case cf_route_table cfg of
         None \<Rightarrow> 0 | Some rt \<Rightarrow> length (rt_exact rt) + length (rt_prefix rt)))
     @ concat (map (\<lambda>i. print_block i (cf_servers cfg ! i)) [0..<length (cf_servers cfg)])"

end
