(* ===== verification/Config_Correct.thy ===== *)
theory Config_Correct
  imports Config_Load
begin

text \<open>
  What a loaded configuration satisfies, whatever the file: the parsers of all three formats end,
  never write past a field or past the arrays of blocks and names, keep the route table well formed,
  and leave only blocks with an address and a port; loading adds the defaults and the validation.
\<close>

subsection \<open>Results that satisfy a predicate\<close>

definition result_ok :: "('a \<Rightarrow> bool) \<Rightarrow> 'a parsed \<Rightarrow> bool" where
  \<comment> \<open>the parser returned, and a result satisfies the predicate\<close>
  "result_ok P r \<longleftrightarrow> (case r of Stuck \<Rightarrow> False | Parsed a \<Rightarrow> P a | _ \<Rightarrow> True)"

lemma result_ok_simps [simp]:
  "result_ok P (Parsed a) \<longleftrightarrow> P a" "result_ok P Fail" "result_ok P Crash" "\<not> result_ok P Stuck"
  by (simp_all add: result_ok_def)

lemma result_ok_bind:
  "result_ok P m \<Longrightarrow> (\<And>a. m = Parsed a \<Longrightarrow> P a \<Longrightarrow> result_ok Q (f a)) \<Longrightarrow> result_ok Q (bind_parsed m f)"
  by (cases m) auto

lemma result_okD: "result_ok P m \<Longrightarrow> m = Parsed a \<Longrightarrow> P a"
  by simp

subsection \<open>Well-formed blocks and configurations\<close>

definition block_wf :: "server_block \<Rightarrow> bool" where
  "block_wf sb \<longleftrightarrow> sb_host sb \<noteq> [] \<and> length (sb_host sb) < 64 \<and> 0 < sb_port sb
     \<and> length (sb_root sb) < 128 \<and> length (sb_access_log sb) < 128
     \<and> length (sb_names sb) \<le> MAX_SERVER_NAMES \<and> (\<forall>n\<in>set (sb_names sb). length n < MAX_SERVER_NAME_LEN)"

definition texts_fit :: "server_config \<Rightarrow> bool" where
  "texts_fit cfg \<longleftrightarrow> length (cf_server_name cfg) < 64 \<and> length (cf_host cfg) < 64
     \<and> (\<forall>t\<in>{cf_www_root cfg, cf_user_file cfg, cf_log_path cfg, cf_system_log cfg, cf_access_log cfg,
            cf_auth_user_file cfg, cf_error_log cfg, cf_root cfg, cf_data_path cfg}. length t < 128)"

definition cfg_wf :: "server_config \<Rightarrow> bool" where
  "cfg_wf cfg \<longleftrightarrow> texts_fit cfg \<and> length (cf_servers cfg) \<le> MAX_SERVER_BLOCKS
     \<and> (\<forall>sb\<in>set (cf_servers cfg). block_wf sb)
     \<and> (\<exists>rt. cf_route_table cfg = Some rt \<and> rt_wf rt)"

lemma cfg_wf_zero: "cfg_wf zero_config"
  by (simp add: cfg_wf_def texts_fit_def zero_config_def rt_wf_init)

lemma block_wf_zero: "block_wf zero_block"
  by (simp add: block_wf_def zero_block_def)

lemma copy_text_fits [simp]: "0 < n \<Longrightarrow> length (copy_text n s) < n"
  by (rule copy_text_length)

lemma parse_listen_wf: "block_wf sb \<Longrightarrow> block_wf (parse_listen val sb)"
  by (auto simp: block_wf_def parse_listen_def Let_def split: prod.splits option.splits)

lemma cfg_wf_append:
  "cfg_wf cfg \<Longrightarrow> length (cf_servers cfg) < MAX_SERVER_BLOCKS \<Longrightarrow> block_wf sb
    \<Longrightarrow> cfg_wf (cfg\<lparr>cf_servers := cf_servers cfg @ [sb]\<rparr>)"
  by (auto simp: cfg_wf_def texts_fit_def)

lemma cfg_wf_routes: "cfg_wf cfg \<Longrightarrow> rt_wf rt \<Longrightarrow> cfg_wf (cfg\<lparr>cf_route_table := Some rt\<rparr>)"
  by (auto simp: cfg_wf_def texts_fit_def)

lemma route_table_add_ok: "rt_wf rt \<Longrightarrow> result_ok rt_wf (of_run (route_table_add rt meth path mt h realm role))"
  using rt_wf_add [of rt meth path mt h realm role] by (auto simp: of_run_def split: option.splits)

lemma add_methods_ok: "rt_wf rt \<Longrightarrow> result_ok rt_wf (add_methods ms path mt h realm role rt)"
proof (induction ms arbitrary: rt)
  case (Cons m ms)
  show ?case unfolding add_methods.simps by (rule result_ok_bind [OF route_table_add_ok [OF Cons.prems] Cons.IH])
qed simp

definition grows :: "server_config \<Rightarrow> server_config \<Rightarrow> bool" where
  \<comment> \<open>well formed, with as many blocks as before\<close>
  "grows cfg cfg' \<longleftrightarrow> cfg_wf cfg' \<and> length (cf_servers cfg') = length (cf_servers cfg)"

lemma on_routes_ok:
  assumes "cfg_wf cfg" and "\<And>rt. rt_wf rt \<Longrightarrow> result_ok rt_wf (f rt)"
  shows "result_ok (grows cfg) (on_routes f cfg)"
proof -
  obtain rt where rt: "cf_route_table cfg = Some rt" "rt_wf rt" using assms(1) by (auto simp: cfg_wf_def)
  show ?thesis
    unfolding on_routes_def rt(1) option.case
    by (rule result_ok_bind [OF assms(2) [OF rt(2)]]) (simp add: cfg_wf_routes [OF assms(1)] grows_def)
qed

subsection \<open>The nginx format\<close>

lemma parse_flat_line_wf:
  assumes "cfg_wf cfg"
  shows "cfg_wf (parse_flat_line key val cfg)"
proof -
  have e: "texts_fit (set_error_log val cfg)" "cf_servers (set_error_log val cfg) = cf_servers cfg"
    "cf_route_table (set_error_log val cfg) = cf_route_table cfg"
    using assms by (simp_all add: set_error_log_def cfg_wf_def texts_fit_def split: option.splits prod.splits)
  then have "cfg_wf (set_error_log val cfg)" using assms by (simp add: cfg_wf_def)
  moreover have "texts_fit cfg" using assms by (simp add: cfg_wf_def)
  ultimately show ?thesis using assms by (simp add: parse_flat_line_def cfg_wf_def texts_fit_def)
qed

lemma location_lines_ok:
  "cfg_wf cfg \<Longrightarrow> result_ok (\<lambda>(rest, c). grows cfg c) (location_lines data path mt lc cfg)"
proof (induction "length data" arbitrary: data lc rule: less_induct)
  case less
  show ?case
  proof (cases "fgets 256 data")
    case None
    then show ?thesis by (subst location_lines.simps) simp
  next
    case (Some p)
    then obtain raw r where f: "fgets 256 data = Some (raw, r)" by (cases p) auto
    then have "length r < length data" by (auto dest: fgets_shorter)
    note ih = less.hyps [OF this less.prems]
    have "result_ok rt_wf (close_location path mt lc rt)" if "rt_wf rt" for rt
      using that add_methods_ok by (auto simp: close_location_def Let_def split: option.splits)
    from on_routes_ok [OF less.prems this]
    have close: "result_ok (\<lambda>(rest, c). grows cfg c) (bind_parsed (on_routes (close_location path mt lc) cfg) (\<lambda>cfg. Parsed (r, cfg)))"
      by (rule result_ok_bind) simp_all
    show ?thesis by (subst location_lines.simps) (simp add: f Let_def ih close)
  qed
qed

lemma parse_location_ok:
  "cfg_wf cfg \<Longrightarrow> result_ok (\<lambda>(rest, c). grows cfg c) (parse_location_directive line data cfg)"
  using location_lines_ok by (simp add: parse_location_directive_def split: option.splits prod.splits)

lemma block_wf_update:
  assumes "block_wf sb"
  shows "block_wf (sb\<lparr>sb_root := copy_text 128 s\<rparr>)" and "block_wf (sb\<lparr>sb_access_log := copy_text 128 s\<rparr>)"
    and "length ns \<le> MAX_SERVER_NAMES \<Longrightarrow> (\<And>n. n \<in> set ns \<Longrightarrow> length n < MAX_SERVER_NAME_LEN)
      \<Longrightarrow> block_wf (sb\<lparr>sb_names := ns\<rparr>)"
  using assms by (simp_all add: block_wf_def)

lemma parse_server_name_wf: "block_wf sb \<Longrightarrow> block_wf (parse_server_name val sb)"
  unfolding parse_server_name_def by (rule block_wf_update(3)) auto

lemma parse_block_directive_wf: "block_wf sb \<Longrightarrow> block_wf (parse_block_directive key val sb)"
  by (simp add: parse_block_directive_def parse_listen_wf parse_server_name_wf block_wf_update(1,2))

lemma server_lines_ok:
  "cfg_wf cfg \<Longrightarrow> length (cf_servers cfg) < MAX_SERVER_BLOCKS \<Longrightarrow> block_wf sb
    \<Longrightarrow> result_ok (\<lambda>(rest, c). cfg_wf c) (server_lines data sb cfg)"
proof (induction "length data" arbitrary: data sb cfg rule: less_induct)
  case less
  show ?case
  proof (cases "fgets 256 data")
    case None
    then show ?thesis by (subst server_lines.simps) simp
  next
    case (Some p)
    then obtain raw r where f: "fgets 256 data = Some (raw, r)" by (cases p) auto
    then have sh: "length r < length data" by (auto dest: fgets_shorter)
    have ih: "result_ok (\<lambda>(rest, c). cfg_wf c) (server_lines r' sb' c)"
      if "length r' \<le> length r" "grows cfg c" "block_wf sb'" for r' sb' c
      using less.hyps [of r' c sb'] sh that less.prems(2) by (simp add: grows_def)
    have self: "grows cfg cfg" using less.prems by (simp add: grows_def)
    have loc: "result_ok (\<lambda>(rest, c). cfg_wf c)
        (bind_parsed (parse_location_directive t r cfg) (\<lambda>(rest, cfg). server_lines rest sb cfg))" for t
      by (rule result_ok_bind [OF parse_location_ok [OF less.prems(1)]])
         (use ih less.prems(3) in \<open>auto dest!: parse_location_rest\<close>)
    show ?thesis
      by (subst server_lines.simps)
         (simp add: f Let_def ih self loc less.prems parse_block_directive_wf cfg_wf_append
           split: option.splits prod.splits)
  qed
qed

lemma parse_server_block_ok: "cfg_wf cfg \<Longrightarrow> result_ok (\<lambda>(rest, c). cfg_wf c) (parse_server_block data cfg)"
  using server_lines_ok [OF _ _ block_wf_zero] by (simp add: parse_server_block_def)

lemma load_nginx_ok: "cfg_wf cfg \<Longrightarrow> result_ok cfg_wf (load_nginx_config data cfg)"
proof (induction "length data" arbitrary: data cfg rule: less_induct)
  case less
  show ?case
  proof (cases "fgets 256 data")
    case None
    then show ?thesis by (subst load_nginx_config.simps) (simp add: less.prems)
  next
    case (Some p)
    then obtain raw r where f: "fgets 256 data = Some (raw, r)" by (cases p) auto
    then have sh: "length r < length data" by (auto dest: fgets_shorter)
    have ih: "result_ok cfg_wf (load_nginx_config r' c)" if "length r' \<le> length r" "cfg_wf c" for r' c
      using less.hyps [of r' c] sh that by simp
    have loc: "result_ok cfg_wf (bind_parsed (parse_location_directive t r cfg) (\<lambda>(rest, cfg). load_nginx_config rest cfg))" for t
      by (rule result_ok_bind [OF parse_location_ok [OF less.prems]])
         (use ih in \<open>auto simp: grows_def dest!: parse_location_rest\<close>)
    have srv: "result_ok cfg_wf (bind_parsed (parse_server_block r cfg) (\<lambda>(rest, cfg). load_nginx_config rest cfg))"
      by (rule result_ok_bind [OF parse_server_block_ok [OF less.prems]])
         (use ih in \<open>auto dest!: parse_server_block_rest\<close>)
    show ?thesis
      by (subst load_nginx_config.simps)
         (simp add: f Let_def ih loc srv less.prems parse_flat_line_wf split: option.splits prod.splits)
  qed
qed

subsection \<open>The JSON format\<close>

lemma json_get_string_fits: "json_get_string p n = Some (t, r) \<Longrightarrow> 0 < n \<Longrightarrow> length t < n"
proof -
  have len: "length (fst (json_chars m q)) \<le> m" for m q by (induction m q rule: json_chars.induct) auto
  show "json_get_string p n = Some (t, r) \<Longrightarrow> 0 < n \<Longrightarrow> length t < n"
    using len [of "n - 1" "tl (json_skip_ws p)"]
    by (auto simp: json_get_string_def Let_def split: list.splits if_splits prod.splits)
qed

lemma json_get_str_fits [simp]: "0 < n \<Longrightarrow> length (json_get_str p n) < n"
  by (auto simp: json_get_str_def Let_def min_def split: option.splits dest: json_get_string_fits)

lemma optional_str_fits [simp]: "0 < n \<Longrightarrow> length old < n \<Longrightarrow> length (optional_str v n old) < n"
  by (simp add: optional_str_def split: option.splits)

lemma json_strings_ok:
  "result_ok (\<lambda>ts. length ts \<le> n \<and> (\<forall>t\<in>set ts. length t < 128)) (json_strings n p)"
proof (induction "length p" arbitrary: n p rule: less_induct)
  case less
  have ih: "result_ok (\<lambda>ts. length ts \<le> m \<and> (\<forall>t\<in>set ts. length t < 128)) (json_strings m q)"
    if "length q < length p" for m q using less.hyps [OF that] .
  show ?case
  proof (cases "json_skip_ws p")
    case (Cons c s)
    then have s: "length s < length p" using json_skip_ws_le [of p] by simp
    have str: "result_ok (\<lambda>ts. length ts \<le> n \<and> (\<forall>t\<in>set ts. length t < 128))
        (bind_parsed (json_strings (n - Suc 0) r) (\<lambda>ts. Parsed (t # ts)))"
      if "json_get_string (c # s) 128 = Some (t, r)" "n \<noteq> 0" for t r
      by (rule result_ok_bind [OF ih]) (use that s in \<open>auto dest: json_get_string_shorter json_get_string_fits\<close>)
    show ?thesis
      by (subst json_strings.simps) (simp add: Cons ih [OF s] str split: option.splits)
  qed (simp add: json_strings.simps)
qed

lemma json_parse_route_ok: "rt_wf rt \<Longrightarrow> result_ok rt_wf (json_parse_route p rt)"
  by (simp add: json_parse_route_def Let_def route_table_add_ok split: option.splits prod.splits)

lemma json_route_list_ok: "rt_wf rt \<Longrightarrow> result_ok rt_wf (json_route_list p rt)"
proof (induction "length p" arbitrary: p rt rule: less_induct)
  case less
  show ?case
  proof (cases "json_skip_ws p")
    case (Cons c s)
    then have s: "Suc (length s) \<le> length p" using json_skip_ws_le [of p] by simp
    have ih: "result_ok rt_wf (json_route_list q rt')" if "length q \<le> length s" "rt_wf rt'" for q rt'
      using less.hyps [OF _ that(2), of q] that(1) s by simp
    have obj: "result_ok rt_wf (bind_parsed (json_parse_route obj rt) (json_route_list rest))"
      if "json_object n (c # s) = (obj, rest)" for n obj rest
      using json_object_shorter [of "c # s" n] that
      by (intro result_ok_bind [OF json_parse_route_ok [OF less.prems]] ih) auto
    show ?thesis
      by (subst json_route_list.simps) (simp add: Cons ih less.prems obj split: prod.splits)
  qed (simp add: json_route_list.simps less.prems)
qed

lemma json_parse_routes_ok: "rt_wf rt \<Longrightarrow> result_ok rt_wf (json_parse_routes p rt)"
  by (simp add: json_parse_routes_def json_route_list_ok split: list.splits)

lemma add_routes_of_ok: "cfg_wf cfg \<Longrightarrow> result_ok (grows cfg) (add_routes_of v cfg)"
  using on_routes_ok [OF _ json_parse_routes_ok] by (simp add: add_routes_of_def grows_def split: option.splits)

lemma json_parse_server_ok:
  assumes "cfg_wf cfg"
  shows "result_ok cfg_wf (json_parse_server p cfg)"
proof (cases "MAX_SERVER_BLOCKS \<le> length (cf_servers cfg)")
  case False
  define sb where "sb = (case json_find_key p ''listen'' of
    None \<Rightarrow> zero_block | Some v \<Rightarrow> parse_listen (json_get_str v 128) zero_block)"
  have sb: "block_wf sb" using block_wf_zero parse_listen_wf by (simp add: sb_def split: option.splits)
  have names: "result_ok (\<lambda>ts. length ts \<le> MAX_SERVER_NAMES \<and> (\<forall>t\<in>set ts. length t < 128))
      (case json_find_key p ''server_name'' of None \<Rightarrow> Parsed [] | Some v \<Rightarrow> json_get_string_array v MAX_SERVER_NAMES)"
    using json_strings_ok [of MAX_SERVER_NAMES]
    by (simp add: json_get_string_array_def split: option.splits list.splits)
  show ?thesis
    unfolding json_parse_server_def sb_def [symmetric] Let_def if_not_P [OF False]
  proof (rule result_ok_bind [OF names], rule result_ok_bind [OF add_routes_of_ok [OF assms]])
    fix ns :: "string list" and c
    assume n: "length ns \<le> MAX_SERVER_NAMES \<and> (\<forall>t\<in>set ns. length t < 128)" and g: "grows cfg c"
    have "block_wf (sb\<lparr>sb_names := ns, sb_root := optional_str (json_find_key p ''root'') 128 [],
        sb_access_log := optional_str (json_find_key p ''access_log'') 128 []\<rparr>)"
      using sb n by (simp add: block_wf_def)
    then show "result_ok cfg_wf (Parsed (c\<lparr>cf_servers := cf_servers c @ [sb\<lparr>sb_names := ns,
        sb_root := optional_str (json_find_key p ''root'') 128 [],
        sb_access_log := optional_str (json_find_key p ''access_log'') 128 []\<rparr>]\<rparr>))"
      using g False by (simp add: cfg_wf_append grows_def)
  qed
qed (simp add: json_parse_server_def)

lemma json_server_list_ok: "cfg_wf cfg \<Longrightarrow> result_ok cfg_wf (json_server_list p cfg)"
proof (induction "length p" arbitrary: p cfg rule: less_induct)
  case less
  show ?case
  proof (cases "json_skip_ws p")
    case (Cons c s)
    then have s: "Suc (length s) \<le> length p" using json_skip_ws_le [of p] by simp
    have ih: "result_ok cfg_wf (json_server_list q c')" if "length q \<le> length s" "cfg_wf c'" for q c'
      using less.hyps [OF _ that(2), of q] that(1) s by simp
    have obj: "result_ok cfg_wf (bind_parsed (json_parse_server obj cfg) (json_server_list rest))"
      if "json_object n (c # s) = (obj, rest)" for n obj rest
      using json_object_shorter [of "c # s" n] that
      by (intro result_ok_bind [OF json_parse_server_ok [OF less.prems]] ih) auto
    show ?thesis
      by (subst json_server_list.simps) (simp add: Cons ih less.prems obj split: prod.splits)
  qed (simp add: json_server_list.simps less.prems)
qed

lemma load_json_ok:
  assumes "cfg_wf cfg"
  shows "result_ok cfg_wf (load_json_config raw cfg)"
proof -
  have "cfg_wf (json_logging (json_find_key raw ''logging'') (json_flat_fields raw cfg))"
    using assms
    by (simp add: cfg_wf_def texts_fit_def json_logging_def json_flat_fields_def Let_def split: option.splits)
  note r = add_routes_of_ok [OF this]
  show ?thesis unfolding load_json_config_def Let_def
    by (rule result_ok_bind [OF r])
       (auto simp: json_servers_def grows_def json_server_list_ok split: option.splits list.splits)
qed

subsection \<open>The YAML format\<close>

lemma yaml_parse_route_map_ok:
  assumes "rt_wf rt"
  shows "result_ok (\<lambda>(rest, rt). rt_wf rt) (yaml_parse_route_map ls n rt)"
proof -
  have "result_ok rt_wf (yaml_add_route r rt)" for r
    using assms by (simp add: yaml_add_route_def Let_def route_table_add_ok split: prod.splits)
  then have "result_ok (\<lambda>(rest, rt). rt_wf rt) (bind_parsed (yaml_add_route r rt) (\<lambda>rt. Parsed (rest, rt)))"
    for r and rest :: "string list"
    by (rule result_ok_bind) simp
  then show ?thesis by (simp add: yaml_parse_route_map_def split: prod.splits)
qed

lemma yaml_parse_routes_ok: "rt_wf rt \<Longrightarrow> result_ok (\<lambda>(rest, rt). rt_wf rt) (yaml_parse_routes ls b rt)"
proof (induction "length ls" arbitrary: ls rt rule: less_induct)
  case less
  show ?case
  proof (cases ls)
    case (Cons l k)
    have ih: "result_ok (\<lambda>(rest, rt). rt_wf rt) (yaml_parse_routes k' b rt')" if "length k' \<le> length k" "rt_wf rt'" for k' rt'
      using less.hyps [OF _ that(2), of k'] that(1) Cons by simp
    have item: "result_ok (\<lambda>(rest, rt). rt_wf rt) (bind_parsed (yaml_parse_route_map (l # k) (b + 2) rt)
        (\<lambda>(rest, rt). yaml_parse_routes rest b rt))" if "yaml_is_list_item l (b + 2)"
      by (rule result_ok_bind [OF yaml_parse_route_map_ok [OF less.prems]])
         (use that ih in \<open>auto dest: yaml_parse_route_map_rest\<close>)
    show ?thesis
      by (subst yaml_parse_routes.simps) (use item in \<open>simp add: Cons ih less.prems\<close>)
  qed (simp add: yaml_parse_routes.simps less.prems)
qed

lemma yaml_get_value_fits: "0 < n \<Longrightarrow> length (yaml_get_value l n) < n"
proof -
  assume n: "0 < n"
  have "length (take (n - 1) s) < n" for s :: string using n by simp
  moreover have "length (rstrip P (take (n - 1) s)) < n" for P s
    using length_rstrip [of P "take (n - 1) s"] n by (simp add: min_def split: if_splits)
  ultimately show ?thesis
    using n by (auto simp: yaml_get_value_def Let_def rstrip_id split: option.splits dest: json_get_string_fits)
qed

lemma yaml_string_list_ok:
  "length (fst (yaml_parse_string_list ls b n)) \<le> n \<and> (\<forall>t\<in>set (fst (yaml_parse_string_list ls b n)). length t < 128)"
  by (induction ls b n rule: yaml_parse_string_list.induct) (auto simp: yaml_get_value_fits)

lemma yaml_server_lines_ok:
  "cfg_wf cfg \<Longrightarrow> block_wf sb
    \<Longrightarrow> result_ok (\<lambda>(rest, sb, c). block_wf sb \<and> grows cfg c) (yaml_server_lines ls b sb cfg)"
proof (induction "length ls" arbitrary: ls sb cfg rule: less_induct)
  case less
  show ?case
  proof (cases ls)
    case (Cons l k)
    have ih: "result_ok (\<lambda>(rest, sb, c). block_wf sb \<and> grows cfg c) (yaml_server_lines k' b sb' c)"
      if "length k' \<le> length k" "grows cfg c" "block_wf sb'" for k' sb' c
      using less.hyps [of k' c sb'] that Cons by (auto simp: grows_def)
    have self: "grows cfg cfg" using less.prems by (simp add: grows_def)
    obtain rt where rt: "cf_route_table cfg = Some rt" "rt_wf rt" using less.prems(1) by (auto simp: cfg_wf_def)
    have routes: "result_ok (\<lambda>(rest, sb, c). block_wf sb \<and> grows cfg c)
        (bind_parsed (yaml_parse_routes k (yaml_indent l) rt) (\<lambda>(rest, rt).
           yaml_server_lines rest b sb (cfg\<lparr>cf_route_table := Some rt\<rparr>)))"
      by (rule result_ok_bind [OF yaml_parse_routes_ok [OF rt(2)]])
         (use ih less.prems cfg_wf_routes in \<open>auto simp: grows_def dest!: yaml_parse_routes_rest\<close>)
    have names: "block_wf (sb\<lparr>sb_names := fst (yaml_parse_string_list k (yaml_indent l) MAX_SERVER_NAMES)\<rparr>)"
      using yaml_string_list_ok [of k "yaml_indent l" MAX_SERVER_NAMES] less.prems(2)
      by (intro block_wf_update(3)) auto
    have root: "block_wf (sb\<lparr>sb_root := copy_text 128 v\<rparr>)" "block_wf (sb\<lparr>sb_access_log := copy_text 128 v\<rparr>)" for v
      using block_wf_update(1,2) [OF less.prems(2)] by simp_all
    show ?thesis
      by (subst yaml_server_lines.simps)
         (simp add: Cons rt(1) routes names root ih [OF _ self] yaml_string_list_le less.prems(2) self parse_listen_wf
           split: option.splits prod.splits)
  qed (simp add: yaml_server_lines.simps less.prems grows_def)
qed

lemma yaml_parse_server_ok:
  assumes "cfg_wf cfg"
  shows "result_ok (\<lambda>(rest, c). cfg_wf c) (yaml_parse_server ls n cfg)"
proof (cases "MAX_SERVER_BLOCKS \<le> length (cf_servers cfg)")
  case False
  show ?thesis
    unfolding yaml_parse_server_def if_not_P [OF False]
    by (rule result_ok_bind [OF yaml_server_lines_ok [OF assms block_wf_zero]])
       (use False in \<open>auto simp: grows_def cfg_wf_append\<close>)
qed (simp add: yaml_parse_server_def)

lemma yaml_server_list_ok: "cfg_wf cfg \<Longrightarrow> result_ok (\<lambda>(rest, c). cfg_wf c) (yaml_server_list ls cfg)"
proof (induction "length ls" arbitrary: ls cfg rule: less_induct)
  case less
  show ?case
  proof (cases ls)
    case (Cons l k)
    have ih: "result_ok (\<lambda>(rest, c). cfg_wf c) (yaml_server_list k' c)" if "length k' \<le> length k" "cfg_wf c" for k' c
      using less.hyps [OF _ that(2), of k'] that(1) Cons by simp
    have item: "result_ok (\<lambda>(rest, c). cfg_wf c) (bind_parsed (yaml_parse_server (l # k) 2 cfg)
        (\<lambda>(rest, cfg). yaml_server_list rest cfg))" if "yaml_is_list_item l 2"
      by (rule result_ok_bind [OF yaml_parse_server_ok [OF less.prems]])
         (use that ih in \<open>auto dest: yaml_parse_server_rest\<close>)
    show ?thesis
      by (subst yaml_server_list.simps) (simp add: Cons ih less.prems item)
  qed (simp add: yaml_server_list.simps less.prems)
qed

lemma yaml_flat_line_wf: "cfg_wf cfg \<Longrightarrow> cfg_wf (yaml_flat_line key l cfg)"
  by (simp add: cfg_wf_def texts_fit_def yaml_flat_line_def set_level_def Let_def split: option.splits)

lemma yaml_logging_wf: "cfg_wf cfg \<Longrightarrow> cfg_wf (snd (yaml_logging ls cfg))"
proof (induction ls arbitrary: cfg)
  case (Cons l ls)
  have "cfg_wf (set_level v cfg)" "cfg_wf (cfg\<lparr>cf_system_log := copy_text 128 v\<rparr>)"
    "cfg_wf (cfg\<lparr>cf_access_log := copy_text 128 v\<rparr>)" for v
    using Cons.prems by (auto simp: cfg_wf_def texts_fit_def set_level_def split: option.splits)
  then show ?case using Cons by simp
qed simp

lemma load_yaml_ok: "cfg_wf cfg \<Longrightarrow> result_ok cfg_wf (load_yaml_config ls cfg)"
proof (induction "length ls" arbitrary: ls cfg rule: less_induct)
  case less
  show ?case
  proof (cases ls)
    case (Cons l k)
    have ih: "result_ok cfg_wf (load_yaml_config k' c)" if "length k' \<le> length k" "cfg_wf c" for k' c
      using less.hyps [OF _ that(2), of k'] that(1) Cons by simp
    obtain rt where rt: "cf_route_table cfg = Some rt" "rt_wf rt" using less.prems(1) by (auto simp: cfg_wf_def)
    have routes: "result_ok cfg_wf (bind_parsed (yaml_parse_routes k 0 rt) (\<lambda>(rest, rt).
           load_yaml_config rest (cfg\<lparr>cf_route_table := Some rt\<rparr>)))"
      by (rule result_ok_bind [OF yaml_parse_routes_ok [OF rt(2)]])
         (use ih less.prems cfg_wf_routes in \<open>auto dest!: yaml_parse_routes_rest\<close>)
    have servers: "result_ok cfg_wf (bind_parsed (yaml_server_list k cfg) (\<lambda>(rest, cfg). load_yaml_config rest cfg))"
      by (rule result_ok_bind [OF yaml_server_list_ok [OF less.prems]])
         (use ih in \<open>auto dest!: yaml_server_list_rest\<close>)
    show ?thesis
      by (subst load_yaml_config.simps)
         (simp add: Cons rt(1) Let_def ih routes servers less.prems yaml_flat_line_wf yaml_logging_wf yaml_logging_le)
  qed (simp add: load_yaml_config.simps less.prems)
qed

subsection \<open>Loading\<close>

lemma parse_config_ok: "result_ok cfg_wf (parse_config data)"
  using load_json_ok [OF cfg_wf_zero] load_yaml_ok [OF cfg_wf_zero] load_nginx_ok [OF cfg_wf_zero]
  by (simp add: parse_config_def split: config_format.splits)

definition complete_config :: "server_config \<Rightarrow> bool" where
  \<comment> \<open>the defaults are filled in, the routes are valid, and the required fields are there: either all
    of them, or at least a server block and a log file\<close>
  "complete_config cfg \<longleftrightarrow> 0 < cf_max_connections cfg \<and> 0 < cf_max_request_bytes cfg
     \<and> 0 < cf_worker_processes cfg \<and> 0 < cf_worker_shutdown_timeout_ms cfg
     \<and> 0 < cf_log_max_lines cfg \<and> 0 < cf_log_max_roll_files cfg \<and> valid_routes cfg
     \<and> (cf_host cfg \<noteq> [] \<and> 0 < cf_port cfg \<and> cf_www_root cfg \<noteq> [] \<and> cf_user_file cfg \<noteq> []
        \<or> cf_servers cfg \<noteq> [] \<and> cf_log_path cfg \<noteq> [])"

lemma or_text_fits [simp]: "0 < n \<Longrightarrow> length old < n \<Longrightarrow> length (or_text old n other) < n"
  by (simp add: or_text_def)

lemma or_text_nonempty [simp]: "old \<noteq> [] \<Longrightarrow> or_text old n other = old"
  by (simp add: or_text_def)

lemma or_int_pos [simp]: "0 < other \<Longrightarrow> 0 < or_int old other" "0 < old \<Longrightarrow> or_int old other = old"
  by (simp_all add: or_int_def)

lemma legacy_from_blocks_wf: "cfg_wf cfg \<Longrightarrow> cfg_wf (legacy_from_blocks cfg)"
  by (auto simp: legacy_from_blocks_def cfg_wf_def texts_fit_def block_wf_def Let_def split: list.splits)

lemma config_post_process_wf:
  assumes "cfg_wf cfg"
  shows "cfg_wf (config_post_process cfg)"
proof -
  have "cfg_wf (cross_copy c)" "cfg_wf (apply_defaults c)" if "cfg_wf c" for c
    using that by (auto simp: cfg_wf_def texts_fit_def cross_copy_def apply_defaults_def Let_def)
  then show ?thesis using legacy_from_blocks_wf [OF assms] by (simp add: config_post_process_def)
qed

lemma apply_defaults_positive:
  "0 < cf_max_connections (apply_defaults c)" "0 < cf_max_request_bytes (apply_defaults c)"
  "0 < cf_worker_processes (apply_defaults c)" "0 < cf_worker_shutdown_timeout_ms (apply_defaults c)"
  "0 < cf_log_max_lines (apply_defaults c)" "0 < cf_log_max_roll_files (apply_defaults c)"
  by (simp_all add: apply_defaults_def)

lemma load_config_ok:
  "result_ok (\<lambda>cfg. cfg_wf cfg \<and> complete_config cfg) (load_config file)"
proof (cases "file")
  case (Some data)
  show ?thesis
    unfolding load_config_def Some option.case
  proof (rule result_ok_bind [OF parse_config_ok])
    fix c
    assume "cfg_wf c"
    then have "cfg_wf (config_post_process c)" by (rule config_post_process_wf)
    moreover have "0 < cf_max_connections (config_post_process c)" "0 < cf_max_request_bytes (config_post_process c)"
      "0 < cf_worker_processes (config_post_process c)" "0 < cf_worker_shutdown_timeout_ms (config_post_process c)"
      "0 < cf_log_max_lines (config_post_process c)" "0 < cf_log_max_roll_files (config_post_process c)"
      unfolding config_post_process_def by (rule apply_defaults_positive)+
    ultimately show "result_ok (\<lambda>cfg. cfg_wf cfg \<and> complete_config cfg)
        (let cfg = config_post_process c in if valid_routes cfg then check_required cfg else Fail)"
      by (auto simp: Let_def check_required_def complete_config_def valid_routes_def cfg_wf_def texts_fit_def)
  qed
qed (simp add: load_config_def)

text \<open>
  C21: whatever the file holds, \<open>load_config\<close> returns (none of its loops runs for ever), and a
  configuration that it accepts is well formed and complete: every text fits its array, there are at
  most 16 server blocks, each with at most 8 names, an address and a positive port; the route table
  satisfies its invariant, contains no duplicates and no unknown handlers; the numeric limits are
  positive; the fields that the server needs are there.
\<close>
theorem load_config_complete:
  "load_config file \<noteq> Stuck
   \<and> (\<forall>cfg. load_config file = Parsed cfg \<longrightarrow> cfg_wf cfg \<and> complete_config cfg)"
  using load_config_ok [of "file"] by (auto simp: result_ok_def split: parsed.splits)

definition example_conf :: string where
  \<comment> \<open>one server block that leaves everything to the defaults\<close>
  "example_conf = ''server{'' @ [LF] @ ''}''"

lemma example_conf_parsed:
  "parse_config example_conf = Parsed (zero_config\<lparr>cf_servers := [zero_block]\<rparr>)"
proof -
  have f: "fgets 256 example_conf = Some (''server{'' @ [LF], ''}'')" "fgets 256 ''}'' = Some (''}'', [])" by code_simp+
  have c: "config_line (''server{'' @ [LF]) = ''server{''" "config_line ''}'' = ''}''" by code_simp+
  have d: "detect_config_format example_conf = FMT_NGINX"
    by (simp add: detect_config_format_def detect_lines.simps f cstr_def skip_blanks_def starts_with_def)
  have "load_nginx_config example_conf zero_config = Parsed (zero_config\<lparr>cf_servers := [zero_block]\<rparr>)"
    by (simp add: load_nginx_config.simps [of example_conf] load_nginx_config.simps [of "[]"] f c [simplified] Let_def
        ignored_line_def opens_server_def parse_server_block_def server_lines.simps starts_with_def fgets.simps(1))
       (simp add: zero_config_def)
  then show ?thesis by (simp add: parse_config_def d)
qed

lemma example_conf_loaded: "\<exists>cfg. load_config (Some example_conf) = Parsed cfg \<and> cf_port cfg = 80"
proof -
  define c where "c = zero_config\<lparr>cf_servers := [zero_block], cf_host := ''0.0.0.0'', cf_port := 80\<rparr>"
  have "legacy_from_blocks (zero_config\<lparr>cf_servers := [zero_block]\<rparr>) = c" "cross_copy c = c"
    by (simp_all add: legacy_from_blocks_def cross_copy_def Let_def c_def zero_config_def zero_block_def
        or_text_def or_int_def copy_text_def)
  moreover have "cf_servers (apply_defaults c) = [zero_block]" "cf_log_path (apply_defaults c) = []"
    "cf_port (apply_defaults c) = 80" "cf_www_root (apply_defaults c) = []"
    "cf_route_table (apply_defaults c) = Some route_table_init"
    by (simp_all add: c_def apply_defaults_def zero_config_def)
  ultimately show ?thesis
    by (simp add: load_config_def example_conf_parsed config_post_process_def valid_routes_def check_required_def
        Let_def route_table_init_def)
qed

lemma load_config_complete_witness:
  "\<exists>cfg. load_config (Some example_conf) = Parsed cfg \<and> cfg_wf cfg \<and> complete_config cfg \<and> cf_port cfg = 80"
  using load_config_complete [of "Some example_conf"] example_conf_loaded by blast

end
