(* ===== verification/Config_Formats.thy ===== *)
theory Config_Formats
  imports Config_Correct
begin

text \<open>
  What the formats make of the texts that they document: a list of routes in YAML registers one
  route only, and a \<open>server\<close> block printed in the nginx format is read back as the block.
\<close>

subsection \<open>A list of routes in YAML\<close>

definition plain_value :: "nat \<Rightarrow> string \<Rightarrow> bool" where
  \<comment> \<open>a scalar that needs no quotes and fits\<close>
  "plain_value n s \<longleftrightarrow> s \<noteq> [] \<and> length s < n \<and> (\<forall>c\<in>set s. c \<noteq> LF \<and> c \<noteq> CR \<and> c \<noteq> CHR ''#'')
     \<and> hd s \<noteq> SPC \<and> hd s \<noteq> QUOTE \<and> hd s \<noteq> CHR 0x27 \<and> last s \<noteq> SPC"

lemma yaml_get_value_plain:
  assumes "plain_value n s" and "CHR '':'' \<notin> set k"
  shows "yaml_get_value (k @ CHR '':'' # SPC # s) n = s"
proof -
  have p: "s \<noteq> []" "length s < n" "\<forall>c\<in>set s. c \<noteq> LF \<and> c \<noteq> CR \<and> c \<noteq> CHR ''#''" "hd s \<noteq> SPC"
    "hd s \<noteq> QUOTE" "hd s \<noteq> CHR 0x27" "last s \<noteq> SPC" using assms(1) by (simp_all add: plain_value_def)
  have "skip_spaces (SPC # s) = s" using p(1,4) by (cases s) (simp_all add: skip_spaces_def)
  moreover have "takeWhile (\<lambda>c. c \<noteq> LF \<and> c \<noteq> CR \<and> c \<noteq> CHR ''#'') s = s"
    using p(3) by (simp add: takeWhile_eq_all_conv)
  then have "rstrip (\<lambda>c. c = SPC) (take (n - Suc 0) (takeWhile (\<lambda>c. c \<noteq> LF \<and> c \<noteq> CR \<and> c \<noteq> CHR ''#'') s)) = s"
    using p(2,7) by (simp only:) (simp add: rstrip_id)
  ultimately show ?thesis
    using p strchr_append [OF assms(2), of "SPC # s"] by (simp add: yaml_get_value_def)
qed

record route_text =
  rx_method :: string
  rx_path :: string
  rx_handler :: string

definition plain_route :: "route_text \<Rightarrow> bool" where
  "plain_route r \<longleftrightarrow> plain_value 16 (rx_method r) \<and> plain_value 256 (rx_path r) \<and> plain_value 64 (rx_handler r)"

definition yaml_item :: "route_text \<Rightarrow> string list" where
  \<comment> \<open>the three lines of a list item, as the comment of \<open>config.c\<close> documents them\<close>
  "yaml_item r = [''  - method: '' @ rx_method r, ''    path: '' @ rx_path r, ''    handler: '' @ rx_handler r]"

definition set_route :: "route_text \<Rightarrow> yaml_route \<Rightarrow> yaml_route" where
  "set_route r y = y\<lparr>yr_method := map toupper_c (rx_method r), yr_path := rx_path r, yr_handler := rx_handler r\<rparr>"

lemma yaml_item_keys:
  "yaml_route_key (''  - method: '' @ s) = Some ''method''"
  "yaml_route_key (''    path: '' @ s) = Some ''path''"
  "yaml_route_key (''    handler: '' @ s) = Some ''handler''"
  by (simp_all add: yaml_route_key_def yaml_content_def skip_spaces_def starts_with_def strchr_def cut_at_def
      copy_text_def rstrip_def)

lemma yaml_item_values:
  assumes "plain_value 256 s"
  shows "yaml_get_value (''  - method: '' @ s) 256 = s" "yaml_get_value (''    path: '' @ s) 256 = s"
    "yaml_get_value (''    handler: '' @ s) 256 = s"
  using yaml_get_value_plain [OF assms, of "''  - method''"] yaml_get_value_plain [OF assms, of "''    path''"]
    yaml_get_value_plain [OF assms, of "''    handler''"] by simp_all

lemma yaml_item_shape:
  "yaml_indent (''  - method: '' @ s) = 2" "is_item (''  - method: '' @ s)" "\<not> yaml_blank (''  - method: '' @ s)"
  "yaml_indent (''    path: '' @ s) = 4" "\<not> yaml_blank (''    path: '' @ s)"
  "yaml_indent (''    handler: '' @ s) = 4" "\<not> yaml_blank (''    handler: '' @ s)"
  "yaml_is_list_item (''  - method: '' @ s) 2" "\<not> yaml_is_doc_marker (''  - method: '' @ s)"
  by (simp_all add: yaml_indent_def is_item_def yaml_blank_def starts_with_def yaml_is_list_item_def
      yaml_is_doc_marker_def skip_spaces_def numeral_2_eq_2)

lemma yaml_item_lines:
  assumes "plain_route r"
  shows "yaml_route_lines 2 (yaml_item r @ ls) y = yaml_route_lines 2 ls (set_route r y)"
proof -
  have wider: "plain_value 256 s" if "plain_value n s" "n \<le> 256" for n s using that by (simp add: plain_value_def)
  have p: "plain_value 256 (rx_method r)" "plain_value 256 (rx_path r)" "plain_value 256 (rx_handler r)"
    and l: "length (rx_method r) < 16" "length (rx_path r) < 256" "length (rx_handler r) < 64"
    using assms wider [of 16] wider [of 64] by (auto simp: plain_route_def plain_value_def)
  define l1 l2 l3 where "l1 = ''  - method: '' @ rx_method r" and "l2 = ''    path: '' @ rx_path r"
    and "l3 = ''    handler: '' @ rx_handler r"
  note defs = l1_def l2_def l3_def
  have keys: "yaml_route_key l1 = Some ''method''" "yaml_route_key l2 = Some ''path''" "yaml_route_key l3 = Some ''handler''"
    unfolding defs by (rule yaml_item_keys)+
  have vals: "yaml_get_value l1 256 = rx_method r" "yaml_get_value l2 256 = rx_path r" "yaml_get_value l3 256 = rx_handler r"
    unfolding defs by (rule yaml_item_values [OF p(1)] yaml_item_values [OF p(2)] yaml_item_values [OF p(3)])+
  have shape: "yaml_indent l1 = 2" "is_item l1" "\<not> yaml_blank l1" "yaml_indent l2 = 4" "\<not> yaml_blank l2"
    "yaml_indent l3 = 4" "\<not> yaml_blank l3"
    unfolding defs by (rule yaml_item_shape)+
  have item: "yaml_item r = [l1, l2, l3]" by (simp add: yaml_item_def defs)
  show ?thesis
    unfolding item using keys vals shape l by (simp add: yaml_route_line_def copy_text_id set_route_def)
qed

lemma yaml_items_lines:
  "list_all plain_route rs \<Longrightarrow> rs \<noteq> []
    \<Longrightarrow> yaml_route_lines 2 (concat (map yaml_item rs)) y = (set_route (last rs) y, [])"
proof (induction rs arbitrary: y)
  case (Cons r rs)
  then show ?case
    using yaml_item_lines [of r "concat (map yaml_item rs)" y]
    by (cases "rs = []") (simp_all add: set_route_def)
qed simp

text \<open>
  Of a list of routes in the documented YAML form only the last one is registered: the parser of
  an item does not stop at the next item of the list, so the later items overwrite the earlier ones
  and the whole list ends as one route.
\<close>
theorem yaml_last_route_only:
  assumes "list_all plain_route rs" and "rs \<noteq> []"
  shows "yaml_parse_routes (concat (map yaml_item rs)) 0 rt
    = bind_parsed (yaml_add_route (set_route (last rs) no_route) rt) (\<lambda>rt. Parsed ([], rt))"
proof -
  obtain r rs' where rs: "rs = r # rs'" using assms(2) by (cases rs) auto
  define l where "l = ''  - method: '' @ rx_method r"
  obtain ls where e: "concat (map yaml_item rs) = l # ls" by (simp add: rs yaml_item_def l_def)
  have l: "yaml_is_list_item l 2" "\<not> yaml_is_doc_marker l" "\<not> yaml_blank l" "yaml_indent l = 2"
    unfolding l_def by (rule yaml_item_shape)+
  have m: "yaml_parse_route_map (concat (map yaml_item rs)) 2 rt
    = bind_parsed (yaml_add_route (set_route (last rs) no_route) rt) (\<lambda>rt. Parsed ([], rt))"
    by (simp add: yaml_parse_route_map_def yaml_items_lines [OF assms])
  have "yaml_parse_routes (concat (map yaml_item rs)) 0 rt
    = bind_parsed (yaml_parse_route_map (concat (map yaml_item rs)) 2 rt) (\<lambda>(rest, rt). yaml_parse_routes rest 0 rt)"
    unfolding e using l by (subst yaml_parse_routes.simps) (simp add: numeral_2_eq_2)
  also have "\<dots> = bind_parsed (yaml_add_route (set_route (last rs) no_route) rt) (\<lambda>rt. Parsed ([], rt))"
    unfolding m by (cases "yaml_add_route (set_route (last rs) no_route) rt") (simp_all add: yaml_parse_routes.simps)
  finally show ?thesis .
qed

definition two_routes :: "route_text list" where
  "two_routes = [\<lparr>rx_method = ''GET'', rx_path = ''/hello'', rx_handler = ''hello''\<rparr>,
                 \<lparr>rx_method = ''GET'', rx_path = ''/*'', rx_handler = ''static''\<rparr>]"

lemma two_routes_plain: "list_all plain_route two_routes" "two_routes \<noteq> []"
  by (simp_all add: two_routes_def plain_route_def plain_value_def)

lemma two_routes_last: "set_route (last two_routes) no_route
    = \<lparr>yr_method = ''GET'', yr_path = ''/*'', yr_handler = ''static'', yr_realm = [], yr_role = []\<rparr>"
  by code_simp

lemma add_static_route:
  "yaml_add_route \<lparr>yr_method = ''GET'', yr_path = ''/*'', yr_handler = ''static'', yr_realm = [], yr_role = []\<rparr> route_table_init
    = Parsed (route_table_init\<lparr>rt_prefix := [mk_entry ''GET'' ''/'' MATCH_PREFIX HANDLER_STATIC [] []]\<rparr>)"
proof -
  have "path_match ''/*'' = (''/'', MATCH_PREFIX)" "route_table_lookup_handler ''static'' = HANDLER_STATIC" by code_simp+
  then show ?thesis by (simp add: yaml_add_route_def of_run_def route_table_add_def route_table_init_def)
qed

lemma yaml_last_route_only_witness:
  "yaml_parse_routes (concat (map yaml_item two_routes)) 0 route_table_init
    = Parsed ([], route_table_init\<lparr>rt_prefix := [mk_entry ''GET'' ''/'' MATCH_PREFIX HANDLER_STATIC [] []]\<rparr>)"
  unfolding yaml_last_route_only [OF two_routes_plain] two_routes_last add_static_route by simp

end
