(* ===== verification/Conn_Table.thy ===== *)
theory Conn_Table
  imports Prelude "HOL-Library.Multiset"
begin

text \<open>
  The connection tables of the event-driven servers (\<open>conn_t\<close> of \<open>src/select_server.c\<close> and
  \<open>src/epoll_server.c\<close>), and what every such server promises about descriptors: each one that
  \<open>accept\<close> returned is open in the table or has been closed exactly once.  The promise is a small
  abstract machine, the ledger; the locale \<open>accounted\<close> is the contract by which a server's steps
  follow it.
\<close>

subsection \<open>Slots\<close>

record conn =
  cn_fd :: int                  \<comment> \<open>-1 marks a free slot\<close>
  cn_buf :: string              \<comment> \<open>the first \<open>recv_len\<close> bytes of \<open>recv_buf\<close>\<close>
  cn_count :: nat
  cn_last :: int

definition conn_free :: "'a conn_scheme \<Rightarrow> bool" where
  "conn_free c \<longleftrightarrow> cn_fd c = -1"

fun first_index :: "('c \<Rightarrow> bool) \<Rightarrow> 'c list \<Rightarrow> nat option" where
  \<comment> \<open>the search \<open>for (i = 0; i < N; i++) if (...) { slot = i; break; }\<close>\<close>
  "first_index P [] = None"
| "first_index P (c # cs) = (if P c then Some 0 else map_option Suc (first_index P cs))"

definition live :: "'a conn_scheme list \<Rightarrow> int multiset" where
  \<comment> \<open>the descriptors in the table\<close>
  "live cs = filter_mset (\<lambda>fd. fd \<noteq> -1) (mset (map cn_fd cs))"

lemma first_index_Some:
  "first_index P cs = Some i \<Longrightarrow> i < length cs \<and> P (cs ! i) \<and> (\<forall>j<i. \<not> P (cs ! j))"
proof (induction cs arbitrary: i)
  case (Cons c cs)
  then show ?case by (auto simp: less_Suc_eq_0_disj split: if_splits)
qed simp

lemma first_index_None: "first_index P cs = None \<longleftrightarrow> (\<forall>c \<in> set cs. \<not> P c)"
  by (induction cs) auto

lemma live_upd:
  assumes "i < length cs"
  shows "live (cs[i := c]) + (if conn_free (cs ! i) then {#} else {#cn_fd (cs ! i)#})
    = live cs + (if conn_free c then {#} else {#cn_fd c#})"
proof -
  have "mset (map cn_fd (cs[i := c])) + {#cn_fd (cs ! i)#} = mset (map cn_fd cs) + {#cn_fd c#}"
    using assms by (simp add: map_update mset_update)
  then have "filter_mset (\<lambda>fd. fd \<noteq> -1) (mset (map cn_fd (cs[i := c])) + {#cn_fd (cs ! i)#})
      = filter_mset (\<lambda>fd. fd \<noteq> -1) (mset (map cn_fd cs) + {#cn_fd c#})" by simp
  then show ?thesis by (simp add: live_def conn_free_def split: if_splits)
qed

lemma live_claim:
  "i < length cs \<Longrightarrow> conn_free (cs ! i) \<Longrightarrow> cn_fd c = fd \<Longrightarrow> fd \<noteq> -1
    \<Longrightarrow> live (cs[i := c]) = add_mset fd (live cs)"
  using live_upd [of i cs c] by (simp add: conn_free_def)

lemma live_drop:
  "i < length cs \<Longrightarrow> \<not> conn_free (cs ! i) \<Longrightarrow> conn_free c
    \<Longrightarrow> live cs = add_mset (cn_fd (cs ! i)) (live (cs[i := c]))"
  using live_upd [of i cs c] by simp

lemma live_keep: "i < length cs \<Longrightarrow> cn_fd c = cn_fd (cs ! i) \<Longrightarrow> live (cs[i := c]) = live cs"
  using live_upd [of i cs c] by (simp add: conn_free_def split: if_splits)

lemma live_elem: "i < length cs \<Longrightarrow> cn_fd (cs ! i) \<noteq> -1 \<Longrightarrow> cn_fd (cs ! i) \<in># live cs"
  by (simp add: live_def)

lemma live_all_free: "\<forall>c \<in> set cs. conn_free c \<Longrightarrow> live cs = {#}"
  by (induction cs) (auto simp: live_def conn_free_def)

lemma size_live: "size (live cs) \<le> length cs"
  using size_filter_mset_lesseq [of "\<lambda>fd. fd \<noteq> -1" "mset (map cn_fd cs)"] by (simp add: live_def)

subsection \<open>The ledger of descriptors\<close>

record ledger =
  ld_open :: "int multiset"
  ld_accepted :: "int multiset"
  ld_closed :: "int multiset"

definition empty_ledger :: ledger where
  "empty_ledger = \<lparr>ld_open = {#}, ld_accepted = {#}, ld_closed = {#}\<rparr>"

inductive ledger_move :: "ledger \<Rightarrow> ledger \<Rightarrow> bool" where
  admit: "ledger_move l (l\<lparr>ld_open := add_mset fd (ld_open l), ld_accepted := add_mset fd (ld_accepted l)\<rparr>)"
| turn_away: "ledger_move l (l\<lparr>ld_accepted := add_mset fd (ld_accepted l), ld_closed := add_mset fd (ld_closed l)\<rparr>)"
| discharge: "ld_open l = add_mset fd r
    \<Longrightarrow> ledger_move l (l\<lparr>ld_open := r, ld_closed := add_mset fd (ld_closed l)\<rparr>)"

definition balanced :: "ledger \<Rightarrow> bool" where
  "balanced l \<longleftrightarrow> ld_accepted l = ld_closed l + ld_open l"

lemma balanced_move: "ledger_move l l' \<Longrightarrow> balanced l \<Longrightarrow> balanced l'"
  by (induction rule: ledger_move.induct) (auto simp: balanced_def)

lemma balanced_moves: "ledger_move\<^sup>*\<^sup>* l l' \<Longrightarrow> balanced l \<Longrightarrow> balanced l'"
  by (induction rule: rtranclp_induct) (auto dest: balanced_move)

text \<open>
  A server is accounted for when its steps, seen through \<open>view\<close>, are moves of the ledger as long
  as its invariant holds, which every step keeps.
\<close>

locale accounted =
  fixes start :: "'s \<Rightarrow> bool" and step :: "'s \<Rightarrow> 's \<Rightarrow> bool" and inv :: "'s \<Rightarrow> bool" and view :: "'s \<Rightarrow> ledger"
  assumes starts: "start s \<Longrightarrow> inv s \<and> view s = empty_ledger"
    and keeps: "step s t \<Longrightarrow> inv s \<Longrightarrow> inv t"
    and follows: "step s t \<Longrightarrow> inv s \<Longrightarrow> ledger_move\<^sup>*\<^sup>* (view s) (view t)"
begin

lemma reaches:
  assumes "step\<^sup>*\<^sup>* s t" and "start s"
  shows "inv t \<and> ledger_move\<^sup>*\<^sup>* empty_ledger (view t)"
  using assms(1)
proof (induction rule: rtranclp_induct)
  case base
  then show ?case using starts [OF assms(2)] by simp
next
  case (step t u)
  then show ?case using keeps [of t u] follows [of t u] by (meson rtranclp_trans)
qed

lemma accounts:
  assumes "step\<^sup>*\<^sup>* s t" and "start s"
  shows "ld_accepted (view t) = ld_closed (view t) + ld_open (view t)"
  using balanced_moves [of empty_ledger "view t"] reaches [OF assms]
  by (simp add: balanced_def empty_ledger_def)

end

end
