(* ===== verification/Epoll_Server.thy ===== *)
theory Epoll_Server
  imports Dispatch Conn_Table
begin

text \<open>
  The event loop of \<open>src/epoll_server.c\<close>.  \<open>epoll_state\<close> holds the connection array, the interest
  list of the epoll instance (the listening socket, registered with a null pointer, is left
  implicit), the two counters and the globals the requests use; \<open>ep_accepted\<close>, \<open>ep_closed\<close> and
  \<open>ep_out\<close> record the descriptors that \<open>accept\<close> returned, those closed, and what was handed to
  \<open>send\<close>.  What the system calls return is part of the events.  Console and log output, the access
  log and the drained bytes of \<open>safe_close\<close> are left out.
\<close>

subsection \<open>State\<close>

abbreviation EPOLL_MAX_EVENTS :: nat where "EPOLL_MAX_EVENTS \<equiv> 256"
definition EPOLL_MAX_CONNS :: nat where "EPOLL_MAX_CONNS = 1024"
abbreviation RECV_BUF_SIZE :: nat where "RECV_BUF_SIZE \<equiv> 8192"
abbreviation KEEP_ALIVE_TIMEOUT_SEC :: int where "KEEP_ALIVE_TIMEOUT_SEC \<equiv> 5"

record ep_conn = conn +
  cn_ip :: string
  cn_port :: nat

record accepted_client =
  ac_fd :: int
  ac_ip :: string
  ac_port :: nat
  ac_now :: int
  ac_added :: bool   \<comment> \<open>\<open>epoll_ctl(ADD)\<close> succeeds\<close>

record client_io =
  ci_recv :: received
  ci_env :: env
  ci_sent :: int     \<comment> \<open>the result of \<open>send\<close>\<close>
  ci_413 :: string   \<comment> \<open>what the response of status 413 holds after \<open>memcpy\<close> between overlapping regions\<close>

datatype epoll_event =
  Listen_Hangup
| Listen_Ready "accepted_client option"   \<comment> \<open>what \<open>accept\<close> gives, \<open>None\<close> for a failure\<close>
| Client_Hangup nat                       \<comment> \<open>the slot that \<open>data.ptr\<close> points to\<close>
| Client_Ready nat client_io

record epoll_state =
  ep_conns :: "ep_conn list"
  ep_interest :: "int \<Rightarrow> nat option"
  ep_active :: int
  ep_served :: int
  ep_config :: "server_config option"
  ep_server :: server
  ep_ready :: "epoll_event list"   \<comment> \<open>the events of the last \<open>epoll_wait\<close> not yet processed\<close>
  ep_stopped :: bool
  ep_accepted :: "int list"
  ep_closed :: "int list"
  ep_out :: "(int \<times> string) list"

definition free_conn :: ep_conn where
  "free_conn = \<lparr>cn_fd = -1, cn_buf = [], cn_count = 0, cn_last = 0, cn_ip = [], cn_port = 0\<rparr>"

definition epoll_start :: "server_config option \<Rightarrow> server \<Rightarrow> epoll_state" where
  "epoll_start cfg sv = \<lparr>ep_conns = replicate EPOLL_MAX_CONNS free_conn, ep_interest = (\<lambda>_. None),
     ep_active = 0, ep_served = 0, ep_config = cfg, ep_server = sv, ep_ready = [], ep_stopped = False,
     ep_accepted = [], ep_closed = [], ep_out = []\<rparr>"

definition epoll_server_set_config :: "server_config option \<Rightarrow> server \<Rightarrow> server" where
  \<comment> \<open>\<open>g_epoll_config\<close> is the argument that \<open>epoll_start\<close> gets\<close>
  "epoll_server_set_config cfg sv =
     (let sv = sv\<lparr>sv_config := cfg\<rparr>
      in case cfg of
           None \<Rightarrow> sv
         | Some c \<Rightarrow>
             if cf_servers c \<noteq> [] \<and> sb_root (hd (cf_servers c)) \<noteq> []
             then request_handler_set_root (sb_root (hd (cf_servers c))) sv else sv)"

subsection \<open>Connections\<close>

definition close_fd :: "int \<Rightarrow> epoll_state \<Rightarrow> epoll_state" where
  \<comment> \<open>closing a descriptor takes it off the interest list\<close>
  "close_fd fd st = st\<lparr>ep_closed := ep_closed st @ [fd], ep_interest := (ep_interest st)(fd := None)\<rparr>"

definition safe_close :: "int \<Rightarrow> epoll_state \<Rightarrow> epoll_state" where
  "safe_close fd st = (if 0 \<le> fd then close_fd fd st else st)"

definition epoll_ctl_del :: "int \<Rightarrow> epoll_state \<Rightarrow> epoll_state" where
  "epoll_ctl_del fd st = st\<lparr>ep_interest := (ep_interest st)(fd := None)\<rparr>"

definition set_conn :: "nat \<Rightarrow> ep_conn \<Rightarrow> epoll_state \<Rightarrow> epoll_state" where
  "set_conn i c st = st\<lparr>ep_conns := (ep_conns st)[i := c]\<rparr>"

definition drop_conn :: "nat \<Rightarrow> epoll_state \<Rightarrow> epoll_state" where
  \<comment> \<open>the four statements that end a connection wherever the loop does\<close>
  "drop_conn i st =
     (let c = ep_conns st ! i;
          st = safe_close (cn_fd c) (epoll_ctl_del (cn_fd c) st);
          st = set_conn i (c\<lparr>cn_fd := -1\<rparr>) st
      in st\<lparr>ep_active := ep_active st - 1\<rparr>)"

definition send_bytes :: "nat \<Rightarrow> string \<Rightarrow> int \<Rightarrow> epoll_state \<Rightarrow> epoll_state" where
  \<comment> \<open>\<open>send(fd, ...)\<close> that returns \<open>sent\<close>\<close>
  "send_bytes i out sent st = st\<lparr>ep_out := ep_out st @ [(cn_fd (ep_conns st ! i), take (nat sent) out)]\<rparr>"

definition is_idle :: "int \<Rightarrow> ep_conn \<Rightarrow> bool" where
  "is_idle now c \<longleftrightarrow> cn_fd c \<noteq> -1 \<and> now - cn_last c \<ge> KEEP_ALIVE_TIMEOUT_SEC"

definition close_idle :: "int \<Rightarrow> epoll_state \<Rightarrow> epoll_state" where
  \<comment> \<open>what the loop does when nothing is ready\<close>
  "close_idle now st =
     fold (\<lambda>i st. if is_idle now (ep_conns st ! i) then drop_conn i st else st) [0..<EPOLL_MAX_CONNS] st"

definition epoll_accept :: "accepted_client option \<Rightarrow> epoll_state \<Rightarrow> epoll_state" where
  "epoll_accept ac st =
     (case ac of
        None \<Rightarrow> st
      | Some a \<Rightarrow>
          let st = st\<lparr>ep_accepted := ep_accepted st @ [ac_fd a]\<rparr>
          in case first_index conn_free (ep_conns st) of
               None \<Rightarrow> close_fd (ac_fd a) st
             | Some i \<Rightarrow>
                 let c = \<lparr>cn_fd = ac_fd a, cn_buf = [], cn_count = 0, cn_last = ac_now a,
                          cn_ip = ac_ip a, cn_port = ac_port a\<rparr>;
                     st = set_conn i c st
                 in if \<not> ac_added a then set_conn i (c\<lparr>cn_fd := -1\<rparr>) (close_fd (ac_fd a) st)
                    else st\<lparr>ep_interest := (ep_interest st)(ac_fd a \<mapsto> i),
                            ep_served := ep_served st + 1, ep_active := ep_active st + 1\<rparr>)"

subsection \<open>Reading a request\<close>

definition max_request :: "server_config option \<Rightarrow> int" where
  "max_request cfg =
     (case cfg of None \<Rightarrow> 4096
      | Some c \<Rightarrow> if cf_max_request_bytes c > 0 then cf_max_request_bytes c else 4096)"

definition http_methods :: "string list" where
  "http_methods = [''GET'', ''POST'', ''PUT'', ''DELETE'', ''HEAD'', ''OPTIONS'', ''PATCH'', ''TRACE'', ''CONNECT'']"

definition first_line_of :: "string \<Rightarrow> string" where
  "first_line_of raw = cut_at LF (cut_at CR (copy_text 512 (cstr raw)))"

definition is_http :: "string \<Rightarrow> bool" where
  \<comment> \<open>the first word of the line, cut to \<open>char first_word[16]\<close>, is a method name\<close>
  "is_http line \<longleftrightarrow> list_ex (\<lambda>m. strcmp (take 15 (cut_at SPC line)) m = 0) http_methods"

definition extract_body_copy :: "string \<Rightarrow> string" where
  \<comment> \<open>the body is copied first and stripped of line ends there; \<open>recv_buf\<close> stays as it is\<close>
  "extract_body_copy raw =
     (case strstr (cstr raw) (crlf @ crlf) of
        None \<Rightarrow> []
      | Some p \<Rightarrow> trim_newlines (copy_text 512 (drop 4 p)))"

definition has_any :: "string list \<Rightarrow> string \<Rightarrow> bool" where
  "has_any pats s \<longleftrightarrow> list_ex (\<lambda>p. strstr s p \<noteq> None) pats"

definition close_after :: "string \<Rightarrow> bool" where
  \<comment> \<open>keep-alive negotiation by searching the whole request\<close>
  "close_after raw =
     (if strstr (cstr raw) ''HTTP/1.0'' \<noteq> None
      then \<not> has_any [''Connection: keep-alive'', ''Connection: Keep-Alive'',
                      ''connection: keep-alive'', ''connection: Keep-Alive''] (cstr raw)
      else has_any [''Connection: close'', ''Connection: Close'',
                    ''connection: close'', ''connection: Close''] (cstr raw))"

definition epoll_request :: "string \<Rightarrow> request option" where
  \<comment> \<open>\<open>req\<close> as it is filled from \<open>recv_buf\<close>; \<open>None\<close> for a line without a space\<close>
  "epoll_request raw =
     (case parse_http_request_line (first_line_of raw) of
        None \<Rightarrow> None
      | Some (meth, path) \<Rightarrow>
          let req = zero_request\<lparr>rq_content_length := -1, rq_method := map toupper_c (take 15 meth),
                                 rq_path := copy_text 256 path, rq_body := extract_body_copy raw\<rparr>;
              req = note_content raw req;
              req = req\<lparr>rq_keep_alive := (if close_after raw then 0 else 1)\<rparr>
          in Some (note_authorization raw (note_cookie raw req)))"

definition epoll_route_host :: "server_config option \<Rightarrow> string \<Rightarrow> server \<Rightarrow> server" where
  "epoll_route_host cfg raw sv =
     (case scan_host raw of
        None \<Rightarrow> sv
      | Some h \<Rightarrow>
          let host = host_value h
          in if host = [] then sv
             else case cfg of
                 None \<Rightarrow> sv
               | Some c \<Rightarrow>
                   (case config_find_server (Some c) (Some host) of
                      None \<Rightarrow> sv
                    | Some i \<Rightarrow> request_handler_set_root (sb_root (cf_servers c ! i)) sv))"

subsection \<open>Responses\<close>

definition raw_answer :: "string \<Rightarrow> string" where
  "raw_answer line = ''[EpollServer] received: '' @ line @ crlf"

definition epoll_malformed :: string where
  "epoll_malformed = as_lines [''HTTP/1.1 400 BAD REQUEST'', ''Content-Type: text/plain'',
     ''Content-Length: 17'', ''Connection: close'', []] @ unlines [''400 Bad Request'']"

definition epoll_500 :: string where
  "epoll_500 = as_lines [''HTTP/1.1 500 INTERNAL SERVER ERROR'', ''Content-Type: text/plain'',
     ''Content-Length: 25'', ''Connection: close'', []] @ unlines [''500 Internal Server Error'']"

definition epoll_answer :: "env \<Rightarrow> request \<Rightarrow> server \<Rightarrow> (string \<times> server) run" where
  "epoll_answer ev req sv =
     bind_run (request_handler_process_http ev req RESP_BUF_SIZE sv)
       (\<lambda>(r, sv). Ret (case r of None \<Rightarrow> epoll_500 | Some out \<Rightarrow> out, sv))"

definition patch_close :: "string \<Rightarrow> string" where
  \<comment> \<open>\<open>memcpy(ka + 12, "close     ", 10)\<close>\<close>
  "patch_close out =
     (case strstr (cstr out) ''Connection: Keep-Alive'' of
        None \<Rightarrow> out
      | Some p \<Rightarrow> let k = length (cstr out) - length p + 12
                  in take k out @ ''close     '' @ drop (k + 10) out)"

subsection \<open>Data from a client\<close>

definition keep_conn :: "nat \<Rightarrow> epoll_state \<Rightarrow> epoll_state" where
  \<comment> \<open>\<open>recv_len = 0\<close>, \<open>memset(recv_buf, ...)\<close>\<close>
  "keep_conn i st = set_conn i ((ep_conns st ! i)\<lparr>cn_buf := []\<rparr>) st"

definition count_request :: "nat \<Rightarrow> epoll_state \<Rightarrow> epoll_state" where
  "count_request i st = set_conn i ((ep_conns st ! i)\<lparr>cn_count := cn_count (ep_conns st ! i) + 1\<rparr>) st"

definition after_send :: "nat \<Rightarrow> request \<Rightarrow> int \<Rightarrow> epoll_state \<Rightarrow> epoll_state" where
  "after_send i req sent st =
     (if sent < 0 then drop_conn i st
      else let st = count_request i st
           in if cn_count (ep_conns st ! i) \<ge> MAX_KEEP_ALIVE_REQUESTS \<or> rq_keep_alive req = 0
              then drop_conn i st else keep_conn i st)"

definition epoll_http :: "nat \<Rightarrow> client_io \<Rightarrow> string \<Rightarrow> request \<Rightarrow> epoll_state \<Rightarrow> epoll_state run" where
  \<comment> \<open>a request that has been read\<close>
  "epoll_http i io raw req st =
     bind_run (epoll_answer (ci_env io) req (epoll_route_host (ep_config st) raw (ep_server st)))
       (\<lambda>(out, sv).
         let out = (if rq_keep_alive req = 0 then patch_close out else out);
             st = send_bytes i out (ci_sent io) (st\<lparr>ep_server := sv\<rparr>)
         in Ret (after_send i req (ci_sent io) st))"

definition epoll_data :: "nat \<Rightarrow> client_io \<Rightarrow> string \<Rightarrow> epoll_state \<Rightarrow> epoll_state run" where
  \<comment> \<open>\<open>data\<close> has arrived on the connection of slot \<open>i\<close>\<close>
  "epoll_data i io data st =
     (let c = ep_conns st ! i;
          raw = cn_buf c @ take (RECV_BUF_SIZE - length (cn_buf c) - 1) data;
          st = set_conn i (c\<lparr>cn_buf := raw, cn_last := ev_now (ci_env io)\<rparr>) st;
          line = first_line_of raw
      in if int (length raw) > max_request (ep_config st)
         then Ret (drop_conn i (send_bytes i (ci_413 io) (ci_sent io) st))
         else if \<not> is_http line
         then Ret (count_request i (keep_conn i (send_bytes i (raw_answer line) (ci_sent io) st)))
         else case epoll_request raw of
             None \<Rightarrow> Ret (drop_conn i (send_bytes i epoll_malformed (ci_sent io) st))
           | Some req \<Rightarrow> epoll_http i io raw req st)"

definition epoll_client :: "nat \<Rightarrow> client_io \<Rightarrow> epoll_state \<Rightarrow> epoll_state run" where
  "epoll_client i io st =
     (case ci_recv io of
        Data d \<Rightarrow> epoll_data i io d st
      | _ \<Rightarrow> Ret (drop_conn i st))"

subsection \<open>The loop\<close>

fun epoll_event_step :: "epoll_event \<Rightarrow> epoll_state \<Rightarrow> epoll_state run" where
  "epoll_event_step Listen_Hangup st = Ret st"
| "epoll_event_step (Client_Hangup i) st = Ret (drop_conn i st)"
| "epoll_event_step (Listen_Ready ac) st = Ret (epoll_accept ac st)"
| "epoll_event_step (Client_Ready i io) st = epoll_client i io st"

definition epoll_shutdown :: "epoll_state \<Rightarrow> epoll_state" where
  \<comment> \<open>the loop has been left: close what is still open\<close>
  "epoll_shutdown st =
     (fold (\<lambda>i st. if cn_fd (ep_conns st ! i) \<noteq> -1 then drop_conn i st else st)
        [0..<EPOLL_MAX_CONNS] st)\<lparr>ep_stopped := True\<rparr>"

fun event_slot :: "epoll_event \<Rightarrow> nat option" where
  "event_slot Listen_Hangup = None"
| "event_slot (Listen_Ready _) = None"
| "event_slot (Client_Hangup i) = Some i"
| "event_slot (Client_Ready i _) = Some i"

definition slots_of :: "epoll_event list \<Rightarrow> nat list" where
  "slots_of evs = List.map_filter event_slot evs"

definition batch_ok :: "epoll_event list \<Rightarrow> epoll_state \<Rightarrow> bool" where
  \<comment> \<open>what \<open>epoll_wait\<close> gives: at most one event per descriptor of the interest list\<close>
  "batch_ok evs st \<longleftrightarrow> evs \<noteq> [] \<and> length evs \<le> EPOLL_MAX_EVENTS \<and> distinct (slots_of evs)
     \<and> (\<forall>i \<in> set (slots_of evs). \<exists>fd. ep_interest st fd = Some i)"

fun fresh_fd :: "epoll_event \<Rightarrow> epoll_state \<Rightarrow> bool" where
  \<comment> \<open>what \<open>accept\<close> gives: a descriptor that is not in use\<close>
  "fresh_fd (Listen_Ready (Some a)) st \<longleftrightarrow> 0 \<le> ac_fd a \<and> ac_fd a \<notin># live (ep_conns st)"
| "fresh_fd _ st \<longleftrightarrow> True"

inductive epoll_step :: "epoll_state \<Rightarrow> epoll_state \<Rightarrow> bool" where
  wait: "\<not> ep_stopped st \<Longrightarrow> ep_ready st = [] \<Longrightarrow> batch_ok evs st
    \<Longrightarrow> epoll_step st (st\<lparr>ep_ready := evs\<rparr>)"
| time_out: "\<not> ep_stopped st \<Longrightarrow> ep_ready st = [] \<Longrightarrow> epoll_step st (close_idle now st)"
| event: "\<not> ep_stopped st \<Longrightarrow> ep_ready st = e # es \<Longrightarrow> fresh_fd e st
    \<Longrightarrow> epoll_event_step e (st\<lparr>ep_ready := es\<rparr>) = Ret st' \<Longrightarrow> epoll_step st st'"
| leave: "\<not> ep_stopped st \<Longrightarrow> ep_ready st = [] \<Longrightarrow> epoll_step st (epoll_shutdown st)"

subsection \<open>Starting and ending the server\<close>

record startup =
  \<comment> \<open>what the calls before the loop return; \<open>su_junk\<close> is what the local variable \<open>epfd\<close> holds before
    it is assigned, \<open>su_worker\<close> the socket that a worker inherits\<close>
  su_alloc :: bool
  su_socket :: int
  su_reuse :: bool
  su_address :: bool
  su_bind :: bool
  su_listen :: bool
  su_epoll :: int
  su_add :: bool
  su_junk :: int
  su_worker :: "int option"

definition epoll_cleanup :: "startup \<Rightarrow> int \<Rightarrow> int \<Rightarrow> int \<Rightarrow> int list" where
  \<comment> \<open>the descriptors closed behind the label \<open>cleanup\<close>\<close>
  "epoll_cleanup su ret listen_fd epfd =
     (if ret = -1 \<and> 0 \<le> listen_fd \<and> su_worker su = None then [listen_fd] else [])
     @ (if 0 \<le> epfd then [epfd] else [])"

definition open_listener :: "startup \<Rightarrow> int list + int" where
  \<comment> \<open>the listening socket, or the descriptors closed by a failed start\<close>
  "open_listener su =
     (case su_worker su of
        Some fd \<Rightarrow> Inr fd
      | None \<Rightarrow>
          if su_socket su < 0 \<or> \<not> (su_reuse su \<and> su_address su \<and> su_bind su \<and> su_listen su)
          then Inl (epoll_cleanup su (-1) (su_socket su) (su_junk su))
          else Inr (su_socket su))"

definition epoll_begin :: "startup \<Rightarrow> int list + int \<times> int" where
  \<comment> \<open>the listening socket and the epoll instance\<close>
  "epoll_begin su =
     (if \<not> su_alloc su then Inl []
      else case open_listener su of
          Inl closed \<Rightarrow> Inl closed
        | Inr fd \<Rightarrow>
            if su_epoll su < 0 \<or> \<not> su_add su then Inl (epoll_cleanup su (-1) fd (su_epoll su))
            else Inr (fd, su_epoll su))"

definition epoll_finish :: "startup \<Rightarrow> int \<Rightarrow> int \<Rightarrow> int list" where
  \<comment> \<open>the descriptors closed after the connections, up to the return of 0\<close>
  "epoll_finish su listen_fd epfd =
     (if su_worker su = None then [listen_fd] else []) @ [epfd] @ epoll_cleanup su 0 listen_fd epfd"

inductive epoll_server_run :: "startup \<Rightarrow> server_config option \<Rightarrow> server \<Rightarrow> int \<times> int list \<Rightarrow> epoll_state \<Rightarrow> bool" where
  \<comment> \<open>the return value, the descriptors closed beside those of clients, and the state at the end\<close>
  refused: "epoll_begin su = Inl closed \<Longrightarrow> epoll_server_run su cfg sv (-1, closed) (epoll_start cfg sv)"
| served: "epoll_begin su = Inr (fd, epfd) \<Longrightarrow> epoll_step\<^sup>*\<^sup>* (epoll_start cfg sv) st \<Longrightarrow> ep_stopped st
    \<Longrightarrow> epoll_server_run su cfg sv (0, epoll_finish su fd epfd) st"

definition epoll_server_worker_run ::
    "int \<Rightarrow> startup \<Rightarrow> server_config option \<Rightarrow> server \<Rightarrow> int \<times> int list \<Rightarrow> epoll_state \<Rightarrow> bool" where
  "epoll_server_worker_run listen_fd su = epoll_server_run (su\<lparr>su_worker := Some listen_fd\<rparr>)"

end
