(* ===== verification/Epoll_Server_Correct.thy ===== *)
theory Epoll_Server_Correct
  imports Epoll_Server
begin

text \<open>
  What the event loop keeps true under every order of events: the counter of active connections,
  the interest list and the descriptors in the table agree, no bytes of an earlier request are
  left in a buffer, and every descriptor that \<open>accept\<close> gave is open in the table or was closed
  once.  After the shutdown none is open.
\<close>

subsection \<open>The connection table\<close>

abbreviation is_live :: "nat \<Rightarrow> epoll_state \<Rightarrow> bool" where
  "is_live i st \<equiv> i < EPOLL_MAX_CONNS \<and> cn_fd (ep_conns st ! i) \<noteq> -1"

definition conn_ok :: "epoll_state \<Rightarrow> nat \<Rightarrow> bool" where
  "conn_ok st i \<longleftrightarrow> (is_live i st \<longrightarrow> 0 \<le> cn_fd (ep_conns st ! i)
     \<and> ep_interest st (cn_fd (ep_conns st ! i)) = Some i)"

definition bufs_ok :: "epoll_state \<Rightarrow> bool" where
  "bufs_ok st \<longleftrightarrow> (\<forall>i. is_live i st \<longrightarrow> cn_buf (ep_conns st ! i) = [])"

definition interest_ok :: "epoll_state \<Rightarrow> int \<Rightarrow> bool" where
  "interest_ok st fd \<longleftrightarrow> (case ep_interest st fd of None \<Rightarrow> True
     | Some i \<Rightarrow> is_live i st \<and> cn_fd (ep_conns st ! i) = fd)"

definition table_ok :: "epoll_state \<Rightarrow> bool" where
  "table_ok st \<longleftrightarrow> length (ep_conns st) = EPOLL_MAX_CONNS \<and> (\<forall>i. conn_ok st i) \<and> (\<forall>fd. interest_ok st fd)
     \<and> ep_active st = int (size (live (ep_conns st)))"

definition ready_ok :: "epoll_state \<Rightarrow> bool" where
  "ready_ok st \<longleftrightarrow> distinct (slots_of (ep_ready st))
     \<and> (\<forall>i \<in> set (slots_of (ep_ready st)). i < EPOLL_MAX_CONNS \<and> cn_fd (ep_conns st ! i) \<noteq> -1)"

definition epoll_inv :: "epoll_state \<Rightarrow> bool" where
  "epoll_inv st \<longleftrightarrow> table_ok st \<and> bufs_ok st \<and> ready_ok st \<and> (ep_stopped st \<longrightarrow> live (ep_conns st) = {#})"

definition epoll_ledger :: "epoll_state \<Rightarrow> ledger" where
  "epoll_ledger st = \<lparr>ld_open = live (ep_conns st), ld_accepted = mset (ep_accepted st),
     ld_closed = mset (ep_closed st)\<rparr>"

lemma table_okD:
  assumes "table_ok st"
  shows "length (ep_conns st) = EPOLL_MAX_CONNS"
    and "is_live i st \<Longrightarrow> 0 \<le> cn_fd (ep_conns st ! i)"
    and "is_live i st \<Longrightarrow> ep_interest st (cn_fd (ep_conns st ! i)) = Some i"
    and "ep_interest st fd = Some i \<Longrightarrow> is_live i st \<and> cn_fd (ep_conns st ! i) = fd"
    and "ep_active st = int (size (live (ep_conns st)))"
proof -
  have "conn_ok st i" "interest_ok st fd" using assms by (simp_all add: table_ok_def)
  then show "is_live i st \<Longrightarrow> 0 \<le> cn_fd (ep_conns st ! i)"
    and "is_live i st \<Longrightarrow> ep_interest st (cn_fd (ep_conns st ! i)) = Some i"
    and "ep_interest st fd = Some i \<Longrightarrow> is_live i st \<and> cn_fd (ep_conns st ! i) = fd"
    unfolding conn_ok_def interest_ok_def by simp_all
qed (use assms in \<open>simp_all add: table_ok_def\<close>)

lemma live_fds_differ:
  "table_ok st \<Longrightarrow> is_live i st \<Longrightarrow> is_live j st \<Longrightarrow> cn_fd (ep_conns st ! i) = cn_fd (ep_conns st ! j)
    \<Longrightarrow> i = j"
  using table_okD(3) [of st i] table_okD(3) [of st j] by (metis option.inject)

lemma not_live_free:
  assumes "table_ok st" and "fd \<notin># live (ep_conns st)"
  shows "is_live i st \<Longrightarrow> cn_fd (ep_conns st ! i) \<noteq> fd" and "ep_interest st fd = None"
proof -
  show other: "cn_fd (ep_conns st ! i) \<noteq> fd" if "is_live i st" for i
    using that assms(2) live_elem [of i "ep_conns st"] table_okD(1) [OF assms(1)] by auto
  show "ep_interest st fd = None"
    using other table_okD(4) [OF assms(1), of fd] by (cases "ep_interest st fd") auto
qed

text \<open>Dropping a connection.\<close>

lemma drop_conn_fields [simp]:
  "ep_ready (drop_conn i st) = ep_ready st" "ep_accepted (drop_conn i st) = ep_accepted st"
  "ep_stopped (drop_conn i st) = ep_stopped st" "ep_config (drop_conn i st) = ep_config st"
  "ep_conns (drop_conn i st) = (ep_conns st)[i := (ep_conns st ! i)\<lparr>cn_fd := -1\<rparr>]"
  "ep_active (drop_conn i st) = ep_active st - 1"
  "ep_interest (drop_conn i st) = (ep_interest st)(cn_fd (ep_conns st ! i) := None)"
  by (simp_all add: drop_conn_def safe_close_def close_fd_def epoll_ctl_del_def set_conn_def Let_def)

lemma drop_conn_closed:
  "0 \<le> cn_fd (ep_conns st ! i) \<Longrightarrow> ep_closed (drop_conn i st) = ep_closed st @ [cn_fd (ep_conns st ! i)]"
  by (simp add: drop_conn_def safe_close_def close_fd_def epoll_ctl_del_def set_conn_def Let_def)

lemma live_drop_conn:
  assumes "table_ok st" and "is_live i st"
  shows "live (ep_conns st) = add_mset (cn_fd (ep_conns st ! i)) (live (ep_conns (drop_conn i st)))"
  using live_drop [of i "ep_conns st" "(ep_conns st ! i)\<lparr>cn_fd := -1\<rparr>"] assms table_okD(1) [OF assms(1)]
  by (simp add: conn_free_def)

lemma table_ok_drop:
  assumes ok: "table_ok st" and i: "is_live i st"
  shows "table_ok (drop_conn i st)"
proof -
  note fields = table_okD [OF ok]
  let ?fd = "cn_fd (ep_conns st ! i)" and ?cs = "(ep_conns st)[i := (ep_conns st ! i)\<lparr>cn_fd := -1\<rparr>]"
  have conn: "?cs ! j = (if j = i then (ep_conns st ! i)\<lparr>cn_fd := -1\<rparr> else ep_conns st ! j)" for j
    using fields(1) i by simp
  have other: "cn_fd (ep_conns st ! j) \<noteq> ?fd" if "is_live j st" "j \<noteq> i" for j
    using live_fds_differ [OF ok that(1) i] that(2) by blast
  have cs: "ep_conns (drop_conn i st) = ?cs" by simp
  have "conn_ok (drop_conn i st) j" for j
  proof (cases "is_live j (drop_conn i st)")
    case True
    then have "j \<noteq> i" unfolding cs conn by (auto split: if_splits)
    moreover from this have j: "is_live j st" using True unfolding cs conn by simp
    ultimately show ?thesis
      using other [OF j] fields(2,3) [OF j] unfolding conn_ok_def cs conn by simp
  qed (auto simp: conn_ok_def)
  moreover have "interest_ok (drop_conn i st) fd" for fd
  proof (cases "fd = ?fd")
    case False
    then show ?thesis
      using fields(4) [of fd] unfolding interest_ok_def cs conn by (auto split: option.splits)
  qed (simp add: interest_ok_def)
  moreover have "ep_active st - 1 = int (size (live ?cs))"
    using live_drop_conn [OF assms] fields(5) unfolding cs by simp
  moreover have "length ?cs = EPOLL_MAX_CONNS" using fields(1) by simp
  moreover have "ep_active (drop_conn i st) = ep_active st - 1" by simp
  ultimately show ?thesis unfolding table_ok_def cs by auto
qed

lemma drop_move:
  assumes "table_ok st" and "is_live i st"
  shows "ledger_move (epoll_ledger st) (epoll_ledger (drop_conn i st))"
proof -
  have "ledger_move (epoll_ledger st)
      ((epoll_ledger st)\<lparr>ld_open := live (ep_conns (drop_conn i st)),
         ld_closed := add_mset (cn_fd (ep_conns st ! i)) (ld_closed (epoll_ledger st))\<rparr>)"
    using live_drop_conn [OF assms] by (intro discharge) (simp add: epoll_ledger_def)
  then show ?thesis
    using drop_conn_closed [of st i] table_okD(2) [OF assms] by (simp add: epoll_ledger_def)
qed

lemma fold_drops:
  assumes "table_ok st" and "\<And>i st. P i st \<Longrightarrow> cn_fd (ep_conns st ! i) \<noteq> -1"
    and "set is \<subseteq> {..<EPOLL_MAX_CONNS}"
  defines "st' \<equiv> fold (\<lambda>i st. if P i st then drop_conn i st else st) is st"
  shows "table_ok st' \<and> ledger_move\<^sup>*\<^sup>* (epoll_ledger st) (epoll_ledger st')
    \<and> ep_ready st' = ep_ready st \<and> ep_stopped st' = ep_stopped st"
  using assms(1,3) unfolding st'_def
proof (induction "is" arbitrary: st)
  case (Cons i "is")
  show ?case
  proof (cases "P i st")
    case True
    then have i: "is_live i st" using assms(2) Cons.prems(2) by simp
    have "table_ok (drop_conn i st)" by (rule table_ok_drop [OF Cons.prems(1) i])
    from Cons.IH [OF this] Cons.prems(2) True drop_move [OF Cons.prems(1) i]
    show ?thesis by (auto intro: converse_rtranclp_into_rtranclp)
  next
    case False
    then show ?thesis using Cons.IH [OF Cons.prems(1)] Cons.prems(2) by simp
  qed
qed simp

lemma table_ok_cong:
  assumes "ep_conns st' = ep_conns st" "ep_interest st' = ep_interest st" "ep_active st' = ep_active st"
  shows "table_ok st' = table_ok st"
  unfolding table_ok_def conn_ok_def interest_ok_def assms by (rule refl)


lemma bufs_ok_drop: "i < length (ep_conns st) \<Longrightarrow> (\<And>j. is_live j st \<Longrightarrow> j \<noteq> i \<Longrightarrow> cn_buf (ep_conns st ! j) = []) \<Longrightarrow> bufs_ok (drop_conn i st)"
  unfolding bufs_ok_def by (auto simp: nth_list_update split: if_splits)

lemma bufs_ok_fold_drops:
  "bufs_ok st \<Longrightarrow> set is \<subseteq> {..<length (ep_conns st)}
    \<Longrightarrow> bufs_ok (fold (\<lambda>i st. if P i st then drop_conn i st else st) is st)"
proof (induction "is" arbitrary: st)
  case (Cons i "is")
  have "bufs_ok (drop_conn i st)" by (rule bufs_ok_drop) (use Cons.prems in \<open>auto simp: bufs_ok_def\<close>)
  then show ?case using Cons by simp
qed simp

subsection \<open>Steps that leave the descriptors alone\<close>

definition touches :: "nat \<Rightarrow> epoll_state \<Rightarrow> epoll_state \<Rightarrow> bool" where
  "touches i st st' \<longleftrightarrow> (\<exists>c. ep_conns st' = (ep_conns st)[i := c] \<and> cn_fd c = cn_fd (ep_conns st ! i))
     \<and> ep_interest st' = ep_interest st \<and> ep_active st' = ep_active st \<and> ep_accepted st' = ep_accepted st
     \<and> ep_closed st' = ep_closed st \<and> ep_ready st' = ep_ready st \<and> ep_stopped st' = ep_stopped st"

lemma touches_refl [simp]: "touches i st st"
  unfolding touches_def by (auto intro: exI [of _ "ep_conns st ! i"])

lemma touches_trans:
  assumes "touches i s t" and "touches i t u"
  shows "touches i s u"
proof (cases "i < length (ep_conns s)")
  case True
  then show ?thesis using assms unfolding touches_def by auto
next
  case False
  then show ?thesis using assms unfolding touches_def by (auto simp: list_update_beyond)
qed

lemma touches_set_conn: "cn_fd c = cn_fd (ep_conns st ! i) \<Longrightarrow> touches i st (set_conn i c st)"
  unfolding touches_def set_conn_def by auto

lemma touches_send: "touches i st (send_bytes j out sent st)"
  unfolding touches_def send_bytes_def by (auto intro: exI [of _ "ep_conns st ! i"])

lemma touches_server: "touches i st (st\<lparr>ep_server := sv\<rparr>)"
  unfolding touches_def by (auto intro: exI [of _ "ep_conns st ! i"])

lemma touches_keep: "touches i st (keep_conn i st)"
  unfolding keep_conn_def by (rule touches_set_conn) simp

lemma touches_count: "touches i st (count_request i st)"
  unfolding count_request_def by (rule touches_set_conn) simp

lemma touches_conn:
  assumes "touches i st st'" and "length (ep_conns st) = EPOLL_MAX_CONNS"
  shows "cn_fd (ep_conns st' ! j) = cn_fd (ep_conns st ! j)" and "live (ep_conns st') = live (ep_conns st)"
    and "j \<noteq> i \<Longrightarrow> ep_conns st' ! j = ep_conns st ! j" and "length (ep_conns st') = EPOLL_MAX_CONNS"
proof -
  obtain c where c: "ep_conns st' = (ep_conns st)[i := c]" "cn_fd c = cn_fd (ep_conns st ! i)"
    using assms(1) unfolding touches_def by blast
  show "cn_fd (ep_conns st' ! j) = cn_fd (ep_conns st ! j)"
    using c by (cases "i < length (ep_conns st)"; cases "j = i") (auto simp: list_update_beyond)
  show "live (ep_conns st') = live (ep_conns st)"
    using c live_keep [of i "ep_conns st" c] by (cases "i < length (ep_conns st)") (auto simp: list_update_beyond)
  show "j \<noteq> i \<Longrightarrow> ep_conns st' ! j = ep_conns st ! j" "length (ep_conns st') = EPOLL_MAX_CONNS"
    using c assms(2) by simp_all
qed

lemma touches_table:
  assumes "touches i st st'" and "table_ok st"
  shows "table_ok st'" and "epoll_ledger st' = epoll_ledger st"
proof -
  have len: "length (ep_conns st) = EPOLL_MAX_CONNS" by (rule table_okD(1) [OF assms(2)])
  note conns = touches_conn [OF assms(1) len]
  have eqs: "ep_interest st' = ep_interest st" "ep_active st' = ep_active st"
      "ep_accepted st' = ep_accepted st" "ep_closed st' = ep_closed st"
    using assms(1) unfolding touches_def by blast+
  show "table_ok st'" using assms(2)
    unfolding table_ok_def conn_ok_def interest_ok_def eqs conns(1,2,4) len .
  show "epoll_ledger st' = epoll_ledger st"
    unfolding epoll_ledger_def eqs conns(2) by (rule refl)
qed

subsection \<open>One event\<close>

definition settled :: "nat option \<Rightarrow> epoll_state \<Rightarrow> epoll_state \<Rightarrow> bool" where
  \<comment> \<open>an event of this slot has been dealt with\<close>
  "settled slot st st' \<longleftrightarrow> table_ok st' \<and> bufs_ok st' \<and> ledger_move\<^sup>*\<^sup>* (epoll_ledger st) (epoll_ledger st')
     \<and> ep_ready st' = ep_ready st \<and> ep_stopped st' = ep_stopped st
     \<and> (\<forall>j. is_live j st \<longrightarrow> slot \<noteq> Some j \<longrightarrow> is_live j st')"

lemma settled_drop:
  assumes "table_ok st" "bufs_ok st" "is_live i st" "touches i st st'"
  shows "settled (Some i) st (drop_conn i st')"
proof -
  note len = table_okD(1) [OF assms(1)]
  note conns = touches_conn [OF assms(4) len] and tab = touches_table [OF assms(4,1)]
  have i: "is_live i st'" using assms(3) conns(1) by simp
  have "bufs_ok (drop_conn i st')"
    by (rule bufs_ok_drop) (use assms(2) i conns(1,3,4) in \<open>auto simp: bufs_ok_def\<close>)
  moreover have "is_live j (drop_conn i st')" if "is_live j st" "i \<noteq> j" for j
    using that conns(1) [of j] conns(4) by simp
  moreover have "ep_ready st' = ep_ready st \<and> ep_stopped st' = ep_stopped st"
    using assms(4) unfolding touches_def by blast
  ultimately show ?thesis
    using table_ok_drop [OF tab(1) i] drop_move [OF tab(1) i] tab(2) by (auto simp: settled_def)
qed

lemma settled_keep:
  assumes "table_ok st" "bufs_ok st" "touches i st st'" "cn_buf (ep_conns st' ! i) = []"
  shows "settled (Some i) st st'"
proof -
  note len = table_okD(1) [OF assms(1)]
  note conns = touches_conn [OF assms(3) len] and tab = touches_table [OF assms(3,1)]
  have "bufs_ok st'" using assms(2,4) conns(1,3) unfolding bufs_ok_def by metis
  moreover have "ep_ready st' = ep_ready st \<and> ep_stopped st' = ep_stopped st"
    using assms(3) unfolding touches_def by blast
  ultimately show ?thesis using tab conns(1) by (simp add: settled_def)
qed

lemma keep_conn_buf: "i < length (ep_conns st) \<Longrightarrow> cn_buf (ep_conns (keep_conn i st) ! i) = []"
  by (simp add: keep_conn_def set_conn_def)

lemma count_keep_buf: "i < length (ep_conns st) \<Longrightarrow> cn_buf (ep_conns (count_request i (keep_conn i st)) ! i) = []"
  by (simp add: count_request_def keep_conn_def set_conn_def)

lemmas touch_rules = touches_refl touches_set_conn touches_send touches_server touches_keep touches_count

lemma settled_after_send:
  assumes "table_ok st" "bufs_ok st" "is_live i st" "touches i st st1"
  shows "settled (Some i) st (after_send i req sent st1)"
proof -
  have t: "touches i st (count_request i st1)" by (rule touches_trans [OF assms(4) touches_count])
  have len: "i < length (ep_conns (count_request i st1))"
    using touches_conn(4) [OF t table_okD(1) [OF assms(1)]] assms(3) by simp
  show ?thesis
    using settled_drop [OF assms] settled_drop [OF assms(1-3) t]
      settled_keep [OF assms(1,2) touches_trans [OF t touches_keep] keep_conn_buf [OF len]]
    by (simp add: after_send_def Let_def)
qed

lemma settled_data:
  assumes "table_ok st" "bufs_ok st" "is_live i st" "epoll_data i io data st = Ret st'"
  shows "settled (Some i) st st'"
proof -
  let ?c = "ep_conns st ! i"
  define raw where "raw = cn_buf ?c @ take (RECV_BUF_SIZE - length (cn_buf ?c) - 1) data"
  define s where "s = set_conn i (?c\<lparr>cn_buf := raw, cn_last := ev_now (ci_env io)\<rparr>) st"
  have s: "touches i st s" unfolding s_def by (rule touches_set_conn) simp
  have sent: "touches i st (send_bytes i out (ci_sent io) s)" for out
    by (rule touches_trans [OF s touches_send])
  have len: "i < length (ep_conns (send_bytes i out (ci_sent io) s))" for out
    using touches_conn(4) [OF sent table_okD(1) [OF assms(1)]] assms(3) by simp
  have raw_kept: "settled (Some i) st (count_request i (keep_conn i (send_bytes i out (ci_sent io) s)))" for out
    by (rule settled_keep [OF assms(1,2) touches_trans [OF touches_trans [OF sent touches_keep] touches_count]
          count_keep_buf [OF len]])
  have http: "settled (Some i) st st'" if h: "epoll_http i io raw req s = Ret st'" for req
  proof -
    obtain out sv where "st' = after_send i req (ci_sent io) (send_bytes i out (ci_sent io) (s\<lparr>ep_server := sv\<rparr>))"
      using h by (auto simp: epoll_http_def Let_def bind_run_Ret_iff split: prod.splits)
    then show ?thesis
      using settled_after_send [OF assms(1-3) touches_trans [OF touches_trans [OF s touches_server] touches_send]]
      by simp
  qed
  show ?thesis
    using assms(4) settled_drop [OF assms(1-3) sent] raw_kept http
    unfolding epoll_data_def Let_def raw_def [symmetric] s_def [symmetric]
    by (auto split: if_splits option.splits)
qed

lemma table_ok_admit:
  assumes ok: "table_ok st" and fd: "0 \<le> fd" "fd \<notin># live (ep_conns st)"
    and i: "i < EPOLL_MAX_CONNS" "conn_free (ep_conns st ! i)" and c: "cn_fd c = fd"
    and st': "ep_conns st' = (ep_conns st)[i := c]" "ep_interest st' = (ep_interest st)(fd \<mapsto> i)"
      "ep_active st' = ep_active st + 1"
  shows "table_ok st'"
proof -
  note free = not_live_free [OF ok fd(2)] and fields = table_okD [OF ok]
  have conn: "ep_conns st' ! j = (if j = i then c else ep_conns st ! j)" for j
    using fields(1) i st'(1) by simp
  have "conn_ok st' j" for j
  proof (cases "j = i \<or> \<not> is_live j st")
    case True
    then show ?thesis using fd(1) unfolding conn_ok_def conn st'(2) by (auto simp: c)
  next
    case False
    then show ?thesis using fields(2,3) [of j] free(1) [of j] unfolding conn_ok_def conn st'(2) by auto
  qed
  moreover have "interest_ok st' f" for f
  proof (cases "ep_interest st f")
    case (Some j)
    have "is_live j st \<and> cn_fd (ep_conns st ! j) = f" by (rule fields(4) [OF Some])
    then show ?thesis
      using Some free i fd(1) unfolding interest_ok_def conn st'(2) by (auto simp: conn_free_def c)
  next
    case None
    then show ?thesis using i fd(1) unfolding interest_ok_def conn st'(2) by (simp add: c)
  qed
  moreover have "live (ep_conns st') = add_mset fd (live (ep_conns st))"
    unfolding st' using live_claim [of i "ep_conns st" c fd] i c fd(1) fields(1) by simp
  ultimately show ?thesis using st'(3) fields(1,5) by (simp add: table_ok_def st'(1))
qed

lemma table_ok_idle_slot:
  assumes ok: "table_ok st" and i: "i < EPOLL_MAX_CONNS" "conn_free (ep_conns st ! i)" and c: "cn_fd c = -1"
    and st': "ep_conns st' = (ep_conns st)[i := c]" "ep_interest st' = ep_interest st"
      "ep_active st' = ep_active st"
  shows "table_ok st'"
proof -
  have "touches i st (st'\<lparr>ep_accepted := ep_accepted st, ep_closed := ep_closed st, ep_ready := ep_ready st,
      ep_stopped := ep_stopped st\<rparr>)"
    using c i(2) st' unfolding touches_def by (auto simp: conn_free_def)
  from touches_table(1) [OF this ok] show ?thesis
    by (rule iffD1 [OF table_ok_cong, rotated -1]) simp_all
qed

lemma settled_accept:
  assumes ok: "table_ok st" and bufs: "bufs_ok st" and fresh: "fresh_fd (Listen_Ready ac) st"
  shows "settled None st (epoll_accept ac st)"
proof (cases ac)
  case None
  then show ?thesis using ok bufs by (simp add: settled_def epoll_accept_def)
next
  case (Some a)
  define fd where "fd = ac_fd a"
  have fd: "0 \<le> fd" "fd \<notin># live (ep_conns st)" using fresh Some by (simp_all add: fd_def)
  note free = not_live_free [OF ok fd(2)] and fields = table_okD [OF ok]
  have away: "ledger_move (epoll_ledger st) (epoll_ledger st\<lparr>ld_accepted := add_mset fd (mset (ep_accepted st)),
      ld_closed := add_mset fd (mset (ep_closed st))\<rparr>)"
    using turn_away [of "epoll_ledger st" fd] by (simp add: epoll_ledger_def)
  have same: "(ep_interest st)(fd := None) = ep_interest st" using free(2) by auto
  let ?st' = "epoll_accept ac st"
  show ?thesis
  proof (cases "first_index conn_free (ep_conns st)")
    case None
    then have st': "?st' = st\<lparr>ep_accepted := ep_accepted st @ [fd], ep_closed := ep_closed st @ [fd]\<rparr>"
      using Some same by (simp add: epoll_accept_def close_fd_def fd_def)
    have "table_ok ?st'" using ok by (rule iffD2 [OF table_ok_cong, rotated -1]) (simp_all add: st')
    then show ?thesis using bufs away
      by (simp add: settled_def bufs_ok_def epoll_ledger_def st' r_into_rtranclp)
  next
    case slot: (Some i)
    then have i: "i < EPOLL_MAX_CONNS" "conn_free (ep_conns st ! i)"
      using first_index_Some fields(1) by fastforce+
    define c where "c = \<lparr>cn_fd = fd, cn_buf = [], cn_count = 0, cn_last = ac_now a, cn_ip = ac_ip a, cn_port = ac_port a\<rparr>"
    have c: "cn_fd c = fd" "cn_buf c = []" by (simp_all add: c_def)
    have others: "cn_fd ((ep_conns st)[i := x] ! j) \<noteq> -1" if "is_live j st" for j x
    proof -
      have "j \<noteq> i" using that i(2) by (auto simp: conn_free_def)
      then show ?thesis using that by simp
    qed
    show ?thesis
    proof (cases "ac_added a")
      case True
      then have st': "?st' = st\<lparr>ep_accepted := ep_accepted st @ [fd], ep_conns := (ep_conns st)[i := c],
          ep_interest := (ep_interest st)(fd \<mapsto> i), ep_served := ep_served st + 1, ep_active := ep_active st + 1\<rparr>"
        using Some slot by (simp add: epoll_accept_def set_conn_def fd_def c_def)
      have "table_ok ?st'" by (rule table_ok_admit [OF ok fd i c(1)]) (simp_all add: st')
      moreover have "bufs_ok ?st'"
        using bufs c(2) i(1) fields(1) unfolding bufs_ok_def by (simp add: st' nth_list_update)
      moreover have "ledger_move (epoll_ledger st) (epoll_ledger ?st')"
        using admit [of "epoll_ledger st" fd] live_claim [of i "ep_conns st" c fd] i fd(1) fields(1) c(1)
        by (simp add: epoll_ledger_def st')
      ultimately show ?thesis
        using others by (auto simp: settled_def st' intro: r_into_rtranclp)
    next
      case False
      let ?c = "c\<lparr>cn_fd := -1\<rparr>"
      have st': "?st' = st\<lparr>ep_accepted := ep_accepted st @ [fd], ep_conns := (ep_conns st)[i := ?c],
          ep_closed := ep_closed st @ [fd]\<rparr>"
        using Some slot False same by (simp add: epoll_accept_def set_conn_def close_fd_def fd_def c_def)
      have "table_ok ?st'" by (rule table_ok_idle_slot [OF ok i]) (simp_all add: st')
      moreover have "bufs_ok ?st'"
        using bufs i(1) fields(1) unfolding bufs_ok_def by (simp add: st' nth_list_update)
      moreover have "live ((ep_conns st)[i := ?c]) = live (ep_conns st)"
        by (rule live_keep) (use i fields(1) in \<open>simp_all add: conn_free_def\<close>)
      ultimately show ?thesis
        using others away by (auto simp: settled_def st' epoll_ledger_def intro: r_into_rtranclp)
    qed
  qed
qed

lemma settled_event:
  assumes "table_ok st" "bufs_ok st" "fresh_fd e st" "epoll_event_step e st = Ret st'"
    and "\<And>i. event_slot e = Some i \<Longrightarrow> is_live i st"
  shows "settled (event_slot e) st st'"
proof (cases e)
  case Listen_Hangup
  then show ?thesis using assms by (simp add: settled_def)
next
  case (Listen_Ready ac)
  then show ?thesis using assms settled_accept [OF assms(1,2), of ac] by simp
next
  case (Client_Hangup i)
  then have "is_live i st" using assms(5) by simp
  from settled_drop [OF assms(1,2) this touches_refl] show ?thesis
    using Client_Hangup assms(4) by simp
next
  case (Client_Ready i io)
  then have i: "is_live i st" using assms(5) by simp
  show ?thesis
    using assms(4) Client_Ready settled_data [OF assms(1,2) i] settled_drop [OF assms(1,2) i touches_refl]
    by (auto simp: epoll_client_def split: received.splits)
qed

subsection \<open>Every step\<close>

lemma slots_of_simps [simp]:
  "slots_of [] = []"
  "slots_of (e # es) = (case event_slot e of None \<Rightarrow> slots_of es | Some i \<Rightarrow> i # slots_of es)"
  by (simp_all add: slots_of_def List.map_filter_simps split: option.split)

lemma all_indices: "set [0..<EPOLL_MAX_CONNS] \<subseteq> {..<EPOLL_MAX_CONNS}"
  by auto

lemma epoll_start_inv: "epoll_inv (epoll_start cfg sv) \<and> epoll_ledger (epoll_start cfg sv) = empty_ledger"
proof -
  have free: "live (replicate EPOLL_MAX_CONNS free_conn) = {#}"
    by (rule live_all_free) (simp add: conn_free_def free_conn_def)
  then show ?thesis
    by (simp add: epoll_inv_def table_ok_def conn_ok_def interest_ok_def bufs_ok_def ready_ok_def
        epoll_ledger_def empty_ledger_def epoll_start_def free_conn_def)
qed

lemma shutdown_all_free:
  assumes "length (ep_conns st) = EPOLL_MAX_CONNS"
  shows "live (ep_conns (epoll_shutdown st)) = {#}"
proof -
  let ?f = "\<lambda>i st. if cn_fd (ep_conns st ! i) \<noteq> -1 then drop_conn i st else st"
  have "length (ep_conns (fold ?f [0..<n] st)) = EPOLL_MAX_CONNS
      \<and> (\<forall>i<n. cn_fd (ep_conns (fold ?f [0..<n] st) ! i) = -1)" if "n \<le> EPOLL_MAX_CONNS" for n
    using that
  proof (induction n)
    case (Suc n)
    then show ?case by (auto simp: nth_list_update less_Suc_eq)
  qed (use assms in simp)
  from this [of EPOLL_MAX_CONNS] show ?thesis
    by (intro live_all_free) (auto simp: epoll_shutdown_def conn_free_def in_set_conv_nth)
qed

lemma epoll_step_ok:
  assumes "epoll_step st st'" and "epoll_inv st"
  shows "epoll_inv st' \<and> ledger_move\<^sup>*\<^sup>* (epoll_ledger st) (epoll_ledger st')"
  using assms
proof cases
  case (wait evs)
  have st: "table_ok st" "bufs_ok st" using assms(2) by (simp_all add: epoll_inv_def)
  have "is_live i st" if "i \<in> set (slots_of evs)" for i
    using wait(4) that table_okD(4) [OF st(1)] unfolding batch_ok_def by blast
  moreover have "table_ok st'" using st(1) by (rule iffD2 [OF table_ok_cong, rotated -1]) (simp_all add: wait(1))
  ultimately show ?thesis
    using st(2) wait unfolding epoll_inv_def ready_ok_def
    by (simp add: bufs_ok_def epoll_ledger_def batch_ok_def)
next
  case (time_out now)
  have st: "table_ok st" "bufs_ok st" using assms(2) by (simp_all add: epoll_inv_def)
  have "table_ok st' \<and> ledger_move\<^sup>*\<^sup>* (epoll_ledger st) (epoll_ledger st')
      \<and> ep_ready st' = ep_ready st \<and> ep_stopped st' = ep_stopped st"
    unfolding time_out(1) close_idle_def by (rule fold_drops [OF st(1) _ all_indices]) (simp add: is_idle_def)
  moreover have "bufs_ok st'" unfolding time_out(1) close_idle_def
    by (rule bufs_ok_fold_drops [OF st(2)]) (use table_okD(1) [OF st(1)] in auto)
  ultimately show ?thesis using time_out by (simp add: epoll_inv_def ready_ok_def)
next
  case (event e es)
  let ?s = "st\<lparr>ep_ready := es\<rparr>"
  have st: "table_ok st" "bufs_ok st" "ready_ok st" using assms(2) by (simp_all add: epoll_inv_def)
  have s: "table_ok ?s" using st(1) by (rule iffD2 [OF table_ok_cong, rotated -1]) simp_all
  have fresh: "fresh_fd e ?s" using event(3) by (cases e rule: event_slot.cases) (auto elim: fresh_fd.elims)
  have "settled (event_slot e) ?s st'"
    by (rule settled_event [OF s _ fresh event(4)])
      (use st(2,3) event(2) in \<open>auto simp: bufs_ok_def ready_ok_def split: option.splits\<close>)
  moreover have "epoll_ledger ?s = epoll_ledger st" by (simp add: epoll_ledger_def)
  ultimately show ?thesis
    using st(3) event(1,2) unfolding epoll_inv_def settled_def ready_ok_def
    by (auto split: option.splits)
next
  case leave
  have st: "table_ok st" "bufs_ok st" using assms(2) by (simp_all add: epoll_inv_def)
  define s where "s = fold (\<lambda>i st. if cn_fd (ep_conns st ! i) \<noteq> -1 then drop_conn i st else st) [0..<EPOLL_MAX_CONNS] st"
  have s: "table_ok s \<and> ledger_move\<^sup>*\<^sup>* (epoll_ledger st) (epoll_ledger s)
      \<and> ep_ready s = ep_ready st \<and> ep_stopped s = ep_stopped st"
    unfolding s_def by (rule fold_drops [OF st(1) _ all_indices])
  have bufs: "bufs_ok s" unfolding s_def
    by (rule bufs_ok_fold_drops [OF st(2)]) (use table_okD(1) [OF st(1)] in auto)
  have st': "st' = s\<lparr>ep_stopped := True\<rparr>" by (simp only: leave(1) epoll_shutdown_def s_def)
  have "table_ok st'" using s table_ok_cong [of st' s] by (simp add: st')
  moreover have "live (ep_conns st') = {#}"
    unfolding leave(1) by (rule shutdown_all_free [OF table_okD(1) [OF st(1)]])
  moreover have "bufs_ok st'" "ready_ok st'" "epoll_ledger st' = epoll_ledger s"
    using bufs s leave(3) by (simp_all add: bufs_ok_def ready_ok_def epoll_ledger_def st')
  ultimately show ?thesis using s by (simp add: epoll_inv_def)
qed

interpretation epoll: accounted "\<lambda>st. \<exists>cfg sv. st = epoll_start cfg sv" epoll_step epoll_inv epoll_ledger
  by unfold_locales (auto simp: epoll_start_inv dest: epoll_step_ok)

lemma slot_of_live:
  assumes "table_ok st"
  shows "ep_interest st fd = Some i \<longleftrightarrow> i < EPOLL_MAX_CONNS \<and> fd \<noteq> -1 \<and> cn_fd (ep_conns st ! i) = fd"
  using table_okD(3) [OF assms, of i] table_okD(4) [OF assms, of fd i] by blast

text \<open>
  C7: in every state that the event loop reaches, under every order of events that the kernel may
  deliver, each descriptor that \<open>accept\<close> returned is either open in the connection table or has been
  closed exactly once; the counter of active connections is the number of descriptors in the table,
  at most 1024; the interest list maps a descriptor to the slot that holds it; a connection that
  waits for its next request has an empty buffer; and when the loop has been left nothing is open.
\<close>

theorem epoll_descriptors_accounted:
  assumes "epoll_step\<^sup>*\<^sup>* (epoll_start cfg sv) st"
  shows "mset (ep_accepted st) = mset (ep_closed st) + live (ep_conns st)
    \<and> ep_active st = int (size (live (ep_conns st))) \<and> size (live (ep_conns st)) \<le> 1024
    \<and> (ep_interest st fd = Some i
        \<longleftrightarrow> i < EPOLL_MAX_CONNS \<and> fd \<noteq> -1 \<and> cn_fd (ep_conns st ! i) = fd)
    \<and> (ep_interest st fd = Some i \<longrightarrow> cn_buf (ep_conns st ! i) = [])
    \<and> (ep_stopped st \<longrightarrow> mset (ep_accepted st) = mset (ep_closed st) \<and> ep_active st = 0)"
proof -
  have "epoll_inv st" using epoll.reaches [OF assms] by blast
  then have inv: "table_ok st" "bufs_ok st" "ep_stopped st \<longrightarrow> live (ep_conns st) = {#}"
    by (simp_all add: epoll_inv_def)
  note slot = slot_of_live [OF inv(1), of fd i]
  have all: "mset (ep_accepted st) = mset (ep_closed st) + live (ep_conns st)"
    using epoll.accounts [OF assms] by (auto simp: epoll_ledger_def)
  have active: "ep_active st = int (size (live (ep_conns st)))" by (rule table_okD(5) [OF inv(1)])
  have room: "size (live (ep_conns st)) \<le> 1024"
    using size_live [of "ep_conns st"] table_okD(1) [OF inv(1)] by (simp add: EPOLL_MAX_CONNS_def)
  have buf: "ep_interest st fd = Some i \<longrightarrow> cn_buf (ep_conns st ! i) = []"
    using inv(2) slot by (simp add: bufs_ok_def)
  have ended: "ep_stopped st \<longrightarrow> mset (ep_accepted st) = mset (ep_closed st) \<and> ep_active st = 0"
    using inv(3) all active by simp
  from all active room slot buf ended show ?thesis by (intro conjI)
qed

definition one_client :: accepted_client where
  "one_client = \<lparr>ac_fd = 7, ac_ip = ''10.0.0.1'', ac_port = 4000, ac_now = 100, ac_added = True\<rparr>"

lemma start_slots: "ep_conns (epoll_start cfg sv) = free_conn # replicate 1023 free_conn"
  by (simp add: epoll_start_def EPOLL_MAX_CONNS_def flip: replicate_Suc)

lemma epoll_descriptors_accounted_witness:
  "\<exists>sv st. epoll_step\<^sup>*\<^sup>* (epoll_start None sv) st \<and> ep_accepted st = [7] \<and> ep_closed st = []
    \<and> {#7#} = live (ep_conns st)"
proof -
  fix sv
  let ?s0 = "epoll_start None sv" and ?evs = "[Listen_Ready (Some one_client)]"
  define s1 where "s1 = ?s0\<lparr>ep_ready := ?evs\<rparr>"
  define s2 where "s2 = epoll_accept (Some one_client) (s1\<lparr>ep_ready := []\<rparr>)"
  have fields: "ep_ready ?s0 = []" "\<not> ep_stopped ?s0" "ep_accepted ?s0 = []" "ep_closed ?s0 = []"
    by (simp_all add: epoll_start_def)
  have "epoll_step ?s0 s1"
    unfolding s1_def by (rule epoll_step.wait) (simp_all add: fields batch_ok_def slots_of_def List.map_filter_simps)
  moreover have "live (ep_conns s1) = {#}"
    using epoll_start_inv [of None sv] by (simp add: s1_def epoll_ledger_def empty_ledger_def)
  then have "epoll_step s1 s2"
    by (intro epoll_step.event [where e = "Listen_Ready (Some one_client)" and es = "[]"])
      (simp_all add: s1_def s2_def fields one_client_def)
  ultimately have steps: "epoll_step\<^sup>*\<^sup>* ?s0 s2" by auto
  have "ep_accepted s2 = [7] \<and> ep_closed s2 = []"
    by (simp add: s2_def s1_def epoll_accept_def start_slots fields one_client_def set_conn_def
        conn_free_def free_conn_def)
  then show ?thesis using steps epoll_descriptors_accounted [OF steps, of 0 0] by (intro exI conjI) simp_all
qed

end
