(* ===== verification/Request_Copies.thy ===== *)
theory Request_Copies
  imports Epoll_Server
begin

text \<open>
  \<open>src/epoll_server.c\<close> contains its own copy of the code that reads a request, which takes the body
  by copying instead of cutting it out of the buffer.  The two readings are shown to agree.
\<close>

subsection \<open>Line ends behind a text\<close>

definition line_ends :: "string \<Rightarrow> bool" where
  "line_ends w \<longleftrightarrow> set w \<subseteq> {NUL, CR, LF}"

lemma line_ends_simps [simp]: "line_ends []" "line_ends (c # w) \<longleftrightarrow> (c = NUL \<or> c = CR \<or> c = LF) \<and> line_ends w"
  "line_ends (replicate n NUL)"
  by (auto simp: line_ends_def)

lemma tolower_ends: "c = NUL \<or> c = CR \<or> c = LF \<Longrightarrow> tolower_c c = c"
  by (auto simp: tolower_c_def isupper_c_def char_code_def)

lemma ci_starts_ends:
  assumes "line_ends w" and "set pat \<inter> {NUL, CR, LF} = {}"
  shows "ci_starts (q @ w) pat \<longleftrightarrow> ci_starts q pat"
proof (cases "length pat \<le> length q")
  case False
  let ?m = "length pat - length q"
  have "map tolower_c (q @ take ?m w) \<noteq> pat"
  proof
    assume eq: "map tolower_c (q @ take ?m w) = pat"
    show False
    proof (cases "take ?m w")
      case Nil
      then show False using False eq by auto
    next
      case (Cons c t)
      then have "c \<in> set w" by (metis in_set_takeD list.set_intros(1))
      then have c: "c = NUL \<or> c = CR \<or> c = LF" using assms(1) by (auto simp: line_ends_def)
      then have "c \<in> set pat" using eq Cons tolower_ends [OF c] by auto
      then show False using assms(2) c by auto
    qed
  qed
  moreover have "map tolower_c q \<noteq> pat" using False by auto
  ultimately show ?thesis using False by (simp add: ci_starts_def)
qed (simp add: ci_starts_def)

lemma ends_not_digit: "c = NUL \<or> c = CR \<or> c = LF \<Longrightarrow> \<not> isdigit_c c"
  by (auto simp: isdigit_c_def char_code_def)

lemma skip_blanks_ends: "line_ends w \<Longrightarrow> skip_blanks (q @ w) = skip_blanks q @ w"
  by (induction q; cases w) (auto simp: skip_blanks_def)

lemma takeWhile_ends:
  assumes "line_ends w" and "\<And>c. c = NUL \<or> c = CR \<or> c = LF \<Longrightarrow> \<not> P c"
  shows "takeWhile P (q @ w) = takeWhile P q"
  using assms by (induction q; cases w) auto

lemma header_text_ends: "line_ends w \<Longrightarrow> header_text n (q @ w) = header_text n q"
  by (simp add: header_text_def skip_blanks_ends takeWhile_ends)

lemma digits_value_ends: "line_ends w \<Longrightarrow> digits_value (q @ w) = digits_value q"
  by (simp add: digits_value_def takeWhile_ends ends_not_digit)

lemma isspace_ends: "c = CR \<or> c = LF \<Longrightarrow> isspace_c c"
  by (auto simp: isspace_c_def char_code_def)

lemma atoi_ends:
  assumes "line_ends w" and "NUL \<notin> set w"
  shows "atoi (q @ w) = atoi q"
proof (cases "dropWhile isspace_c q")
  case Nil
  then have "\<forall>c \<in> set (q @ w). isspace_c c"
    using assms isspace_ends by (auto simp: dropWhile_eq_Nil_conv line_ends_def)
  then have "dropWhile isspace_c (q @ w) = []" by (simp only: dropWhile_eq_Nil_conv)
  then show ?thesis using Nil by (simp only: atoi_def Let_def)
next
  case (Cons c t)
  have "dropWhile isspace_c (q @ w) = dropWhile isspace_c q @ w" if "dropWhile isspace_c q \<noteq> []"
    using that by (induction q) auto
  then have "dropWhile isspace_c (q @ w) = (c # t) @ w" using Cons by simp
  then show ?thesis using Cons digits_value_ends [OF assms(1), of t] digits_value_ends [OF assms(1), of "c # t"]
    by (simp add: atoi_def Let_def)
qed

lemma cstr_ends: "NUL \<notin> set a \<Longrightarrow> cstr (a @ w) = a @ cstr w"
  by (induction a) (auto simp: cstr_def)

lemma line_ends_cstr: "line_ends w \<Longrightarrow> line_ends (cstr w)"
  using set_cstr [of w] by (auto simp: line_ends_def)

lemma length_value_ends:
  assumes "line_ends w" and "NUL \<notin> set q"
  shows "atoi (cstr (skip_blanks (q @ w))) = atoi (cstr (skip_blanks q))"
proof -
  have "NUL \<notin> set (skip_blanks q)" using assms(2) by (auto simp: skip_blanks_def dest: set_dropWhileD)
  moreover have "atoi (skip_blanks q @ cstr w) = atoi (skip_blanks q)"
    using line_ends_cstr [OF assms(1)] by (rule atoi_ends) simp
  ultimately show ?thesis using assms(1) by (simp add: skip_blanks_ends cstr_ends cstr_id)
qed

lemma starts_with_ends:
  assumes "line_ends w" and "set pat \<inter> {NUL, CR, LF} = {}"
  shows "starts_with (q @ w) pat \<longleftrightarrow> starts_with q pat"
proof (cases "length pat \<le> length q")
  case False
  then have "x \<in> {NUL, CR, LF}" if "take (length pat - length q) w = x # t" for x t
    using that assms(1) by (metis in_set_takeD line_ends_def list.set_intros(1) subsetD)
  then show ?thesis using False assms(2)
    by (cases "take (length pat - length q) w") (auto simp: starts_with_def)
qed (simp add: starts_with_def)

lemma strstr_ends:
  assumes "line_ends w" and "set pat \<inter> {NUL, CR, LF} = {}" and "pat \<noteq> []"
  shows "strstr (a @ w) pat = map_option (\<lambda>p. p @ w) (strstr a pat)"
proof (induction a)
  case Nil
  have "strstr w pat = None" using assms
  proof (induction w)
    case (Cons c w)
    then show ?case by (cases pat; subst strstr.simps) (auto simp: starts_with_def)
  qed (subst strstr.simps, simp add: starts_with_def)
  then show ?case using assms(3) by (subst (2) strstr.simps) (simp add: starts_with_def)
next
  case (Cons c a)
  then show ?case using starts_with_ends [OF assms(1,2), of "c # a"] by (subst (1 2) strstr.simps) simp
qed

lemma strstr_SomeD: "strstr s p = Some q \<Longrightarrow> (\<exists>u. s = u @ q) \<and> starts_with q p"
proof (induction s)
  case Nil
  then show ?case by (subst (asm) strstr.simps) (auto split: if_splits)
next
  case (Cons c s)
  then show ?case by (subst (asm) (2) strstr.simps) (auto split: if_splits intro: exI [of _ "c # _"])
qed

lemma strstr_suffix_length: "strstr s p = Some q \<Longrightarrow> length p \<le> length q"
  using strstr_SomeD [of s p q] by (metis starts_with_def length_take min.cobounded1)

subsection \<open>The headers\<close>

lemma note_cookie_ends:
  assumes "line_ends w" and "NUL \<notin> set a"
  shows "note_cookie (a @ w) req = note_cookie a req"
proof -
  have w: "line_ends (cstr w)" by (rule line_ends_cstr [OF assms(1)])
  have len: "7 \<le> length p" if "strstr a pat = Some p" "length pat = 7" for p pat
    using strstr_suffix_length [OF that(1)] that(2) by simp
  have "header_text 512 (drop 7 (p @ cstr w)) = header_text 512 (drop 7 p)" if "7 \<le> length p" for p
    using header_text_ends [OF w, of 512 "drop 7 p"] that by simp
  then show ?thesis
    using strstr_ends [OF w, of "''Cookie:''" a] strstr_ends [OF w, of "''cookie:''" a]
      len [of "''Cookie:''"] len [of "''cookie:''"]
    by (auto simp: note_cookie_def either_case_def cstr_ends [OF assms(2)] cstr_id [OF assms(2)]
        split: option.splits)
qed

lemma note_authorization_ends:
  assumes "line_ends w" and "NUL \<notin> set a"
  shows "note_authorization (a @ w) req = note_authorization a req"
proof -
  have w: "line_ends (cstr w)" by (rule line_ends_cstr [OF assms(1)])
  have len: "14 \<le> length p" if "strstr a pat = Some p" "length pat = 14" for p pat
    using strstr_suffix_length [OF that(1)] that(2) by simp
  have "header_text 256 (drop 14 (p @ cstr w)) = header_text 256 (drop 14 p)" if "14 \<le> length p" for p
    using header_text_ends [OF w, of 256 "drop 14 p"] that by simp
  then show ?thesis
    using strstr_ends [OF w, of "''Authorization:''" a] strstr_ends [OF w, of "''authorization:''" a]
      len [of "''Authorization:''"] len [of "''authorization:''"]
    by (auto simp: note_authorization_def either_case_def cstr_ends [OF assms(2)] cstr_id [OF assms(2)]
        split: option.splits)
qed

lemma at_line_start_ends:
  assumes "line_ends w" and "set pat \<inter> {NUL, CR, LF} = {}"
  shows "at_line_start ((c # s) @ w) pat \<longleftrightarrow> at_line_start (c # s) pat"
  using ci_starts_ends [OF assms, of s] by (simp add: at_line_start_def)

lemma at_line_start_length: "at_line_start s pat \<Longrightarrow> Suc (length pat) \<le> length s"
proof -
  assume "at_line_start s pat"
  then have "length (map tolower_c (take (length pat) (tl s))) = length pat" "s \<noteq> []"
    by (auto simp: at_line_start_def ci_starts_def)
  then show ?thesis by (cases s) auto
qed

lemma no_line_start: "line_ends w \<Longrightarrow> pat = CHR ''c'' # t \<Longrightarrow> \<not> at_line_start w pat"
  using ci_starts_ends [of "tl w" "[CHR ''c'']" "[]"]
  by (cases w; cases "tl w") (auto simp: at_line_start_def ci_starts_def line_ends_def tolower_ends)

definition nul_free :: "string option \<Rightarrow> bool" where
  "nul_free t \<longleftrightarrow> (\<forall>q. t = Some q \<longrightarrow> NUL \<notin> set q)"

definition followed :: "string \<Rightarrow> string option \<Rightarrow> string option" where
  "followed w t = map_option (\<lambda>q. q @ w) t"

lemma scan_content_ends:
  assumes "NUL \<notin> set a" and "nul_free ct" and "nul_free cl"
  shows "\<exists>ct' cl'. nul_free ct' \<and> nul_free cl' \<and> (\<forall>w. line_ends w \<longrightarrow> length w = k \<longrightarrow>
    scan_content (a @ w) (followed w ct) (followed w cl) = (followed w ct', followed w cl'))"
  using assms
proof (induction a arbitrary: ct cl)
  case Nil
  have "scan_content w x y = (x, y)" if "line_ends w" for w x y
    using that by (induction w x y rule: scan_content.induct) (simp_all add: no_line_start)
  then show ?case using Nil by (intro exI [of _ ct] exI [of _ cl]) simp
next
  case (Cons c a)
  let ?t = "at_line_start (c # a) ''content-type:''"
  let ?l = "at_line_start (c # a) ''content-length:'' \<and> (c # a) ! 14 = CHR ''h''"
  have drops: "?t \<Longrightarrow> drop 14 ((c # a) @ w) = drop 14 (c # a) @ w"
      "?l \<Longrightarrow> drop 16 ((c # a) @ w) = drop 16 (c # a) @ w"
      "at_line_start (c # a) ''content-length:'' \<Longrightarrow> ((c # a) @ w) ! 14 = (c # a) ! 14" for w
    using at_line_start_length [of "c # a" "''content-type:''"] at_line_start_length [of "c # a" "''content-length:''"]
    by (simp_all add: nth_append nth_Cons')
  have starts: "at_line_start ((c # a) @ w) ''content-type:'' = at_line_start (c # a) ''content-type:''"
      "at_line_start ((c # a) @ w) ''content-length:'' = at_line_start (c # a) ''content-length:''"
    if "line_ends w" for w
    using at_line_start_ends [OF that] by simp_all
  have unfold: "scan_content ((c # a) @ w) x y =
      (if length (c # a) + k \<le> 14 then (x, y)
       else if ?t then scan_content (a @ w) (Some (drop 14 (c # a) @ w)) y
       else if ?l then scan_content (a @ w) x (Some (drop 16 (c # a) @ w))
       else scan_content (a @ w) x y)" if "line_ends w" "length w = k" for w x y
    using that starts [OF that(1)] drops [of w] by auto
  have rests: "nul_free (Some (drop n (c # a)))" for n
    using Cons.prems(1) by (auto simp: nul_free_def dest: in_set_dropD)
  have a: "NUL \<notin> set a" using Cons.prems(1) by simp
  have step: ?case
    if h: "\<And>w. line_ends w \<Longrightarrow> length w = k \<Longrightarrow>
      scan_content ((c # a) @ w) (followed w ct) (followed w cl) = scan_content (a @ w) (followed w ct1) (followed w cl1)"
      and free: "nul_free ct1" "nul_free cl1" for ct1 cl1
    using Cons.IH [OF a free] h by metis
  consider "length (c # a) + k \<le> 14" | "\<not> length (c # a) + k \<le> 14" "?t"
    | "\<not> length (c # a) + k \<le> 14" "\<not> ?t" "?l" | "\<not> length (c # a) + k \<le> 14" "\<not> ?t" "\<not> ?l" by blast
  then show ?case
  proof cases
    case 1
    then have "scan_content ((c # a) @ w) (followed w ct) (followed w cl) = (followed w ct, followed w cl)"
      if "line_ends w" "length w = k" for w
      unfolding unfold [OF that] by (rule if_P)
    then show ?thesis using Cons.prems(2,3) by blast
  next
    case 2
    show ?thesis
      by (rule step [OF _ rests Cons.prems(3)]) (use 2 in \<open>simp only: unfold if_False if_True followed_def option.map\<close>)
  next
    case 3
    show ?thesis
      by (rule step [OF _ Cons.prems(2) rests]) (use 3 in \<open>simp only: unfold if_False if_True followed_def option.map simp_thms\<close>)
  next
    case 4
    show ?thesis
      by (rule step [OF _ Cons.prems(2,3)]) (use 4 in \<open>simp only: unfold if_False followed_def\<close>)
  qed
qed

lemma note_content_ends:
  assumes "line_ends w" "line_ends v" "length v = length w" and "NUL \<notin> set a"
  shows "note_content (a @ w) req = note_content (a @ v) req"
proof -
  obtain ct cl where free: "nul_free ct" "nul_free cl"
    and scan: "\<And>u. line_ends u \<Longrightarrow> length u = length w
      \<Longrightarrow> scan_content (a @ u) None None = (followed u ct, followed u cl)"
    using scan_content_ends [OF assms(4), of None None "length w"] by (auto simp: nul_free_def followed_def)
  show ?thesis
    using free assms(1-3) scan [of w] scan [of v]
    by (auto simp: note_content_def followed_def nul_free_def header_text_ends length_value_ends split: option.splits)
qed

subsection \<open>The two readings\<close>

lemma trim_newlines_ends: "NUL \<notin> set s \<Longrightarrow> \<exists>w. s = trim_newlines s @ w \<and> line_ends w"
proof -
  have "s = rev (dropWhile is_crlf_char (rev s)) @ rev (takeWhile is_crlf_char (rev s))"
    by (metis rev_append rev_rev_ident takeWhile_dropWhile_id)
  moreover have "line_ends (rev (takeWhile is_crlf_char (rev s)))"
    by (auto simp: line_ends_def is_crlf_char_def dest: set_takeWhileD)
  ultimately show ?thesis unfolding trim_newlines_def rstrip_def by blast
qed

lemma extract_body_ends:
  assumes "NUL \<notin> set raw"
  obtains a w v where "raw = a @ w" "snd (extract_body raw) = a @ v" "line_ends w" "line_ends v" "length v = length w"
    "(case fst (extract_body raw) of None \<Rightarrow> [] | Some b \<Rightarrow> b)
      = (case strstr raw (crlf @ crlf) of None \<Rightarrow> [] | Some p \<Rightarrow> trim_newlines (drop 4 p))"
proof (cases "strstr raw (crlf @ crlf)")
  case None
  then show thesis using assms that [of raw "[]" "[]"] by (simp add: extract_body_def cstr_id)
next
  case (Some p)
  obtain u where u: "raw = u @ p" using strstr_SomeD [OF Some] by blast
  have four: "4 \<le> length p" using strstr_suffix_length [OF Some] by simp
  define s where "s = drop 4 p"
  have raw: "raw = (u @ take 4 p) @ s" using u by (simp add: s_def)
  have s: "NUL \<notin> set s" using assms raw by auto
  obtain w where w: "s = trim_newlines s @ w" "line_ends w" using trim_newlines_ends [OF s] by blast
  let ?start = "length u + 4"
  have len: "length raw - length p + 4 = ?start" using u by simp
  have start: "drop ?start raw = s" "take ?start raw = u @ take 4 p" using u four by (simp_all add: s_def)
  show thesis
  proof (cases "s = []")
    case True
    then have "length raw \<le> ?start" using raw four by simp
    then show thesis using assms Some True that [of raw "[]" "[]"]
      by (simp add: extract_body_def cstr_id len s_def [symmetric] trim_newlines_def rstrip_def)
  next
    case False
    moreover have "length raw = ?start + length s" using u four by (simp add: s_def)
    ultimately have long: "\<not> length raw \<le> ?start" by simp
    have tail: "drop (?start + length s) raw = []" using u four by (simp add: s_def)
    have "length s = length (trim_newlines s @ w)" by (rule arg_cong [OF w(1)])
    then have stripped: "length s - length (trim_newlines s) = length w" by simp
    have whole: "cstr raw = raw" "cstr s = s" using assms s by (simp_all add: cstr_id)
    have e: "extract_body raw = (if trim_newlines s = [] then None else Some (trim_newlines s),
        (u @ take 4 p) @ trim_newlines s @ replicate (length w) NUL)"
      unfolding extract_body_def whole Some option.case len start Let_def if_not_P [OF long] stripped tail by simp
    have r1: "raw = ((u @ take 4 p) @ trim_newlines s) @ w" using raw w(1) by (metis append_assoc)
    have r2: "snd (extract_body raw) = ((u @ take 4 p) @ trim_newlines s) @ replicate (length w) NUL"
      unfolding e by simp
    have r3: "(case fst (extract_body raw) of None \<Rightarrow> [] | Some b \<Rightarrow> b)
        = (case strstr raw (crlf @ crlf) of None \<Rightarrow> [] | Some p \<Rightarrow> trim_newlines (drop 4 p))"
      unfolding e Some by (simp add: s_def)
    show thesis by (rule that [OF r1 r2 w(2) _ _ r3]) simp_all
  qed
qed

lemma keep_alive_commutes:
  "note_cookie raw (r\<lparr>rq_keep_alive := k\<rparr>) = (note_cookie raw r)\<lparr>rq_keep_alive := k\<rparr>"
  "note_authorization raw (r\<lparr>rq_keep_alive := k\<rparr>) = (note_authorization raw r)\<lparr>rq_keep_alive := k\<rparr>"
  by (simp_all add: note_cookie_def note_authorization_def split: option.splits)

text \<open>
  C19: on bytes without NUL whose body has at most 511 characters, the copy of the request reader in
  the event loop fills the same request as \<open>request_handler_handle_connection\<close>, except that it sets
  \<open>keep_alive\<close>; the two accept the same request lines.
\<close>

theorem epoll_request_agrees:
  assumes "NUL \<notin> set raw"
    and "length (case strstr raw (crlf @ crlf) of None \<Rightarrow> [] | Some p \<Rightarrow> drop 4 p) < 512"
  shows "epoll_request raw = map_option (\<lambda>(req, _). req\<lparr>rq_keep_alive := (if close_after raw then 0 else 1)\<rparr>)
    (read_request raw)"
proof -
  obtain a w v where raw: "raw = a @ w" "snd (extract_body raw) = a @ v"
    and ends: "line_ends w" "line_ends v" "length v = length w"
    and body: "(case fst (extract_body raw) of None \<Rightarrow> [] | Some b \<Rightarrow> b)
      = (case strstr raw (crlf @ crlf) of None \<Rightarrow> [] | Some p \<Rightarrow> trim_newlines (drop 4 p))"
    using extract_body_ends [OF assms(1)] by metis
  have a: "NUL \<notin> set a" using assms(1) raw(1) by simp
  define b where "b = (case strstr raw (crlf @ crlf) of None \<Rightarrow> [] | Some p \<Rightarrow> trim_newlines (drop 4 p))"
  have small: "length b < 512"
    using assms(2) le_less_trans [OF length_rstrip]
    by (cases "strstr raw (crlf @ crlf)") (simp_all add: b_def trim_newlines_def)
  have copy: "extract_body_copy raw = b"
    using assms by (auto simp: extract_body_copy_def b_def cstr_id copy_text_id trim_newlines_def rstrip_def
        split: option.splits)
  have cut: "(case fst (extract_body raw) of None \<Rightarrow> r | Some x \<Rightarrow> request_handler_set_body x r) = r\<lparr>rq_body := b\<rparr>"
    if "rq_body r = []" for r
    using body small that unfolding b_def [symmetric]
    by (auto simp: request_handler_set_body_def copy_text_id split: option.splits)
  have noted: "note_content (a @ v) r = note_content raw r" "note_cookie (a @ v) r = note_cookie raw r"
      "note_authorization (a @ v) r = note_authorization raw r" for r
    using note_content_ends [OF ends a] note_cookie_ends [OF _ a] note_authorization_ends [OF _ a] ends
    unfolding raw(1) by simp_all
  show ?thesis
  proof (cases "parse_http_request_line (first_line_of raw)")
    case None
    then show ?thesis by (simp add: epoll_request_def read_request_def first_line_of_def)
  next
    case (Some line)
    obtain meth path where line: "line = (meth, path)" by (cases line)
    obtain body' raw' where e: "extract_body raw = (body', raw')" by (cases "extract_body raw")
    have e': "raw' = a @ v" "fst (extract_body raw) = body'" using raw(2) e by simp_all
    define r where "r = zero_request\<lparr>rq_content_length := -1, rq_method := map toupper_c (take 15 meth),
      rq_path := copy_text 256 path\<rparr>"
    have r: "rq_body r = []" by (simp add: r_def zero_request_def)
    have new: "epoll_request raw = Some ((note_authorization raw (note_cookie raw (note_content raw (r\<lparr>rq_body := b\<rparr>))))
        \<lparr>rq_keep_alive := (if close_after raw then 0 else 1)\<rparr>)"
      using Some line by (simp add: epoll_request_def copy r_def keep_alive_commutes)
    have old: "read_request raw = Some (note_authorization raw (note_cookie raw (note_content raw (r\<lparr>rq_body := b\<rparr>))), raw')"
      using Some line cut [OF r] e e'
      by (simp add: read_request_def first_line_of_def r_def [symmetric] noted)
    show ?thesis unfolding new old by simp
  qed
qed

definition example_raw :: string where
  "example_raw = ''POST /users HTTP/1.1'' @ crlf @ ''Content-Length: 5'' @ crlf @ crlf @ ''a,b,1'' @ crlf"

lemma epoll_request_agrees_witness:
  "\<exists>req. epoll_request example_raw = Some (req\<lparr>rq_keep_alive := 1\<rparr>) \<and> rq_body req = ''a,b,1''"
proof -
  have "NUL \<notin> set example_raw"
    and "length (case strstr example_raw (crlf @ crlf) of None \<Rightarrow> [] | Some p \<Rightarrow> drop 4 p) < 512"
    and "map_option (\<lambda>(req, raw). rq_body req) (read_request example_raw) = Some ''a,b,1''"
    and "\<not> close_after example_raw"
    by code_simp+
  with epoll_request_agrees [of example_raw] show ?thesis by (auto simp: map_option_case split: option.splits)
qed

end
