(* ===== verification/Select_Server.thy ===== *)
theory Select_Server
  imports Epoll_Server
begin

text \<open>
  The event loop of \<open>src/select_server.c\<close>: the connection array, the watched set \<open>master_set\<close> with
  the largest descriptor \<open>max_fd\<close>, and the scan of all descriptors up to it after each \<open>select\<close>.
  The parts of the request reader and the two fixed responses that are the same text as in
  \<open>src/epoll_server.c\<close> are taken from \<open>Epoll_Server\<close>.  \<open>FD_SET\<close> of a descriptor that does not fit
  an \<open>fd_set\<close> writes behind it: then \<open>sl_overrun\<close> is set and nothing more is claimed.
\<close>

subsection \<open>State\<close>

definition SELECT_MAX_CONNS :: nat where "SELECT_MAX_CONNS = 1024"
abbreviation FD_SETSIZE :: int where "FD_SETSIZE \<equiv> 1024"
definition SELECT_RESP_SIZE :: nat where "SELECT_RESP_SIZE = 16384"

record select_state =
  sl_conns :: "conn list"
  sl_listen :: int
  sl_master :: "int set"
  sl_max :: int
  sl_read :: "int set"           \<comment> \<open>\<open>read_set\<close>\<close>
  sl_scan :: "int option"        \<comment> \<open>the variable \<open>fd\<close> of the scan, \<open>None\<close> outside of it\<close>
  sl_served :: int
  sl_server :: server
  sl_stopped :: bool
  sl_overrun :: bool
  sl_accepted :: "int list"
  sl_closed :: "int list"
  sl_out :: "(int \<times> string) list"

definition unused_conn :: conn where
  "unused_conn = \<lparr>cn_fd = -1, cn_buf = [], cn_count = 0, cn_last = 0\<rparr>"

definition select_start :: "int \<Rightarrow> server \<Rightarrow> select_state" where
  "select_start listen_fd sv = \<lparr>sl_conns = replicate SELECT_MAX_CONNS unused_conn, sl_listen = listen_fd,
     sl_master = {listen_fd}, sl_max = listen_fd, sl_read = {}, sl_scan = None, sl_served = 0,
     sl_server = sv, sl_stopped = False, sl_overrun = False, sl_accepted = [], sl_closed = [], sl_out = []\<rparr>"

subsection \<open>Connections\<close>

function lower_max :: "int \<Rightarrow> int set \<Rightarrow> int \<Rightarrow> int" where
  \<comment> \<open>\<open>while (max_fd > listen_fd && !FD_ISSET(max_fd, &master_set)) max_fd--;\<close>\<close>
  "lower_max listen_fd watched m =
     (if m > listen_fd \<and> m \<notin> watched then lower_max listen_fd watched (m - 1) else m)"
  by auto
termination
  by (relation "measure (\<lambda>(l, _, m). nat (m - l))") auto

declare lower_max.simps [simp del]

definition put_conn :: "nat \<Rightarrow> conn \<Rightarrow> select_state \<Rightarrow> select_state" where
  "put_conn i c st = st\<lparr>sl_conns := (sl_conns st)[i := c]\<rparr>"

definition unwatch :: "nat \<Rightarrow> select_state \<Rightarrow> select_state" where
  \<comment> \<open>\<open>FD_CLR(fd, &master_set); close(fd); conn->fd = -1;\<close>\<close>
  "unwatch i st =
     (let c = sl_conns st ! i
      in (put_conn i (c\<lparr>cn_fd := -1\<rparr>) st)
           \<lparr>sl_master := sl_master st - {cn_fd c}, sl_closed := sl_closed st @ [cn_fd c]\<rparr>)"

definition close_conn :: "nat \<Rightarrow> select_state \<Rightarrow> select_state" where
  \<comment> \<open>and \<open>if (fd == max_fd)\<close> look for the next smaller one\<close>
  "close_conn i st =
     (let fd = cn_fd (sl_conns st ! i); st = unwatch i st
      in if fd = sl_max st then st\<lparr>sl_max := lower_max (sl_listen st) (sl_master st) (sl_max st)\<rparr> else st)"

definition reply_to :: "nat \<Rightarrow> string \<Rightarrow> int \<Rightarrow> select_state \<Rightarrow> select_state" where
  "reply_to i out sent st = st\<lparr>sl_out := sl_out st @ [(cn_fd (sl_conns st ! i), take (nat sent) out)]\<rparr>"

definition select_idle :: "int \<Rightarrow> select_state \<Rightarrow> select_state" where
  "select_idle now st =
     fold (\<lambda>i st. if cn_fd (sl_conns st ! i) \<noteq> -1
                     \<and> now - cn_last (sl_conns st ! i) \<ge> KEEP_ALIVE_TIMEOUT_SEC
                  then close_conn i st else st) [0..<SELECT_MAX_CONNS] st"

definition select_accept :: "(int \<times> int) option \<Rightarrow> select_state \<Rightarrow> select_state" where
  \<comment> \<open>the descriptor and the time, \<open>None\<close> when \<open>accept\<close> fails\<close>
  "select_accept ac st =
     (case ac of
        None \<Rightarrow> st
      | Some (fd, now) \<Rightarrow>
          let st = st\<lparr>sl_accepted := sl_accepted st @ [fd]\<rparr>
          in case first_index conn_free (sl_conns st) of
               None \<Rightarrow> st\<lparr>sl_closed := sl_closed st @ [fd]\<rparr>
             | Some i \<Rightarrow>
                 (put_conn i \<lparr>cn_fd = fd, cn_buf = [], cn_count = 0, cn_last = now\<rparr> st)
                   \<lparr>sl_master := insert fd (sl_master st), sl_overrun := (sl_overrun st \<or> FD_SETSIZE \<le> fd),
                    sl_max := max (sl_max st) fd, sl_served := sl_served st + 1\<rparr>)"

subsection \<open>Data from a client\<close>

definition select_request :: "string \<Rightarrow> request option" where
  \<comment> \<open>no header is looked at\<close>
  "select_request raw =
     map_option (\<lambda>(meth, path). zero_request\<lparr>rq_method := map toupper_c (take 15 meth),
         rq_path := copy_text 256 path, rq_body := extract_body_copy raw\<rparr>)
       (parse_http_request_line (first_line_of raw))"

definition select_answer :: "env \<Rightarrow> request \<Rightarrow> server \<Rightarrow> (string \<times> server) run" where
  \<comment> \<open>what \<open>send\<close> is given, \<open>strlen(resp_buf)\<close> bytes\<close>
  "select_answer ev req sv =
     bind_run (request_handler_process_http ev req SELECT_RESP_SIZE sv)
       (\<lambda>(r, sv). Ret (cstr (case r of None \<Rightarrow> epoll_500 | Some out \<Rightarrow> out), sv))"

definition rearm :: "nat \<Rightarrow> select_state \<Rightarrow> select_state" where
  "rearm i st = put_conn i ((sl_conns st ! i)\<lparr>cn_buf := []\<rparr>) st"

definition request_done :: "nat \<Rightarrow> int \<Rightarrow> select_state \<Rightarrow> select_state" where
  "request_done i sent st =
     (if sent < 0 then close_conn i st
      else let st = put_conn i ((sl_conns st ! i)\<lparr>cn_count := cn_count (sl_conns st ! i) + 1\<rparr>) st
           in if cn_count (sl_conns st ! i) \<ge> MAX_KEEP_ALIVE_REQUESTS then close_conn i st else rearm i st)"

definition select_data :: "nat \<Rightarrow> client_io \<Rightarrow> string \<Rightarrow> select_state \<Rightarrow> select_state run" where
  "select_data i io data st =
     (let c = sl_conns st ! i;
          raw = cn_buf c @ take (RECV_BUF_SIZE - length (cn_buf c) - 1) data;
          st = put_conn i (c\<lparr>cn_buf := raw, cn_last := ev_now (ci_env io)\<rparr>) st
      in case select_request raw of
           None \<Rightarrow> Ret (close_conn i (reply_to i epoll_malformed (ci_sent io) st))
         | Some req \<Rightarrow>
             bind_run (select_answer (ci_env io) req (sl_server st)) (\<lambda>(out, sv).
               Ret (request_done i (ci_sent io) (reply_to i out (ci_sent io) (st\<lparr>sl_server := sv\<rparr>)))))"

definition select_client :: "int \<Rightarrow> client_io \<Rightarrow> select_state \<Rightarrow> select_state run" where
  "select_client fd io st =
     (case first_index (\<lambda>c. cn_fd c = fd) (sl_conns st) of
        None \<Rightarrow> Ret (st\<lparr>sl_master := sl_master st - {fd}, sl_closed := sl_closed st @ [fd],
                       sl_max := (if fd = sl_max st then sl_max st - 1 else sl_max st)\<rparr>)
      | Some i \<Rightarrow>
          (case ci_recv io of
             Data d \<Rightarrow> select_data i io d st
           | _ \<Rightarrow> Ret (close_conn i st)))"

subsection \<open>The loop\<close>

definition select_shutdown :: "select_state \<Rightarrow> select_state" where
  \<comment> \<open>the connections, then the listening socket, which the ledger of clients leaves out\<close>
  "select_shutdown st =
     (let st = fold (\<lambda>i st. if cn_fd (sl_conns st ! i) \<noteq> -1 then unwatch i st else st)
                 [0..<SELECT_MAX_CONNS] st
      in st\<lparr>sl_master := sl_master st - {sl_listen st}, sl_stopped := True\<rparr>)"

definition watching :: "select_state \<Rightarrow> bool" where
  "watching st \<longleftrightarrow> \<not> sl_stopped st \<and> \<not> sl_overrun st"

inductive select_step :: "select_state \<Rightarrow> select_state \<Rightarrow> bool" where
  poll: "watching st \<Longrightarrow> sl_scan st = None \<Longrightarrow> ready \<subseteq> sl_master st \<Longrightarrow> ready \<noteq> {}
    \<Longrightarrow> select_step st (st\<lparr>sl_read := ready, sl_scan := Some 0\<rparr>)"
| time_out: "watching st \<Longrightarrow> sl_scan st = None \<Longrightarrow> select_step st (select_idle now st)"
| pass: "watching st \<Longrightarrow> sl_scan st = Some fd \<Longrightarrow> fd \<le> sl_max st \<Longrightarrow> fd \<notin> sl_read st
    \<Longrightarrow> select_step st (st\<lparr>sl_scan := Some (fd + 1)\<rparr>)"
| listener: "watching st \<Longrightarrow> sl_scan st = Some fd \<Longrightarrow> fd \<le> sl_max st \<Longrightarrow> fd \<in> sl_read st
    \<Longrightarrow> fd = sl_listen st
    \<Longrightarrow> (\<And>new now. ac = Some (new, now) \<Longrightarrow> 0 \<le> new \<and> new \<noteq> sl_listen st \<and> new \<notin># live (sl_conns st))
    \<Longrightarrow> select_step st (select_accept ac (st\<lparr>sl_scan := Some (fd + 1)\<rparr>))"
| client: "watching st \<Longrightarrow> sl_scan st = Some fd \<Longrightarrow> fd \<le> sl_max st \<Longrightarrow> fd \<in> sl_read st
    \<Longrightarrow> fd \<noteq> sl_listen st
    \<Longrightarrow> select_client fd io (st\<lparr>sl_scan := Some (fd + 1)\<rparr>) = Ret st' \<Longrightarrow> select_step st st'"
| scanned: "watching st \<Longrightarrow> sl_scan st = Some fd \<Longrightarrow> sl_max st < fd
    \<Longrightarrow> select_step st (st\<lparr>sl_scan := None\<rparr>)"
| leave: "watching st \<Longrightarrow> sl_scan st = None \<Longrightarrow> select_step st (select_shutdown st)"

subsection \<open>Starting and ending the server\<close>

definition select_listener :: "startup \<Rightarrow> int list + int" where
  \<comment> \<open>the listening socket, or the descriptors closed by a failed start\<close>
  "select_listener su =
     (if \<not> su_alloc su then Inl []
      else if su_socket su < 0 then Inl []
      else if \<not> (su_reuse su \<and> su_address su \<and> su_bind su \<and> su_listen su) then Inl [su_socket su]
      else Inr (su_socket su))"

inductive select_server_run :: "startup \<Rightarrow> server \<Rightarrow> int \<times> int list \<Rightarrow> select_state \<Rightarrow> bool" where
  refused: "select_listener su = Inl closed \<Longrightarrow> select_server_run su sv (-1, closed) (select_start (-1) sv)"
| served: "select_listener su = Inr fd \<Longrightarrow> select_step\<^sup>*\<^sup>* (select_start fd sv) st \<Longrightarrow> sl_stopped st
    \<Longrightarrow> select_server_run su sv (0, [fd]) st"

end
