(* ===== verification/Select_Server_Correct.thy ===== *)
theory Select_Server_Correct
  imports Select_Server
begin

text \<open>
  What the loop around \<open>select\<close> keeps true: the watched set holds the listening socket and exactly
  the descriptors in the table, \<open>max_fd\<close> is its maximum, so that the scan misses none, and every
  descriptor is accounted for.  The branch that the code marks \<open>should not happen\<close> does not.
\<close>

definition sl_table_ok :: "select_state \<Rightarrow> bool" where
  "sl_table_ok st \<longleftrightarrow> length (sl_conns st) = SELECT_MAX_CONNS \<and> (\<forall>fd. count (live (sl_conns st)) fd \<le> 1)
     \<and> (\<forall>fd. fd \<in># live (sl_conns st) \<longrightarrow> 0 \<le> fd \<and> fd \<noteq> sl_listen st)"

definition sl_set_ok :: "select_state \<Rightarrow> bool" where
  "sl_set_ok st \<longleftrightarrow> sl_master st = insert (sl_listen st) (set_mset (live (sl_conns st)))
     \<and> sl_max st \<in> sl_master st \<and> (\<forall>fd \<in> sl_master st. fd \<le> sl_max st)"

definition sl_bufs_ok :: "select_state \<Rightarrow> bool" where
  "sl_bufs_ok st \<longleftrightarrow> (\<forall>i < SELECT_MAX_CONNS. cn_fd (sl_conns st ! i) \<noteq> -1 \<longrightarrow> cn_buf (sl_conns st ! i) = [])"

definition scan_ok :: "select_state \<Rightarrow> bool" where
  \<comment> \<open>what the scan has not yet passed is still watched\<close>
  "scan_ok st \<longleftrightarrow> (case sl_scan st of None \<Rightarrow> True
     | Some n \<Rightarrow> \<forall>fd \<in> sl_read st. n \<le> fd \<longrightarrow> fd = sl_listen st \<or> fd \<in># live (sl_conns st))"

definition select_inv :: "select_state \<Rightarrow> bool" where
  "select_inv st \<longleftrightarrow> sl_table_ok st \<and> sl_bufs_ok st
     \<and> (if sl_stopped st then live (sl_conns st) = {#} else sl_set_ok st \<and> scan_ok st)"

definition select_ledger :: "select_state \<Rightarrow> ledger" where
  "select_ledger st = \<lparr>ld_open = live (sl_conns st), ld_accepted = mset (sl_accepted st),
     ld_closed = mset (sl_closed st)\<rparr>"

definition sl_kept :: "select_state \<Rightarrow> select_state \<Rightarrow> bool" where
  \<comment> \<open>the parts of the state that closing and serving leave alone\<close>
  "sl_kept st st' \<longleftrightarrow> sl_listen st' = sl_listen st \<and> sl_read st' = sl_read st \<and> sl_scan st' = sl_scan st
     \<and> sl_stopped st' = sl_stopped st \<and> sl_accepted st' = sl_accepted st"

abbreviation sl_live :: "nat \<Rightarrow> select_state \<Rightarrow> bool" where
  "sl_live i st \<equiv> i < SELECT_MAX_CONNS \<and> cn_fd (sl_conns st ! i) \<noteq> -1"

subsection \<open>Closing a connection\<close>

lemma lower_max_ok:
  assumes "l \<in> S" and "l \<le> m" and "\<forall>fd \<in> S. fd \<le> m"
  shows "lower_max l S m \<in> S \<and> (\<forall>fd \<in> S. fd \<le> lower_max l S m)"
  using assms
proof (induction l S m rule: lower_max.induct)
  case (1 l S m)
  show ?case
  proof (cases "m > l \<and> m \<notin> S")
    case True
    have "fd \<le> m - 1" if "fd \<in> S" for fd
    proof -
      have "fd \<noteq> m" using that True by blast
      then show ?thesis using 1(4) that by fastforce
    qed
    then have "lower_max l S (m - 1) \<in> S \<and> (\<forall>fd \<in> S. fd \<le> lower_max l S (m - 1))"
      using 1(1) [OF True 1(2)] True by simp
    then show ?thesis using True by (subst (1 2) lower_max.simps) simp
  next
    case False
    then have "m \<in> S" using 1(2,3) by (cases "m = l") auto
    then show ?thesis using False 1(4) by (subst (1 2) lower_max.simps) simp
  qed
qed

lemma unwatch_live:
  assumes "sl_table_ok st" and "sl_live i st"
  shows "live (sl_conns st) = add_mset (cn_fd (sl_conns st ! i)) (live (sl_conns (unwatch i st)))"
    and "cn_fd (sl_conns st ! i) \<notin># live (sl_conns (unwatch i st))"
proof -
  show *: "live (sl_conns st) = add_mset (cn_fd (sl_conns st ! i)) (live (sl_conns (unwatch i st)))"
    using live_drop [of i "sl_conns st" "(sl_conns st ! i)\<lparr>cn_fd := -1\<rparr>"] assms
    by (simp add: conn_free_def sl_table_ok_def unwatch_def put_conn_def Let_def)
  have "count (live (sl_conns st)) (cn_fd (sl_conns st ! i)) \<le> 1"
    using assms(1) unfolding sl_table_ok_def by blast
  then show "cn_fd (sl_conns st ! i) \<notin># live (sl_conns (unwatch i st))"
    unfolding * by (simp add: not_in_iff)
qed

lemma unwatch_fields:
  "sl_kept st (unwatch i st)" "sl_max (unwatch i st) = sl_max st"
  "sl_master (unwatch i st) = sl_master st - {cn_fd (sl_conns st ! i)}"
  "sl_closed (unwatch i st) = sl_closed st @ [cn_fd (sl_conns st ! i)]"
  "sl_conns (unwatch i st) = (sl_conns st)[i := (sl_conns st ! i)\<lparr>cn_fd := -1\<rparr>]"
  by (simp_all add: sl_kept_def unwatch_def put_conn_def Let_def)

lemma sl_table_ok_unwatch:
  assumes "sl_table_ok st" and "sl_live i st"
  shows "sl_table_ok (unwatch i st)"
proof -
  have "count (live (sl_conns (unwatch i st))) fd \<le> count (live (sl_conns st)) fd" for fd
    using unwatch_live(1) [OF assms] by simp
  moreover have "fd \<in># live (sl_conns st)" if "fd \<in># live (sl_conns (unwatch i st))" for fd
    using unwatch_live(1) [OF assms] that by simp
  moreover have "sl_listen (unwatch i st) = sl_listen st" using unwatch_fields(1) by (simp add: sl_kept_def)
  moreover have "length (sl_conns (unwatch i st)) = length (sl_conns st)" by (simp add: unwatch_fields)
  ultimately show ?thesis using assms(1) unfolding sl_table_ok_def by (metis le_trans)
qed

lemma unwatch_move:
  assumes "sl_table_ok st" and "sl_live i st"
  shows "ledger_move (select_ledger st) (select_ledger (unwatch i st))"
proof -
  have "ledger_move (select_ledger st)
      ((select_ledger st)\<lparr>ld_open := live (sl_conns (unwatch i st)),
         ld_closed := add_mset (cn_fd (sl_conns st ! i)) (ld_closed (select_ledger st))\<rparr>)"
    using unwatch_live(1) [OF assms] by (intro discharge) (simp add: select_ledger_def)
  moreover have "sl_accepted (unwatch i st) = sl_accepted st"
    using unwatch_fields(1) by (simp add: sl_kept_def)
  ultimately show ?thesis by (simp add: select_ledger_def unwatch_fields(4))
qed

lemma close_conn_fields:
  "sl_conns (close_conn i st) = sl_conns (unwatch i st)" "sl_kept st (close_conn i st)"
  "sl_master (close_conn i st) = sl_master (unwatch i st)" "sl_closed (close_conn i st) = sl_closed (unwatch i st)"
  using unwatch_fields(1) [of st i] by (simp_all add: close_conn_def Let_def sl_kept_def)

lemma close_conn_max:
  "sl_max (close_conn i st) = (if cn_fd (sl_conns st ! i) = sl_max st
     then lower_max (sl_listen st) (sl_master st - {cn_fd (sl_conns st ! i)}) (sl_max st) else sl_max st)"
  using unwatch_fields(1) [of st i] by (simp add: close_conn_def unwatch_fields Let_def sl_kept_def)

lemma sl_set_ok_close:
  assumes ok: "sl_table_ok st" "sl_set_ok st" and i: "sl_live i st"
  shows "sl_set_ok (close_conn i st)"
proof -
  let ?fd = "cn_fd (sl_conns st ! i)"
  note gone = unwatch_live [OF ok(1) i]
  have listen: "sl_listen (close_conn i st) = sl_listen st" using close_conn_fields(2) by (simp add: sl_kept_def)
  have "?fd \<noteq> sl_listen st" using ok(1) gone(1) by (auto simp: sl_table_ok_def)
  then have set: "sl_master st - {?fd} = insert (sl_listen st) (set_mset (live (sl_conns (unwatch i st))))"
    using ok(2) gone by (auto simp: sl_set_ok_def)
  have below: "\<forall>fd \<in> sl_master st - {?fd}. fd \<le> sl_max st" "sl_listen st \<le> sl_max st" "sl_max st \<in> sl_master st"
    using ok(2) by (auto simp: sl_set_ok_def)
  show ?thesis
    using set below lower_max_ok [of "sl_listen st" "sl_master st - {?fd}" "sl_max st"]
    by (auto simp: sl_set_ok_def listen close_conn_max close_conn_fields unwatch_fields(3))
qed

lemma sl_table_ok_cong:
  "sl_conns st' = sl_conns st \<Longrightarrow> sl_listen st' = sl_listen st \<Longrightarrow> sl_table_ok st' = sl_table_ok st"
  by (simp add: sl_table_ok_def)

lemma close_conn_ok:
  assumes "sl_table_ok st" and "sl_live i st"
  shows "sl_table_ok (close_conn i st)" and "ledger_move (select_ledger st) (select_ledger (close_conn i st))"
proof -
  have same: "sl_listen (close_conn i st) = sl_listen (unwatch i st)" "sl_accepted (close_conn i st) = sl_accepted (unwatch i st)"
    using close_conn_fields(2) [of st i] unwatch_fields(1) [of st i] by (simp_all add: sl_kept_def)
  show "sl_table_ok (close_conn i st)"
    using sl_table_ok_unwatch [OF assms] sl_table_ok_cong [OF close_conn_fields(1) same(1)] by simp
  show "ledger_move (select_ledger st) (select_ledger (close_conn i st))"
    using unwatch_move [OF assms] by (simp add: select_ledger_def close_conn_fields same)
qed

lemma sl_bufs_ok_close:
  assumes "i < length (sl_conns st)"
    and "\<And>j. sl_live j st \<Longrightarrow> j \<noteq> i \<Longrightarrow> cn_buf (sl_conns st ! j) = []"
  shows "sl_bufs_ok (close_conn i st)" "sl_bufs_ok (unwatch i st)"
  using assms unfolding sl_bufs_ok_def close_conn_fields unwatch_fields
  by (auto simp: nth_list_update split: if_splits)

lemma fold_unwatch:
  assumes "sl_table_ok st" and "sl_bufs_ok st" and "set is \<subseteq> {..<SELECT_MAX_CONNS}"
  defines "st' \<equiv> fold (\<lambda>i st. if cn_fd (sl_conns st ! i) \<noteq> -1 then unwatch i st else st) is st"
  shows "sl_table_ok st' \<and> sl_bufs_ok st' \<and> ledger_move\<^sup>*\<^sup>* (select_ledger st) (select_ledger st') \<and> sl_kept st st'"
  using assms(1-3) unfolding st'_def
proof (induction "is" arbitrary: st)
  case (Cons i "is")
  show ?case
  proof (cases "cn_fd (sl_conns st ! i) \<noteq> -1")
    case True
    then have i: "sl_live i st" using Cons.prems(3) by simp
    have "sl_bufs_ok (unwatch i st)"
      by (rule sl_bufs_ok_close(2)) (use i Cons.prems(1,2) in \<open>auto simp: sl_table_ok_def sl_bufs_ok_def\<close>)
    from Cons.IH [OF sl_table_ok_unwatch [OF Cons.prems(1) i] this] Cons.prems(3) True
      unwatch_move [OF Cons.prems(1) i] unwatch_fields(1) [of st i]
    show ?thesis by (auto simp: sl_kept_def intro: converse_rtranclp_into_rtranclp)
  next
    case False
    then show ?thesis using Cons.IH [OF Cons.prems(1,2)] Cons.prems(3) by simp
  qed
qed (simp add: sl_kept_def)

lemma fold_close:
  fixes P :: "conn \<Rightarrow> bool"
  assumes "sl_table_ok st" and "sl_bufs_ok st" and "sl_set_ok st" and "set is \<subseteq> {..<SELECT_MAX_CONNS}"
  defines "st' \<equiv> fold (\<lambda>i st. if cn_fd (sl_conns st ! i) \<noteq> -1 \<and> P (sl_conns st ! i) then close_conn i st else st) is st"
  shows "sl_table_ok st' \<and> sl_bufs_ok st' \<and> sl_set_ok st'
    \<and> ledger_move\<^sup>*\<^sup>* (select_ledger st) (select_ledger st') \<and> sl_kept st st'"
  using assms(1-4) unfolding st'_def
proof (induction "is" arbitrary: st)
  case (Cons i "is")
  show ?case
  proof (cases "cn_fd (sl_conns st ! i) \<noteq> -1 \<and> P (sl_conns st ! i)")
    case True
    then have i: "sl_live i st" using Cons.prems(4) by simp
    have "sl_bufs_ok (close_conn i st)"
      by (rule sl_bufs_ok_close(1)) (use i Cons.prems(1,2) in \<open>auto simp: sl_table_ok_def sl_bufs_ok_def\<close>)
    from Cons.IH [OF close_conn_ok(1) [OF Cons.prems(1) i] this sl_set_ok_close [OF Cons.prems(1,3) i]]
      Cons.prems(4) True close_conn_ok(2) [OF Cons.prems(1) i] close_conn_fields(2) [of st i]
    show ?thesis by (auto simp: sl_kept_def intro: converse_rtranclp_into_rtranclp)
  next
    case False
    then have "(if cn_fd (sl_conns st ! i) \<noteq> -1 \<and> P (sl_conns st ! i) then close_conn i st else st) = st"
      by (rule if_not_P)
    then show ?thesis using Cons.IH [OF Cons.prems(1-3)] Cons.prems(4) by simp
  qed
qed (simp add: sl_kept_def)

subsection \<open>Serving a connection\<close>

definition sl_touches :: "nat \<Rightarrow> select_state \<Rightarrow> select_state \<Rightarrow> bool" where
  "sl_touches i st st' \<longleftrightarrow> (\<exists>c. sl_conns st' = (sl_conns st)[i := c] \<and> cn_fd c = cn_fd (sl_conns st ! i))
     \<and> sl_kept st st' \<and> sl_master st' = sl_master st \<and> sl_max st' = sl_max st \<and> sl_closed st' = sl_closed st"

lemma sl_touches_trans:
  assumes "sl_touches i s t" and "sl_touches i t u"
  shows "sl_touches i s u"
proof (cases "i < length (sl_conns s)")
  case True
  then show ?thesis using assms unfolding sl_touches_def sl_kept_def by auto
next
  case False
  then show ?thesis using assms unfolding sl_touches_def sl_kept_def by (auto simp: list_update_beyond)
qed

lemma sl_touches_refl [simp]: "sl_touches i st st"
  unfolding sl_touches_def sl_kept_def by (auto intro: exI [of _ "sl_conns st ! i"])

lemma sl_touches_put: "cn_fd c = cn_fd (sl_conns st ! i) \<Longrightarrow> sl_touches i st (put_conn i c st)"
  unfolding sl_touches_def put_conn_def sl_kept_def by auto

lemma sl_touches_reply: "sl_touches i st (reply_to j out sent st)"
  unfolding sl_touches_def reply_to_def sl_kept_def by (auto intro: exI [of _ "sl_conns st ! i"])

lemma sl_touches_server: "sl_touches i st (st\<lparr>sl_server := sv\<rparr>)"
  unfolding sl_touches_def sl_kept_def by (auto intro: exI [of _ "sl_conns st ! i"])

lemma sl_touches_conns:
  assumes "sl_touches i st st'" and "sl_table_ok st"
  shows "cn_fd (sl_conns st' ! j) = cn_fd (sl_conns st ! j)" and "live (sl_conns st') = live (sl_conns st)"
    and "j \<noteq> i \<Longrightarrow> sl_conns st' ! j = sl_conns st ! j" and "length (sl_conns st') = SELECT_MAX_CONNS"
proof -
  obtain c where c: "sl_conns st' = (sl_conns st)[i := c]" "cn_fd c = cn_fd (sl_conns st ! i)"
    using assms(1) unfolding sl_touches_def by blast
  show "cn_fd (sl_conns st' ! j) = cn_fd (sl_conns st ! j)"
    using c by (cases "i < length (sl_conns st)"; cases "j = i") (auto simp: list_update_beyond)
  show "live (sl_conns st') = live (sl_conns st)"
    using c live_keep [of i "sl_conns st" c] by (cases "i < length (sl_conns st)") (auto simp: list_update_beyond)
  show "j \<noteq> i \<Longrightarrow> sl_conns st' ! j = sl_conns st ! j" "length (sl_conns st') = SELECT_MAX_CONNS"
    using c assms(2) by (simp_all add: sl_table_ok_def)
qed

lemma sl_touches_ok:
  assumes "sl_touches i st st'" and "sl_table_ok st"
  shows "sl_table_ok st'" and "sl_set_ok st \<Longrightarrow> sl_set_ok st'" and "select_ledger st' = select_ledger st"
proof -
  note conns = sl_touches_conns [OF assms]
  have same: "sl_listen st' = sl_listen st" "sl_master st' = sl_master st" "sl_max st' = sl_max st"
      "sl_accepted st' = sl_accepted st" "sl_closed st' = sl_closed st"
    using assms(1) by (simp_all add: sl_touches_def sl_kept_def)
  show "sl_table_ok st'" using assms(2) by (simp add: sl_table_ok_def conns same)
  show "sl_set_ok st \<Longrightarrow> sl_set_ok st'" unfolding sl_set_ok_def conns same .
  show "select_ledger st' = select_ledger st" by (simp add: select_ledger_def conns same)
qed

definition sl_settled :: "int \<Rightarrow> select_state \<Rightarrow> select_state \<Rightarrow> bool" where
  "sl_settled fd st st' \<longleftrightarrow> sl_table_ok st' \<and> sl_set_ok st' \<and> sl_bufs_ok st'
     \<and> ledger_move\<^sup>*\<^sup>* (select_ledger st) (select_ledger st') \<and> sl_kept st st'
     \<and> (\<forall>f. f \<in># live (sl_conns st) \<longrightarrow> f \<noteq> fd \<longrightarrow> f \<in># live (sl_conns st'))"

lemma sl_settled_close:
  assumes ok: "sl_table_ok st" "sl_set_ok st" "sl_bufs_ok st" and i: "sl_live i st" and t: "sl_touches i st st'"
  shows "sl_settled (cn_fd (sl_conns st ! i)) st (close_conn i st')"
proof -
  note conns = sl_touches_conns [OF t ok(1)] and ok' = sl_touches_ok [OF t ok(1)]
  have i': "sl_live i st'" using i conns(1) by simp
  have "sl_bufs_ok (close_conn i st')"
    by (rule sl_bufs_ok_close(1)) (use i ok(3) conns(1,3,4) in \<open>auto simp: sl_bufs_ok_def\<close>)
  moreover have "sl_kept st (close_conn i st')"
    using t close_conn_fields(2) [of st' i] by (simp add: sl_touches_def sl_kept_def)
  moreover have "f \<in># live (sl_conns (close_conn i st'))"
    if "f \<in># live (sl_conns st)" "f \<noteq> cn_fd (sl_conns st ! i)" for f
    using that unwatch_live(1) [OF ok'(1) i'] conns(1,2) unfolding close_conn_fields by simp
  ultimately show ?thesis
    using close_conn_ok [OF ok'(1) i'] sl_set_ok_close [OF ok'(1) ok'(2) [OF ok(2)] i'] ok'(3)
    by (simp add: sl_settled_def r_into_rtranclp)
qed

lemma sl_settled_keep:
  assumes ok: "sl_table_ok st" "sl_set_ok st" "sl_bufs_ok st" and t: "sl_touches i st st'"
    and "cn_buf (sl_conns st' ! i) = []"
  shows "sl_settled fd st st'"
proof -
  note conns = sl_touches_conns [OF t ok(1)] and ok' = sl_touches_ok [OF t ok(1)]
  have "sl_bufs_ok st'" using ok(3) assms(5) conns(1,3) unfolding sl_bufs_ok_def by metis
  then show ?thesis using ok' ok(2) conns(2) t by (simp add: sl_settled_def sl_touches_def)
qed

lemma sl_settled_done:
  assumes ok: "sl_table_ok st" "sl_set_ok st" "sl_bufs_ok st" and i: "sl_live i st" and t: "sl_touches i st st1"
  shows "sl_settled (cn_fd (sl_conns st ! i)) st (request_done i sent st1)"
proof -
  define s where "s = put_conn i ((sl_conns st1 ! i)\<lparr>cn_count := cn_count (sl_conns st1 ! i) + 1\<rparr>) st1"
  have s: "sl_touches i st s"
    unfolding s_def by (rule sl_touches_trans [OF t sl_touches_put]) simp
  have rearm: "sl_touches i st (rearm i s)"
    unfolding rearm_def by (rule sl_touches_trans [OF s sl_touches_put]) simp
  have len: "i < length (sl_conns s)" using sl_touches_conns(4) [OF s ok(1)] i by simp
  then have "cn_buf (sl_conns (rearm i s) ! i) = []" by (simp add: rearm_def put_conn_def)
  then show ?thesis
    using sl_settled_close [OF ok i t] sl_settled_close [OF ok i s] sl_settled_keep [OF ok rearm]
    unfolding request_done_def Let_def s_def [symmetric] by simp
qed

lemma sl_settled_data:
  assumes ok: "sl_table_ok st" "sl_set_ok st" "sl_bufs_ok st" and i: "sl_live i st"
    and "select_data i io data st = Ret st'"
  shows "sl_settled (cn_fd (sl_conns st ! i)) st st'"
proof -
  let ?c = "sl_conns st ! i"
  define raw where "raw = cn_buf ?c @ take (RECV_BUF_SIZE - length (cn_buf ?c) - 1) data"
  define s where "s = put_conn i (?c\<lparr>cn_buf := raw, cn_last := ev_now (ci_env io)\<rparr>) st"
  have s: "sl_touches i st s" unfolding s_def by (rule sl_touches_put) simp
  have sent: "sl_touches i st (reply_to i out (ci_sent io) s)" for out
    by (rule sl_touches_trans [OF s sl_touches_reply])
  have served: "sl_touches i st (reply_to i out (ci_sent io) (s\<lparr>sl_server := sv\<rparr>))" for out sv
    by (rule sl_touches_trans [OF sl_touches_trans [OF s sl_touches_server] sl_touches_reply])
  show ?thesis
    using assms(5) sl_settled_close [OF ok i sent] sl_settled_done [OF ok i served]
    unfolding select_data_def Let_def raw_def [symmetric] s_def [symmetric]
    by (auto simp: bind_run_Ret_iff split: option.splits prod.splits)
qed

lemma sl_settled_client:
  assumes ok: "sl_table_ok st" "sl_set_ok st" "sl_bufs_ok st" and fd: "fd \<in># live (sl_conns st)" "0 \<le> fd"
    and "select_client fd io st = Ret st'"
  shows "sl_settled fd st st'"
proof -
  have "first_index (\<lambda>c. cn_fd c = fd) (sl_conns st) \<noteq> None"
    using fd(1) by (auto simp: first_index_None live_def)
  then obtain i where slot: "first_index (\<lambda>c. cn_fd c = fd) (sl_conns st) = Some i" by blast
  then have i: "sl_live i st" "cn_fd (sl_conns st ! i) = fd"
    using first_index_Some [OF slot] fd(2) ok(1) by (simp_all add: sl_table_ok_def)
  show ?thesis
    using assms(6) slot sl_settled_data [OF ok i(1)] sl_settled_close [OF ok i(1) sl_touches_refl] i(2)
    by (auto simp: select_client_def split: received.splits)
qed

subsection \<open>Every step\<close>

lemma select_accept_ok:
  assumes ok: "sl_table_ok st" "sl_set_ok st" "sl_bufs_ok st"
    and fresh: "\<And>fd now. ac = Some (fd, now) \<Longrightarrow> 0 \<le> fd \<and> fd \<noteq> sl_listen st \<and> fd \<notin># live (sl_conns st)"
  defines "st' \<equiv> select_accept ac st"
  shows "sl_table_ok st' \<and> sl_set_ok st' \<and> sl_bufs_ok st'
    \<and> ledger_move\<^sup>*\<^sup>* (select_ledger st) (select_ledger st')
    \<and> sl_listen st' = sl_listen st \<and> sl_read st' = sl_read st \<and> sl_scan st' = sl_scan st
    \<and> sl_stopped st' = sl_stopped st \<and> set_mset (live (sl_conns st)) \<subseteq> set_mset (live (sl_conns st'))"
proof (cases ac)
  case None
  then show ?thesis using ok by (simp add: st'_def select_accept_def)
next
  case (Some a)
  obtain fd now where a: "ac = Some (fd, now)" using Some by (cases a) auto
  note fd = fresh [OF a]
  have len: "length (sl_conns st) = SELECT_MAX_CONNS" using ok(1) by (simp add: sl_table_ok_def)
  show ?thesis
  proof (cases "first_index conn_free (sl_conns st)")
    case None
    then have st': "st' = st\<lparr>sl_accepted := sl_accepted st @ [fd], sl_closed := sl_closed st @ [fd]\<rparr>"
      using a by (simp add: st'_def select_accept_def)
    have "ledger_move (select_ledger st) (select_ledger st')"
      using turn_away [of "select_ledger st" fd] by (simp add: select_ledger_def st')
    then show ?thesis using ok by (auto simp: st' sl_table_ok_def sl_set_ok_def sl_bufs_ok_def)
  next
    case slot: (Some i)
    then have i: "i < SELECT_MAX_CONNS" "conn_free (sl_conns st ! i)"
      using first_index_Some len by fastforce+
    define c where "c = \<lparr>cn_fd = fd, cn_buf = [], cn_count = 0, cn_last = now\<rparr>"
    have st': "st' = st\<lparr>sl_accepted := sl_accepted st @ [fd], sl_conns := (sl_conns st)[i := c],
        sl_master := insert fd (sl_master st), sl_overrun := (sl_overrun st \<or> FD_SETSIZE \<le> fd),
        sl_max := max (sl_max st) fd, sl_served := sl_served st + 1\<rparr>"
      using a slot by (simp add: st'_def select_accept_def put_conn_def c_def)
    have live: "live ((sl_conns st)[i := c]) = add_mset fd (live (sl_conns st))"
      using live_claim [of i "sl_conns st" c fd] i len fd by (simp add: c_def)
    have "sl_table_ok st'"
      using ok(1) fd by (auto simp: sl_table_ok_def st' live not_in_iff)
    moreover have "sl_set_ok st'"
      using ok(2) by (auto simp: sl_set_ok_def st' live max_def intro: order_trans [of _ "sl_max st"])
    moreover have "sl_bufs_ok st'"
      using ok(3) len i(1) unfolding sl_bufs_ok_def by (simp add: st' nth_list_update c_def)
    moreover have "ledger_move (select_ledger st) (select_ledger st')"
      using admit [of "select_ledger st" fd] by (simp add: select_ledger_def st' live)
    ultimately show ?thesis by (auto simp: st' live)
  qed
qed

lemma sl_cong:
  assumes "sl_conns st' = sl_conns st" "sl_listen st' = sl_listen st" "sl_master st' = sl_master st" "sl_max st' = sl_max st"
  shows "sl_table_ok st' = sl_table_ok st" "sl_set_ok st' = sl_set_ok st" "sl_bufs_ok st' = sl_bufs_ok st"
  using assms by (simp_all add: sl_table_ok_def sl_set_ok_def sl_bufs_ok_def)

lemma select_start_inv:
  "select_inv (select_start l sv) \<and> select_ledger (select_start l sv) = empty_ledger"
proof -
  have "live (replicate SELECT_MAX_CONNS unused_conn) = {#}"
    by (rule live_all_free) (simp add: conn_free_def unused_conn_def)
  then show ?thesis
    by (simp add: select_inv_def sl_table_ok_def sl_set_ok_def sl_bufs_ok_def scan_ok_def select_start_def
        select_ledger_def empty_ledger_def unused_conn_def)
qed

lemma select_shutdown_free:
  assumes "length (sl_conns st) = SELECT_MAX_CONNS"
  shows "live (sl_conns (select_shutdown st)) = {#}"
proof -
  let ?f = "\<lambda>i st. if cn_fd (sl_conns st ! i) \<noteq> -1 then unwatch i st else st"
  have "length (sl_conns (fold ?f [0..<n] st)) = SELECT_MAX_CONNS
      \<and> (\<forall>i<n. cn_fd (sl_conns (fold ?f [0..<n] st) ! i) = -1)" if "n \<le> SELECT_MAX_CONNS" for n
    using that
  proof (induction n)
    case (Suc n)
    then show ?case by (auto simp: nth_list_update less_Suc_eq unwatch_fields)
  qed (use assms in simp)
  from this [of SELECT_MAX_CONNS] show ?thesis
    by (intro live_all_free) (auto simp: select_shutdown_def Let_def conn_free_def in_set_conv_nth)
qed

lemma select_slots: "set [0..<SELECT_MAX_CONNS] \<subseteq> {..<SELECT_MAX_CONNS}"
  by auto

lemma select_step_ok:
  assumes "select_step st st'" and "select_inv st"
  shows "select_inv st' \<and> ledger_move\<^sup>*\<^sup>* (select_ledger st) (select_ledger st')"
proof -
  have run: "\<not> sl_stopped st" using assms(1) by (cases rule: select_step.cases) (simp_all add: watching_def)
  then have ok: "sl_table_ok st" "sl_set_ok st" "sl_bufs_ok st" and scan: "scan_ok st"
    using assms(2) by (simp_all add: select_inv_def)
  from assms(1) show ?thesis
  proof cases
    case (poll ready)
    have "sl_table_ok st'" "sl_set_ok st'" "sl_bufs_ok st'"
      using ok sl_cong [of st' st] by (simp_all add: poll(1))
    moreover have "scan_ok st'" using poll(4) ok(2) by (auto simp: poll(1) scan_ok_def sl_set_ok_def)
    ultimately show ?thesis using run by (simp add: select_inv_def poll(1) select_ledger_def)
  next
    case (time_out now)
    have "sl_table_ok st' \<and> sl_bufs_ok st' \<and> sl_set_ok st'
        \<and> ledger_move\<^sup>*\<^sup>* (select_ledger st) (select_ledger st') \<and> sl_kept st st'"
      unfolding time_out(1) select_idle_def by (rule fold_close [OF ok(1,3,2) select_slots])
    then show ?thesis using run time_out(3) by (simp add: select_inv_def scan_ok_def sl_kept_def)
  next
    case (pass fd)
    have "sl_table_ok st'" "sl_set_ok st'" "sl_bufs_ok st'"
      using ok sl_cong [of st' st] by (simp_all add: pass(1))
    moreover have "fd + 1 \<le> f" if "f \<in> sl_read st" "fd \<le> f" for f
    proof -
      have "f \<noteq> fd" using that pass(5) by blast
      then show ?thesis using that(2) by simp
    qed
    then have "scan_ok st'" using scan pass(3) by (auto simp: scan_ok_def pass(1))
    ultimately show ?thesis using run by (simp add: select_inv_def pass(1) select_ledger_def)
  next
    case (listener fd ac)
    let ?s = "st\<lparr>sl_scan := Some (fd + 1)\<rparr>"
    have s: "sl_table_ok ?s" "sl_set_ok ?s" "sl_bufs_ok ?s" using ok sl_cong [of ?s st] by simp_all
    have "sl_table_ok st' \<and> sl_set_ok st' \<and> sl_bufs_ok st'
        \<and> ledger_move\<^sup>*\<^sup>* (select_ledger ?s) (select_ledger st')
        \<and> sl_listen st' = sl_listen ?s \<and> sl_read st' = sl_read ?s \<and> sl_scan st' = sl_scan ?s
        \<and> sl_stopped st' = sl_stopped ?s \<and> set_mset (live (sl_conns ?s)) \<subseteq> set_mset (live (sl_conns st'))"
      unfolding listener(1) by (rule select_accept_ok [OF s]) (use listener(7) in simp)
    moreover from this have "scan_ok st'" using scan listener(3) by (auto simp: scan_ok_def)
    moreover have "select_ledger ?s = select_ledger st" by (simp add: select_ledger_def)
    ultimately show ?thesis using run by (simp add: select_inv_def)
  next
    case (client fd io)
    let ?s = "st\<lparr>sl_scan := Some (fd + 1)\<rparr>"
    have s: "sl_table_ok ?s" "sl_set_ok ?s" "sl_bufs_ok ?s" using ok sl_cong [of ?s st] by simp_all
    have fd: "fd \<in># live (sl_conns st)" using scan client(2,4,5) by (auto simp: scan_ok_def)
    moreover have "0 \<le> fd" using fd ok(1) by (simp add: sl_table_ok_def)
    ultimately have "sl_settled fd ?s st'" using client(6) by (intro sl_settled_client [OF s]) simp_all
    moreover have "select_ledger ?s = select_ledger st" by (simp add: select_ledger_def)
    moreover have "scan_ok st'" using scan client(2) \<open>sl_settled fd ?s st'\<close>
      by (auto simp: scan_ok_def sl_settled_def sl_kept_def)
    ultimately show ?thesis using run by (simp add: select_inv_def sl_settled_def sl_kept_def)
  next
    case (scanned fd)
    have "sl_table_ok st'" "sl_set_ok st'" "sl_bufs_ok st'"
      using ok sl_cong [of st' st] by (simp_all add: scanned(1))
    then show ?thesis using run by (simp add: select_inv_def scan_ok_def scanned(1) select_ledger_def)
  next
    case leave
    define s where "s = fold (\<lambda>i st. if cn_fd (sl_conns st ! i) \<noteq> -1 then unwatch i st else st) [0..<SELECT_MAX_CONNS] st"
    have s: "sl_table_ok s \<and> sl_bufs_ok s \<and> ledger_move\<^sup>*\<^sup>* (select_ledger st) (select_ledger s) \<and> sl_kept st s"
      unfolding s_def by (rule fold_unwatch [OF ok(1,3) select_slots])
    have st': "st' = s\<lparr>sl_master := sl_master s - {sl_listen s}, sl_stopped := True\<rparr>"
      by (simp add: leave(1) select_shutdown_def s_def Let_def)
    have "live (sl_conns st') = {#}"
      unfolding leave(1) by (rule select_shutdown_free) (use ok(1) in \<open>simp add: sl_table_ok_def\<close>)
    then show ?thesis using s
      by (simp add: select_inv_def sl_table_ok_def sl_bufs_ok_def select_ledger_def st')
  qed
qed

interpretation select: accounted "\<lambda>st. \<exists>l sv. st = select_start l sv" select_step select_inv select_ledger
  by unfold_locales (auto simp: select_start_inv dest: select_step_ok)

text \<open>
  C18: in every state that the loop around \<open>select\<close> reaches while it runs and every descriptor fits an
  \<open>fd_set\<close>, the watched set is the listening socket and the descriptors in the table, and \<open>max_fd\<close> is
  its largest element, so the scan reaches every watched descriptor; each descriptor that \<open>accept\<close>
  returned is open in the table or was closed exactly once, and none is open after the shutdown.
\<close>

theorem select_watches_all:
  assumes "select_step\<^sup>*\<^sup>* (select_start l sv) st"
  shows "mset (sl_accepted st) = mset (sl_closed st) + live (sl_conns st)
    \<and> (sl_stopped st \<or> sl_master st = insert (sl_listen st) (set_mset (live (sl_conns st)))
        \<and> sl_max st = Max (sl_master st))
    \<and> (sl_stopped st \<longrightarrow> mset (sl_accepted st) = mset (sl_closed st))"
proof -
  have inv: "select_inv st" using select.reaches [OF assms] by blast
  have all: "mset (sl_accepted st) = mset (sl_closed st) + live (sl_conns st)"
    using select.accounts [OF assms] by (auto simp: select_ledger_def)
  have "sl_master st = insert (sl_listen st) (set_mset (live (sl_conns st))) \<and> sl_max st = Max (sl_master st)"
    if "\<not> sl_stopped st"
  proof -
    have ok: "sl_set_ok st" using inv that by (simp add: select_inv_def)
    then have "finite (sl_master st)" by (simp add: sl_set_ok_def)
    then show ?thesis using ok by (metis Max_eqI sl_set_ok_def)
  qed
  moreover have "sl_stopped st \<longrightarrow> live (sl_conns st) = {#}" using inv by (simp add: select_inv_def)
  ultimately show ?thesis using all by auto
qed

lemma select_start_slots: "sl_conns (select_start l sv) = unused_conn # replicate 1023 unused_conn"
  by (simp add: select_start_def SELECT_MAX_CONNS_def flip: replicate_Suc)

lemma select_accept_reached:
  fixes sv :: server
  assumes "0 \<le> fd" "fd \<noteq> 3"
  defines "st \<equiv> select_accept (Some (fd, 100)) ((select_start 3 sv)\<lparr>sl_read := {3}, sl_scan := Some 4\<rparr>)"
  shows "select_step\<^sup>*\<^sup>* (select_start 3 sv) st" and "sl_accepted st = [fd]" "sl_closed st = []"
    "\<not> sl_stopped st" "sl_overrun st \<longleftrightarrow> FD_SETSIZE \<le> fd"
proof -
  let ?s = "\<lambda>n. (select_start 3 sv)\<lparr>sl_read := {3}, sl_scan := Some n\<rparr>"
  have w: "watching (?s n)" "sl_max (?s n) = 3" for n by (simp_all add: watching_def select_start_def)
  have pass: "select_step (?s n) (?s (n + 1))" if "n < 3" for n
    using select_step.pass [OF w(1) [of n], of n] w(2) that by simp
  have "select_step (select_start 3 sv) (?s 0)"
    by (rule select_step.poll) (simp_all add: watching_def select_start_def)
  moreover have "select_step (?s 0) (?s 1)" "select_step (?s 1) (?s 2)" "select_step (?s 2) (?s 3)"
    using pass [of 0] pass [of 1] pass [of 2] by simp_all
  moreover have "live (replicate SELECT_MAX_CONNS unused_conn) = {#}"
    by (rule live_all_free) (simp add: conn_free_def unused_conn_def)
  then have "select_step (?s 3) (select_accept (Some (fd, 100)) ((?s 3)\<lparr>sl_scan := Some (3 + 1)\<rparr>))"
    using assms(1,2) w
    by (intro select_step.listener [of _ 3]) (simp_all add: select_start_def watching_def)
  ultimately show "select_step\<^sup>*\<^sup>* (select_start 3 sv) st"
    unfolding st_def by (simp add: converse_rtranclp_into_rtranclp r_into_rtranclp)
  show "sl_accepted st = [fd]" "sl_closed st = []" "\<not> sl_stopped st" "sl_overrun st \<longleftrightarrow> FD_SETSIZE \<le> fd"
    by (simp_all add: st_def select_accept_def select_start_slots conn_free_def unused_conn_def put_conn_def)
      (simp_all add: select_start_def)
qed

lemma select_watches_all_witness:
  "\<exists>sv st. select_step\<^sup>*\<^sup>* (select_start 3 sv) st \<and> {#5#} = live (sl_conns st) \<and> sl_max st = Max (sl_master st)"
proof -
  fix sv
  obtain st where st: "select_step\<^sup>*\<^sup>* (select_start 3 sv) st" "sl_accepted st = [5]" "sl_closed st = []" "\<not> sl_stopped st"
    using select_accept_reached [of 5 sv] by auto
  show ?thesis using st select_watches_all [OF st(1)] by (intro exI [of _ sv] exI [of _ st]) simp
qed

text \<open>
  A descriptor beyond the size of an \<open>fd_set\<close> is not turned away: with more descriptors allowed than
  \<open>FD_SETSIZE\<close>, \<open>FD_SET\<close> writes behind \<open>master_set\<close>.
\<close>

lemma select_overruns_fd_set:
  "\<exists>st. select_step\<^sup>*\<^sup>* (select_start 3 sv) st \<and> sl_overrun st"
  using select_accept_reached(1,5) [of 1024 sv] by auto

end
