(* ===== verification/Log.thy ===== *)
theory Log
  imports Config
begin

text \<open>
  The logging system of \<open>src/log.c\<close>.  \<open>log_state\<close> holds its static variables and what they act on: a
  directory that maps path names to files, the contents of the files, and the open streams; a
  \<open>FILE *\<close> is a number in \<open>lg_open\<close>.  Using a stream that has been closed is undefined in C: the
  operations return \<open>None\<close> then.  \<open>le_can_open\<close> says which paths \<open>fopen\<close> can open; time, process and
  thread numbers are arguments.  The messages printed to stderr are left out.
\<close>

subsection \<open>State\<close>

record log_env =
  le_can_open :: "string \<Rightarrow> bool"
  le_time :: string    \<comment> \<open>date, time and microseconds of a record\<close>
  le_clock :: string   \<comment> \<open>the time of an access record\<close>
  le_pid :: nat
  le_tid :: nat

record log_state =
  lg_system :: "nat option"
  lg_access :: "nat option"
  lg_level :: nat
  lg_max_lines :: int
  lg_max_roll :: nat
  lg_system_lines :: int
  lg_access_lines :: int
  lg_system_path :: string
  lg_access_path :: string
  lg_dir :: "string \<Rightarrow> nat option"
  lg_data :: "nat \<Rightarrow> string"
  lg_files :: nat              \<comment> \<open>files numbered from here on are new\<close>
  lg_open :: "nat \<Rightarrow> nat option"
  lg_streams :: nat            \<comment> \<open>streams numbered from here on are new\<close>

definition level_label :: "nat \<Rightarrow> string" where
  "level_label l =
     (if l = 0 then ''DEBUG'' else if l = 1 then ''INFO '' else if l = 2 then ''WARN ''
      else if l = 3 then ''ERROR'' else ''?????'')"

abbreviation (input) LOG_INFO_N :: nat where "LOG_INFO_N \<equiv> 1"

subsection \<open>Files and streams\<close>

definition open_append :: "log_env \<Rightarrow> string \<Rightarrow> log_state \<Rightarrow> nat option \<times> log_state" where
  \<comment> \<open>\<open>fopen(path, "a")\<close>\<close>
  "open_append e path st =
     (if \<not> le_can_open e path then (None, st)
      else let (f, st) = (case lg_dir st path of
                  Some f \<Rightarrow> (f, st)
                | None \<Rightarrow> (lg_files st, st\<lparr>lg_dir := (lg_dir st)(path \<mapsto> lg_files st),
                     lg_data := (lg_data st)(lg_files st := []), lg_files := lg_files st + 1\<rparr>))
           in (Some (lg_streams st),
               st\<lparr>lg_open := (lg_open st)(lg_streams st \<mapsto> f), lg_streams := lg_streams st + 1\<rparr>))"

definition close_stream :: "nat \<Rightarrow> log_state \<Rightarrow> log_state option" where
  "close_stream h st =
     (case lg_open st h of None \<Rightarrow> None | Some _ \<Rightarrow> Some (st\<lparr>lg_open := (lg_open st)(h := None)\<rparr>))"

definition write_stream :: "nat \<Rightarrow> string \<Rightarrow> log_state \<Rightarrow> log_state option" where
  "write_stream h text st =
     (case lg_open st h of
        None \<Rightarrow> None
      | Some f \<Rightarrow> Some (st\<lparr>lg_data := (lg_data st)(f := lg_data st f @ text)\<rparr>))"

definition rename_file :: "string \<Rightarrow> string \<Rightarrow> (string \<Rightarrow> nat option) \<Rightarrow> string \<Rightarrow> nat option" where
  "rename_file a b dir = (case dir a of None \<Rightarrow> dir | Some f \<Rightarrow> dir(a := None, b \<mapsto> f))"

definition newlines :: "string \<Rightarrow> int" where
  "newlines s = int (length (filter (\<lambda>c. c = LF) s))"

definition count_file :: "string \<Rightarrow> log_state \<Rightarrow> int" where
  \<comment> \<open>the loop that counts the lines of an existing file; a file open for appending exists\<close>
  "count_file path st = (case lg_dir st path of None \<Rightarrow> 0 | Some f \<Rightarrow> newlines (lg_data st f))"

subsection \<open>Rotation\<close>

definition old_log :: "string \<Rightarrow> nat \<Rightarrow> string" where
  "old_log path i = path @ ''.'' @ dec_nat i"

fun shift_logs :: "string \<Rightarrow> nat \<Rightarrow> nat \<Rightarrow> (string \<Rightarrow> nat option) \<Rightarrow> string \<Rightarrow> nat option" where
  \<comment> \<open>the loop from \<open>i\<close> down to 1\<close>
  "shift_logs path roll 0 dir = dir"
| "shift_logs path roll (Suc i) dir =
     shift_logs path roll i
       (if Suc i = roll then dir(old_log path roll := None)
        else rename_file (old_log path (Suc i)) (old_log path (Suc i + 1)) dir)"

definition rotate_log :: "log_env \<Rightarrow> string \<Rightarrow> nat option \<Rightarrow> log_state \<Rightarrow> (nat option \<times> bool \<times> log_state) option" where
  \<comment> \<open>the new stream, whether the line count is reset, and the state\<close>
  "rotate_log e path fp st =
     (case fp of
        None \<Rightarrow> Some (None, False, st)
      | Some h \<Rightarrow>
          if path = [] then Some (fp, False, st)
          else Option.bind (close_stream h st) (\<lambda>st.
            let roll = lg_max_roll st;
                dir = shift_logs path roll roll (lg_dir st);
                dir = (if roll \<ge> 1 then rename_file path (old_log path 1) dir else dir);
                (new, st) = open_append e path (st\<lparr>lg_dir := dir\<rparr>)
            in Some (new, True, st)))"

subsection \<open>Writing\<close>

definition system_record :: "log_env \<Rightarrow> nat \<Rightarrow> string \<Rightarrow> string" where
  "system_record e level msg =
     ''['' @ le_time e @ ''] ['' @ level_label level @ ''] [PID '' @ dec_nat (le_pid e) @ ''] [TID ''
       @ dec_nat (le_tid e) @ ''] '' @ msg @ [LF]"

definition rotation_due :: "log_state \<Rightarrow> int \<Rightarrow> bool" where
  "rotation_due st lines \<longleftrightarrow> lg_max_lines st > 0 \<and> lines \<ge> lg_max_lines st"

definition system_rotated :: "log_env \<Rightarrow> log_state \<Rightarrow> log_state option" where
  \<comment> \<open>the check before a record is written to the system log\<close>
  "system_rotated e st =
     (if rotation_due st (lg_system_lines st) \<and> lg_system_path st \<noteq> []
      then Option.bind (rotate_log e (lg_system_path st) (lg_system st) st) (\<lambda>(fp, reset, st).
             Some (st\<lparr>lg_system := fp, lg_system_lines := (if reset then 0 else lg_system_lines st)\<rparr>))
      else Some st)"

definition log_write_system :: "log_env \<Rightarrow> nat \<Rightarrow> string \<Rightarrow> log_state \<Rightarrow> log_state option" where
  "log_write_system e level msg st =
     (if lg_system st = None then Some st
      else Option.bind (system_rotated e st) (\<lambda>st.
        case lg_system st of
          None \<Rightarrow> Some st
        | Some h \<Rightarrow>
            Option.bind (write_stream h (system_record e level msg) st) (\<lambda>st.
              Some (st\<lparr>lg_system_lines := lg_system_lines st + 1\<rparr>))))"

definition log_at :: "nat \<Rightarrow> log_env \<Rightarrow> string \<Rightarrow> log_state \<Rightarrow> log_state option" where
  \<comment> \<open>\<open>log_debug\<close>, \<open>log_info\<close>, \<open>log_warning\<close> and \<open>log_error\<close> for their level\<close>
  "log_at level e msg st = (if lg_level st > level then Some st else log_write_system e level msg st)"

definition log_atf :: "nat \<Rightarrow> log_env \<Rightarrow> string \<Rightarrow> log_state \<Rightarrow> log_state option" where
  \<comment> \<open>the variants with a format; \<open>text\<close> is what the format prints\<close>
  "log_atf level e printed st =
     (if lg_level st > level \<or> lg_system st = None then Some st
      else log_write_system e level (snprintf_to 2048 printed) st)"

definition log_pid :: "nat \<Rightarrow> log_env \<Rightarrow> int \<Rightarrow> string \<Rightarrow> log_state \<Rightarrow> log_state option" where
  \<comment> \<open>\<open>log_info_pid\<close> and \<open>log_error_pid\<close>\<close>
  "log_pid level e pid msg st =
     (if lg_level st > level then Some st
      else log_write_system e level (snprintf_to 2048 (''[PID '' @ dec_int pid @ ''] '' @ msg)) st)"

definition access_record :: "log_env \<Rightarrow> string \<Rightarrow> string \<Rightarrow> string \<Rightarrow> int \<Rightarrow> int \<Rightarrow> string" where
  "access_record e ip meth path status sent =
     ''['' @ le_clock e @ ''] '' @ ip @ '' '' @ meth @ '' '' @ path @ '' '' @ dec_int status @ '' ''
       @ dec_int sent @ [LF]"

definition access_rotated :: "log_env \<Rightarrow> nat \<Rightarrow> log_state \<Rightarrow> (nat option \<times> log_state) option" where
  \<comment> \<open>the check before an access record is written, and the pointers updated by a rotation\<close>
  "access_rotated e h st =
     (let path = (if lg_access_path st \<noteq> [] then lg_access_path st else lg_system_path st)
      in if rotation_due st (lg_access_lines st) \<and> path \<noteq> []
         then Option.bind (rotate_log e path (Some h) st) (\<lambda>(fp, reset, st).
                let st = st\<lparr>lg_access_lines := (if reset then 0 else lg_access_lines st)\<rparr>
                in case fp of
                     None \<Rightarrow> Some (None, st)
                   | Some h \<Rightarrow> Some (Some h, if lg_access_path st \<noteq> [] then st\<lparr>lg_access := Some h\<rparr>
                                           else st\<lparr>lg_system := Some h, lg_access := Some h\<rparr>))
         else Some (Some h, st))"

definition log_access :: "log_env \<Rightarrow> string \<Rightarrow> string \<Rightarrow> string \<Rightarrow> int \<Rightarrow> int \<Rightarrow> log_state \<Rightarrow> log_state option" where
  "log_access e ip meth path status sent st =
     (case (if lg_access st \<noteq> None then lg_access st else lg_system st) of
        None \<Rightarrow> Some st
      | Some h \<Rightarrow>
          Option.bind (access_rotated e h st) (\<lambda>(fp, st).
            case fp of
              None \<Rightarrow> Some st
            | Some h \<Rightarrow>
                Option.bind (write_stream h (access_record e ip meth path status sent) st) (\<lambda>st.
                  Some (st\<lparr>lg_access_lines := lg_access_lines st + 1\<rparr>))))"

subsection \<open>Opening and closing\<close>

definition open_system :: "log_env \<Rightarrow> string option \<Rightarrow> log_state \<Rightarrow> bool \<times> log_state" where
  "open_system e path st =
     (case path of
        None \<Rightarrow> (True, st\<lparr>lg_system := None, lg_system_path := []\<rparr>)
      | Some p \<Rightarrow>
          if p = [] then (True, st\<lparr>lg_system := None, lg_system_path := []\<rparr>)
          else let (h, st) = open_append e p st
               in if h = None then (False, st\<lparr>lg_system := None\<rparr>)
                  else (True, st\<lparr>lg_system := h, lg_system_path := copy_text 256 p,
                                 lg_system_lines := lg_system_lines st + count_file p st\<rparr>))"

definition open_access :: "log_env \<Rightarrow> string option \<Rightarrow> string option \<Rightarrow> log_state \<Rightarrow> log_state" where
  "open_access e system path st =
     (case path of
        None \<Rightarrow> st\<lparr>lg_access := None, lg_access_path := []\<rparr>
      | Some p \<Rightarrow>
          if p = [] then st\<lparr>lg_access := None, lg_access_path := []\<rparr>
          else if system = Some p
          then st\<lparr>lg_access := lg_system st, lg_access_lines := lg_system_lines st, lg_access_path := []\<rparr>
          else let (h, st) = open_append e p st
               in st\<lparr>lg_access := h, lg_access_path := copy_text 256 p,
                     lg_access_lines := lg_access_lines st + (if h = None then 0 else count_file p st)\<rparr>)"

definition log_init ::
    "log_env \<Rightarrow> string option \<Rightarrow> string option \<Rightarrow> int \<Rightarrow> int \<Rightarrow> log_state \<Rightarrow> (int \<times> log_state) option" where
  \<comment> \<open>a negative number of old files acts as 0\<close>
  "log_init e system access max_lines roll st =
     (let st = st\<lparr>lg_max_lines := max_lines, lg_max_roll := nat roll, lg_system_lines := 0, lg_access_lines := 0\<rparr>;
          (ok, st) = open_system e system st
      in if \<not> ok then Some (-1, st)
         else Option.bind (log_write_system e LOG_INFO_N ''Logging system initialized (v1.2.1)''
                (open_access e system access st)) (\<lambda>st. Some (0, st)))"

definition log_init_single :: "log_env \<Rightarrow> string option \<Rightarrow> log_state \<Rightarrow> (int \<times> log_state) option" where
  "log_init_single e path = log_init e path None 0 0"

definition reopen_system :: "log_env \<Rightarrow> log_state \<Rightarrow> (bool \<times> log_state) option" where
  "reopen_system e st =
     (case lg_system st of
        None \<Rightarrow> Some (True, st)
      | Some h \<Rightarrow>
          if lg_system_path st = [] then Some (True, st)
          else Option.bind (close_stream h (st\<lparr>lg_access := (if lg_access st = Some h then None else lg_access st)\<rparr>))
            (\<lambda>st. let (new, st) = open_append e (lg_system_path st) st
                  in Some (new \<noteq> None, st\<lparr>lg_system := new,
                       lg_system_lines := (if new = None then lg_system_lines st else 0)\<rparr>)))"

definition reopen_access :: "log_env \<Rightarrow> log_state \<Rightarrow> (bool \<times> log_state) option" where
  "reopen_access e st =
     (if lg_access_path st \<noteq> [] \<and> lg_access st \<noteq> None
      then Option.bind (close_stream (the (lg_access st)) st)
        (\<lambda>st. let (new, st) = open_append e (lg_access_path st) st
              in Some (new \<noteq> None, st\<lparr>lg_access := new,
                   lg_access_lines := (if new = None then lg_access_lines st else 0)\<rparr>))
      else if lg_access_path st = [] \<and> lg_system_path st \<noteq> []
      then Some (True, st\<lparr>lg_access := lg_system st\<rparr>)
      else Some (True, st))"

definition log_reopen :: "log_env \<Rightarrow> log_state \<Rightarrow> (int \<times> log_state) option" where
  "log_reopen e st =
     Option.bind (reopen_system e st) (\<lambda>(ok1, st).
       Option.bind (reopen_access e st) (\<lambda>(ok2, st).
         Some (if ok1 \<and> ok2 then 0 else -1, st)))"

definition log_set_level :: "nat \<Rightarrow> log_state \<Rightarrow> log_state" where
  "log_set_level l st = st\<lparr>lg_level := l\<rparr>"

definition log_get_level :: "log_state \<Rightarrow> nat" where
  "log_get_level st = lg_level st"

definition log_close :: "log_env \<Rightarrow> log_state \<Rightarrow> log_state option" where
  \<comment> \<open>the comparison with \<open>g_system_log\<close> comes after that pointer has been cleared\<close>
  "log_close e st =
     Option.bind (log_write_system e LOG_INFO_N ''Logging system shutting down'' st) (\<lambda>st.
     Option.bind (case lg_system st of
                    None \<Rightarrow> Some st
                  | Some h \<Rightarrow> map_option (\<lambda>st. st\<lparr>lg_system := None\<rparr>) (close_stream h st)) (\<lambda>st.
     Option.bind (case lg_access st of
                    None \<Rightarrow> Some st
                  | Some h \<Rightarrow> if lg_access st \<noteq> lg_system st then close_stream h st else Some st) (\<lambda>st.
     Some (st\<lparr>lg_access := None\<rparr>))))"

end
