(* ===== verification/Log_Correct.thy ===== *)
theory Log_Correct
  imports Log
begin

text \<open>
  Rotation keeps the newest files: the generations of a log move up by one and the oldest is
  removed.  Writing keeps the line counter equal to the lines of the file and below the limit.  A log
  shared by both kinds of records is left with a closed stream by a rotation, and closed twice.
\<close>

subsection \<open>Names of old files\<close>

lemma dec_nat_inject [simp]: "dec_nat m = dec_nat n \<longleftrightarrow> m = n"
  by (metis digits_value_dec_nat)

lemma old_log_inject [simp]: "old_log path i = old_log path j \<longleftrightarrow> i = j"
  by (simp add: old_log_def)

lemma old_log_neq [simp]: "old_log path i \<noteq> path" "path \<noteq> old_log path i"
  by (auto simp: old_log_def)

lemma rename_file_simps:
  "a \<noteq> b \<Longrightarrow> rename_file a b dir a = None"
  "dir a \<noteq> None \<Longrightarrow> a \<noteq> b \<Longrightarrow> rename_file a b dir b = dir a"
  "dir a = None \<Longrightarrow> rename_file a b dir = dir"
  "x \<noteq> a \<Longrightarrow> x \<noteq> b \<Longrightarrow> rename_file a b dir x = dir x"
  by (auto simp: rename_file_def split: option.splits)

lemma rename_file_free: "dir b = None \<Longrightarrow> a \<noteq> b \<Longrightarrow> rename_file a b dir b = dir a"
  by (auto simp: rename_file_def split: option.splits)

subsection \<open>Rotation\<close>

lemma shift_logs_below:
  assumes "i < roll" and "dir (old_log path (i + 1)) = None"
  shows "(\<forall>k. 1 \<le> k \<and> k \<le> i \<longrightarrow> shift_logs path roll i dir (old_log path (k + 1)) = dir (old_log path k))
    \<and> shift_logs path roll i dir (old_log path 1) = None
    \<and> (\<forall>x. (\<forall>k. 1 \<le> k \<and> k \<le> i + 1 \<longrightarrow> x \<noteq> old_log path k) \<longrightarrow> shift_logs path roll i dir x = dir x)"
  using assms
proof (induction i arbitrary: dir)
  case 0
  then show ?case by simp
next
  case (Suc i)
  define dir1 where "dir1 = rename_file (old_log path (Suc i)) (old_log path (Suc i + 1)) dir"
  have "dir1 (old_log path (i + 1)) = None" by (simp add: dir1_def rename_file_simps)
  with Suc.IH [of dir1] Suc.prems(1)
  have IH: "1 \<le> k \<Longrightarrow> k \<le> i \<Longrightarrow> shift_logs path roll i dir1 (old_log path (k + 1)) = dir1 (old_log path k)"
      "shift_logs path roll i dir1 (old_log path 1) = None"
      "(\<And>k. 1 \<le> k \<Longrightarrow> k \<le> i + 1 \<Longrightarrow> x \<noteq> old_log path k) \<Longrightarrow> shift_logs path roll i dir1 x = dir1 x" for k x
    by auto
  have new: "dir1 (old_log path (Suc i + 1)) = dir (old_log path (Suc i))"
    unfolding dir1_def using Suc.prems(2) by (intro rename_file_free) simp_all
  have old: "dir1 x = dir x" if "x \<noteq> old_log path (Suc i)" "x \<noteq> old_log path (Suc i + 1)" for x
    using that by (simp add: dir1_def rename_file_simps)
  have step: "shift_logs path roll (Suc i) dir = shift_logs path roll i dir1"
    using Suc.prems(1) by (simp add: dir1_def)
  have "shift_logs path roll i dir1 (old_log path (k + 1)) = dir (old_log path k)" if "1 \<le> k" "k \<le> Suc i" for k
  proof (cases "k = Suc i")
    case True
    then show ?thesis using IH(3) [of "old_log path (Suc i + 1)"] new by simp
  next
    case False
    then show ?thesis using IH(1) [of k] that old [of "old_log path k"] by simp
  qed
  then show ?case using IH(2,3) old unfolding step by auto
qed

definition log_name :: "string \<Rightarrow> nat \<Rightarrow> string" where
  \<comment> \<open>the current log and the old ones, by age\<close>
  "log_name path k = (if k = 0 then path else old_log path k)"

lemma log_name_inject [simp]: "log_name path i = log_name path j \<longleftrightarrow> i = j"
  by (simp add: log_name_def)

lemma rotated_dir:
  fixes dir :: "string \<Rightarrow> nat option" and path :: string
  assumes "1 \<le> roll"
  defines "dir' \<equiv> rename_file path (old_log path 1) (shift_logs path roll roll dir)"
  shows "\<forall>k < roll. dir' (log_name path (k + 1)) = dir (log_name path k)" and "dir' path = None"
    and "\<forall>x. (\<forall>k \<le> roll. x \<noteq> log_name path k) \<longrightarrow> dir' x = dir x"
proof -
  obtain r where r: "roll = Suc r" using assms(1) by (cases roll) auto
  define dir0 where "dir0 = dir(old_log path roll := None)"
  have shift: "shift_logs path roll roll dir = shift_logs path roll r dir0" by (simp add: r dir0_def)
  note below = shift_logs_below [of r roll dir0 path]
  have free: "shift_logs path roll roll dir (old_log path 1) = None"
    and up: "\<And>k. 1 \<le> k \<Longrightarrow> k \<le> r \<Longrightarrow> shift_logs path roll roll dir (old_log path (k + 1)) = dir0 (old_log path k)"
    and same: "\<And>x. (\<And>k. 1 \<le> k \<Longrightarrow> k \<le> roll \<Longrightarrow> x \<noteq> old_log path k) \<Longrightarrow> shift_logs path roll roll dir x = dir0 x"
    using below unfolding shift by (simp_all add: r dir0_def)
  have here: "shift_logs path roll roll dir path = dir path" using same [of path] by (simp add: dir0_def)
  show "dir' path = None" by (simp add: dir'_def rename_file_simps)
  show "\<forall>k < roll. dir' (log_name path (k + 1)) = dir (log_name path k)"
  proof (intro allI impI)
    fix k assume k: "k < roll"
    show "dir' (log_name path (k + 1)) = dir (log_name path k)"
    proof (cases k)
      case 0
      then show ?thesis using rename_file_free [where a = path and b = "old_log path 1" and dir = "shift_logs path roll roll dir"] free here by (simp add: dir'_def log_name_def)
    next
      case (Suc j)
      then have "dir' (log_name path (k + 1)) = shift_logs path roll roll dir (old_log path (k + 1))"
        by (simp add: dir'_def log_name_def rename_file_simps)
      then show ?thesis using up [of k] Suc k r by (simp add: log_name_def dir0_def)
    qed
  qed
  show "\<forall>x. (\<forall>k \<le> roll. x \<noteq> log_name path k) \<longrightarrow> dir' x = dir x"
  proof (intro allI impI)
    fix x assume x: "\<forall>k \<le> roll. x \<noteq> log_name path k"
    then have *: "x \<noteq> path" "\<And>k. 1 \<le> k \<Longrightarrow> k \<le> roll \<Longrightarrow> x \<noteq> old_log path k"
      by (force simp: log_name_def)+
    then have "dir' x = shift_logs path roll roll dir x"
      using assms(1) by (simp add: dir'_def rename_file_simps)
    also have "\<dots> = dir x" using same [of x] * assms(1) by (simp add: dir0_def)
    finally show "dir' x = dir x" .
  qed
qed

definition files_fresh :: "log_state \<Rightarrow> bool" where
  "files_fresh st \<longleftrightarrow> (\<forall>x f. lg_dir st x = Some f \<longrightarrow> f < lg_files st)
     \<and> (\<forall>h f. lg_open st h = Some f \<longrightarrow> h < lg_streams st)"

definition generations :: "log_state \<Rightarrow> string \<Rightarrow> nat \<Rightarrow> string option list" where
  \<comment> \<open>the contents of the log and of its old files, newest first\<close>
  "generations st path n = map (\<lambda>k. map_option (lg_data st) (lg_dir st (log_name path k))) [0..<n]"

lemma rotate_log_effect:
  assumes "lg_open st h = Some f" and "path \<noteq> []" and "1 \<le> lg_max_roll st" and "le_can_open e path"
  defines "dir \<equiv> rename_file path (old_log path 1) (shift_logs path (lg_max_roll st) (lg_max_roll st) (lg_dir st))"
  shows "rotate_log e path (Some h) st = Some (Some (lg_streams st), True,
    st\<lparr>lg_dir := dir(path \<mapsto> lg_files st), lg_data := (lg_data st)(lg_files st := []),
       lg_files := lg_files st + 1, lg_open := (lg_open st)(h := None, lg_streams st \<mapsto> lg_files st),
       lg_streams := lg_streams st + 1\<rparr>)"
  using assms rotated_dir(2) [of "lg_max_roll st" path "lg_dir st"]
  by (simp add: rotate_log_def close_stream_def open_append_def Let_def)

text \<open>
  C24: rotating an open log whose path can be opened moves every generation up by one: the log is empty,
  the file with number 1 holds what the log held, the file with number \<open>k + 1\<close> what \<open>k\<close> held, and what
  the last one held is gone, so exactly the newest \<open>max_roll\<close> old logs are kept; no other file of the
  directory changes, and the new stream writes to the log.
\<close>

theorem rotate_log_generations:
  assumes "lg_open st h = Some f" and "path \<noteq> []" and "1 \<le> lg_max_roll st" and "le_can_open e path"
    and "files_fresh st" and "rotate_log e path (Some h) st = Some (fp, reset, st')"
  shows "generations st' path (lg_max_roll st + 1) = Some [] # generations st path (lg_max_roll st)
    \<and> ((\<forall>k \<le> lg_max_roll st. x \<noteq> log_name path k) \<longrightarrow> lg_dir st' x = lg_dir st x)
    \<and> reset \<and> Option.bind fp (lg_open st') = lg_dir st' path \<and> lg_dir st' path \<noteq> None"
proof -
  define dir where "dir = rename_file path (old_log path 1) (shift_logs path (lg_max_roll st) (lg_max_roll st) (lg_dir st))"
  note st' = rotate_log_effect [OF assms(1-4), folded dir_def, unfolded assms(6)]
  note moved = rotated_dir [OF assms(3), of path "lg_dir st", folded dir_def]
  have "map_option (lg_data st') (lg_dir st' (log_name path (Suc k))) = map_option (lg_data st) (lg_dir st (log_name path k))"
    if "k < lg_max_roll st" for k
  proof -
    have "lg_dir st' (log_name path (Suc k)) = lg_dir st (log_name path k)"
      using st' moved(1) that by (simp add: log_name_def)
    moreover have "lg_dir st (log_name path k) = Some g \<Longrightarrow> g \<noteq> lg_files st" for g
      using assms(5) unfolding files_fresh_def by blast
    ultimately show ?thesis using st' by (auto intro!: map_option_cong)
  qed
  then have "generations st' path (lg_max_roll st + 1) = Some [] # generations st path (lg_max_roll st)"
    using st' by (simp add: generations_def upt_conv_Cons map_Suc_upt [symmetric] o_def log_name_def del: upt_Suc)
  moreover have "lg_dir st' x = lg_dir st x" if "\<forall>k \<le> lg_max_roll st. x \<noteq> log_name path k"
  proof -
    have "x \<noteq> path" using that [rule_format, of 0] by (simp add: log_name_def)
    then show ?thesis using st' moved(3) that by simp
  qed
  ultimately show ?thesis using st' by simp
qed

subsection \<open>Writing to the system log\<close>

definition system_ok :: "log_state \<Rightarrow> bool" where
  \<comment> \<open>the system log is open on its path and the counter is the number of its lines\<close>
  "system_ok st \<longleftrightarrow> files_fresh st \<and> lg_system_path st \<noteq> [] \<and> 1 \<le> lg_max_roll st
     \<and> (\<exists>h f. lg_system st = Some h \<and> lg_open st h = Some f \<and> lg_dir st (lg_system_path st) = Some f
          \<and> lg_system_lines st = newlines (lg_data st f))"

definition current_log :: "log_state \<Rightarrow> string" where
  "current_log st = (case lg_dir st (lg_system_path st) of None \<Rightarrow> [] | Some f \<Rightarrow> lg_data st f)"

lemma newlines_append [simp]: "newlines (a @ b) = newlines a + newlines b"
  by (simp add: newlines_def)

lemma newlines_none: "LF \<notin> set s \<Longrightarrow> newlines s = 0"
  by (auto simp: newlines_def filter_empty_conv)

lemma newlines_record:
  assumes "LF \<notin> set msg" and "LF \<notin> set (le_time e)"
  shows "newlines (system_record e level msg) = 1"
proof -
  have "LF \<notin> set (dec_nat n)" for n using set_dec_nat [of LF n] by (auto simp: isdigit_c_def char_code_def)
  then have "newlines (dec_nat n) = 0" for n by (rule newlines_none)
  moreover have "newlines (level_label level) = 0" by (intro newlines_none) (simp add: level_label_def)
  moreover have "newlines [LF] = 1" "newlines ''['' = 0" "newlines ''] ['' = 0" "newlines ''] [PID '' = 0"
      "newlines ''] [TID '' = 0" "newlines ''] '' = 0"
    by (simp_all add: newlines_def)
  ultimately show ?thesis
    using newlines_none [OF assms(1)] newlines_none [OF assms(2)]
    unfolding system_record_def newlines_append by simp
qed

lemma newlines_nonneg [simp]: "0 \<le> newlines s"
  by (simp add: newlines_def)

lemma files_fresh_rename: 
  assumes "\<forall>x f. dir x = Some f \<longrightarrow> f < n"
  shows "\<forall>x f. rename_file a b dir x = Some f \<longrightarrow> f < n"
  using assms by (auto simp: rename_file_def split: option.splits if_splits)

lemma files_fresh_shift:
  assumes "\<forall>x f. dir x = Some f \<longrightarrow> f < n"
  shows "\<forall>x f. shift_logs path roll i dir x = Some f \<longrightarrow> f < n"
  using assms
proof (induction i arbitrary: dir)
  case (Suc i)
  have "\<forall>x f. (if Suc i = roll then dir(old_log path roll := None)
      else rename_file (old_log path (Suc i)) (old_log path (Suc i + 1)) dir) x = Some f \<longrightarrow> f < n"
    using files_fresh_rename [OF Suc.prems] Suc.prems by simp
  from Suc.IH [OF this] show ?case by simp
qed simp

lemma system_rotated_ok:
  assumes "system_ok st" and "le_can_open e (lg_system_path st)"
  obtains st' where "system_rotated e st = Some st'" "system_ok st'"
    "lg_system_path st' = lg_system_path st" "lg_max_lines st' = lg_max_lines st" "lg_max_roll st' = lg_max_roll st"
    "rotation_due st (lg_system_lines st) \<Longrightarrow> current_log st' = [] \<and> lg_system_lines st' = 0"
    "\<not> rotation_due st (lg_system_lines st) \<Longrightarrow> st' = st"
proof (cases "rotation_due st (lg_system_lines st)")
  case True
  obtain h f where h: "lg_system st = Some h" "lg_open st h = Some f"
    and path: "lg_system_path st \<noteq> []" "1 \<le> lg_max_roll st" and fresh: "files_fresh st"
    using assms(1) unfolding system_ok_def by blast
  define dir where "dir = rename_file (lg_system_path st) (old_log (lg_system_path st) 1)
    (shift_logs (lg_system_path st) (lg_max_roll st) (lg_max_roll st) (lg_dir st))"
  define st' where "st' = st\<lparr>lg_dir := dir(lg_system_path st \<mapsto> lg_files st), lg_data := (lg_data st)(lg_files st := []),
       lg_files := lg_files st + 1, lg_open := (lg_open st)(h := None, lg_streams st \<mapsto> lg_files st),
       lg_streams := lg_streams st + 1, lg_system := Some (lg_streams st), lg_system_lines := 0\<rparr>"
  have "rotate_log e (lg_system_path st) (Some h) st = Some (Some (lg_streams st), True,
      st\<lparr>lg_dir := dir(lg_system_path st \<mapsto> lg_files st), lg_data := (lg_data st)(lg_files st := []),
       lg_files := lg_files st + 1, lg_open := (lg_open st)(h := None, lg_streams st \<mapsto> lg_files st),
       lg_streams := lg_streams st + 1\<rparr>)"
    unfolding dir_def by (rule rotate_log_effect [OF h(2) path assms(2)])
  then have st': "system_rotated e st = Some st'"
    using True path(1) by (simp add: system_rotated_def h(1) st'_def)
  have "\<forall>x g. dir x = Some g \<longrightarrow> g < lg_files st"
    unfolding dir_def by (intro files_fresh_rename files_fresh_shift) (use fresh in \<open>auto simp: files_fresh_def\<close>)
  then have "files_fresh st'"
    using fresh by (auto simp: files_fresh_def st'_def less_Suc_eq split: if_splits)
  then have "system_ok st'" using path by (simp add: system_ok_def st'_def newlines_def)
  moreover have "current_log st' = []" by (simp add: current_log_def st'_def)
  ultimately show thesis using True st' by (intro that [of st']) (simp_all add: st'_def)
next
  case False
  then show thesis using assms(1) by (intro that [of st]) (simp_all add: system_rotated_def)
qed

text \<open>
  C25: a record written to an open system log with rotation succeeds; the counter stays the number of
  lines of the file and never exceeds the limit; the record is at the end of the log, behind what was
  there unless the limit had been reached, when the log starts anew.
\<close>

theorem log_write_bounded:
  assumes "system_ok st" and "le_can_open e (lg_system_path st)" and "0 < lg_max_lines st"
    and "LF \<notin> set msg" and "LF \<notin> set (le_time e)"
  shows "\<exists>st'. log_write_system e level msg st = Some st' \<and> system_ok st'
    \<and> lg_system_lines st' \<le> lg_max_lines st
    \<and> current_log st' = (if lg_max_lines st \<le> lg_system_lines st then [] else current_log st)
        @ system_record e level msg"
proof -
  obtain st1 where st1: "system_rotated e st = Some st1" "system_ok st1" "lg_system_path st1 = lg_system_path st"
      "lg_max_lines st1 = lg_max_lines st" "lg_max_roll st1 = lg_max_roll st"
    and due: "rotation_due st (lg_system_lines st) \<Longrightarrow> current_log st1 = [] \<and> lg_system_lines st1 = 0"
    and not_due: "\<not> rotation_due st (lg_system_lines st) \<Longrightarrow> st1 = st"
    using system_rotated_ok [OF assms(1,2)] by metis
  obtain h f where h: "lg_system st1 = Some h" "lg_open st1 h = Some f" "lg_dir st1 (lg_system_path st1) = Some f"
      "lg_system_lines st1 = newlines (lg_data st1 f)"
    using st1(2) unfolding system_ok_def by blast
  define st' where "st' = st1\<lparr>lg_data := (lg_data st1)(f := lg_data st1 f @ system_record e level msg),
    lg_system_lines := lg_system_lines st1 + 1\<rparr>"
  have "lg_system st \<noteq> None" using assms(1) by (auto simp: system_ok_def)
  then have w: "log_write_system e level msg st = Some st'"
    by (auto simp: log_write_system_def st1(1) h(1,2) write_stream_def st'_def)
  have "system_ok st'"
    using st1(2) h newlines_record [OF assms(4,5)]
    by (simp add: system_ok_def st'_def files_fresh_def)
  moreover have "lg_system_lines st' \<le> lg_max_lines st"
    using due not_due assms(3) by (cases "rotation_due st (lg_system_lines st)") (auto simp: st'_def rotation_due_def)
  moreover have "current_log st' = current_log st1 @ system_record e level msg"
    using h(3) by (simp add: current_log_def st'_def)
  moreover have "current_log st1 = (if lg_max_lines st \<le> lg_system_lines st then [] else current_log st)"
    using due not_due assms(3) by (cases "rotation_due st (lg_system_lines st)") (auto simp: rotation_due_def)
  ultimately show ?thesis using w by auto
qed

subsection \<open>One file for both logs\<close>

text \<open>
  C36: when the access log shares the stream of the system log, a rotation caused by a system record
  leaves the access pointer at the stream that was closed, so the next access record that needs no
  rotation uses it, which is undefined; and closing the logs closes the shared stream twice.
\<close>

theorem shared_log_dangles:
  assumes "lg_system st = Some h" and "lg_access st = Some h" and "system_ok st"
    and "le_can_open e (lg_system_path st)"
  shows "(rotation_due st (lg_system_lines st) \<and> \<not> rotation_due st (lg_access_lines st)
      \<longrightarrow> Option.bind (log_write_system e level msg st) (log_access e ip meth path status sent) = None)
    \<and> (\<not> rotation_due st (lg_system_lines st) \<longrightarrow> log_close e st = None)"
proof -
  obtain f where f: "lg_open st h = Some f"
    and path: "lg_system_path st \<noteq> []" "1 \<le> lg_max_roll st" and fresh: "h < lg_streams st"
    using assms(1,3) unfolding system_ok_def files_fresh_def by auto
  have "Option.bind (log_write_system e level msg st) (log_access e ip meth path status sent) = None"
    if "rotation_due st (lg_system_lines st)" "\<not> rotation_due st (lg_access_lines st)"
    using that assms(1,2) path(1) fresh rotate_log_effect [OF f path assms(4)]
    by (simp add: log_write_system_def system_rotated_def write_stream_def log_access_def access_rotated_def
        rotation_due_def)
  moreover have "log_close e st = None" if "\<not> rotation_due st (lg_system_lines st)"
    using that assms(1,2) f
    by (simp add: log_close_def log_write_system_def system_rotated_def write_stream_def close_stream_def)
  ultimately show ?thesis by blast
qed

subsection \<open>Examples\<close>

definition example_env :: log_env where
  "example_env = \<lparr>le_can_open = (\<lambda>_. True), le_time = ''2025-01-01 00:00:00.000000'', le_clock = ''01/Jan/2025'',
     le_pid = 4, le_tid = 5\<rparr>"

definition no_log :: log_state where
  "no_log = \<lparr>lg_system = None, lg_access = None, lg_level = 1, lg_max_lines = 0, lg_max_roll = 0,
     lg_system_lines = 0, lg_access_lines = 0, lg_system_path = [], lg_access_path = [],
     lg_dir = (\<lambda>_. None), lg_data = (\<lambda>_. []), lg_files = 0, lg_open = (\<lambda>_. None), lg_streams = 0\<rparr>"

definition opened :: "string option \<Rightarrow> log_state" where
  "opened access = snd (the (log_init example_env (Some ''s.log'') access 1 2 no_log))"

lemma opened_eq:
  "opened a = no_log\<lparr>lg_max_lines := 1, lg_max_roll := 2, lg_dir := [''s.log'' \<mapsto> 0],
     lg_data := (\<lambda>_. [])(0 := system_record example_env 1 ''Logging system initialized (v1.2.1)''),
     lg_files := 1, lg_open := [0 \<mapsto> 0], lg_streams := 1, lg_system := Some 0, lg_system_path := ''s.log'',
     lg_access := (if a = None then None else Some 0), lg_system_lines := 1\<rparr>"
  if "a = None \<or> a = Some ''s.log''"
  using that
  by (elim disjE)
    (simp_all add: opened_def log_init_def open_system_def open_append_def no_log_def example_env_def open_access_def
      log_write_system_def system_rotated_def rotation_due_def write_stream_def count_file_def newlines_def
      copy_text_def)

lemma opened_fields:
  "lg_system (opened a) = Some 0" "lg_open (opened a) 0 = Some 0" "lg_system_path (opened a) = ''s.log''"
  "lg_max_lines (opened a) = 1" "lg_max_roll (opened a) = 2" "lg_system_lines (opened a) = 1"
  "lg_data (opened a) 0 = system_record example_env 1 ''Logging system initialized (v1.2.1)''"
  "lg_dir (opened a) = [''s.log'' \<mapsto> 0]" "files_fresh (opened a)"
  "lg_access (opened a) = (if a = None then None else Some 0)" "lg_access_lines (opened a) = 0"
  if "a = None \<or> a = Some ''s.log''"
  by (simp_all add: opened_eq [OF that] no_log_def files_fresh_def)

lemma opened_ok: "a = None \<or> a = Some ''s.log'' \<Longrightarrow> system_ok (opened a)"
  using newlines_record [of "''Logging system initialized (v1.2.1)''" example_env 1]
  by (simp add: system_ok_def opened_fields) (simp add: example_env_def)

lemma rotate_log_generations_witness:
  "\<exists>st'. generations st' ''s.log'' 3
    = [Some [], Some (system_record example_env 1 ''Logging system initialized (v1.2.1)''), None]"
proof -
  note o = opened_fields [of None, simplified]
  obtain fp reset st' where r: "rotate_log example_env ''s.log'' (Some 0) (opened None) = Some (fp, reset, st')"
    using rotate_log_effect [of "opened None" 0 0 "''s.log''" example_env] o by (auto simp: example_env_def)
  have "generations st' ''s.log'' 3 = Some [] # generations (opened None) ''s.log'' 2"
    using rotate_log_generations [OF o(2) _ _ _ o(9) r] by (simp add: o example_env_def numeral_3_eq_3)
  then show ?thesis
    by (intro exI [of _ st']) (simp add: generations_def upt_rec o log_name_def old_log_def)
qed

lemma log_write_bounded_witness:
  "\<exists>st'. log_write_system example_env 1 ''hello'' (opened None) = Some st' \<and> lg_system_lines st' \<le> 1
    \<and> current_log st' = system_record example_env 1 ''hello''"
proof -
  note o = opened_fields [of None, simplified]
  show ?thesis
    using log_write_bounded [OF opened_ok [of None], of example_env "''hello''" 1] by (auto simp: o example_env_def)
qed

lemma shared_log_dangles_witness:
  "Option.bind (log_write_system example_env 1 ''hello'' (opened (Some ''s.log'')))
     (log_access example_env ''10.0.0.1'' ''GET'' ''/'' 200 10) = None"
proof -
  note o = opened_fields [of "Some ''s.log''", simplified]
  have "lg_system (opened (Some ''s.log'')) = Some 0" "lg_access (opened (Some ''s.log'')) = Some 0"
      "le_can_open example_env (lg_system_path (opened (Some ''s.log'')))"
    by (simp_all add: o example_env_def)
  from shared_log_dangles [OF this(1,2) opened_ok this(3)] show ?thesis
    by (simp add: o rotation_due_def)
qed

end
