(* ===== verification/Master_Worker.thy ===== *)
theory Master_Worker
  imports Epoll_Server
begin

text \<open>
  The master process of \<open>src/master_worker.c\<close>.  \<open>master\<close> holds its static variables, the children
  that the kernel knows, the place the program has reached and the signals sent so far.  The handler
  of SIGCHLD may run between any two statements; one step of it reaps one child.  Everything a worker
  does is in \<open>Epoll_Server\<close>.  Log messages and the shared memory of the user store are left out.
\<close>

subsection \<open>State\<close>

definition MASTER_MAX_WORKERS :: int where "MASTER_MAX_WORKERS = 128"

datatype kid = Absent | Alive | Zombie   \<comment> \<open>not a child, running, exited but not reaped\<close>

datatype sig = SIGTERM | SIGKILL

datatype master_phase =
  Forking nat          \<comment> \<open>workers forked so far\<close>
| Forked nat nat       \<comment> \<open>\<open>fork\<close> has returned this process id, not yet recorded\<close>
| Giving_Up            \<comment> \<open>after a failed \<open>fork\<close>, between SIGTERM and SIGKILL\<close>
| Pausing
| Terminating          \<comment> \<open>SIGTERM has been sent, waiting with the timeout\<close>
| Killing              \<comment> \<open>SIGKILL has been sent, waiting for the last time\<close>
| Ended int

record kill_call =
  kc_signal :: sig
  kc_pid :: nat
  kc_child :: bool     \<comment> \<open>whether the process was a child that had not been reaped\<close>

record master =
  ms_count :: nat                  \<comment> \<open>the number of workers to start\<close>
  ms_workers :: "nat list"         \<comment> \<open>\<open>g_workers\<close> up to \<open>g_num_workers\<close>; 0 for a dead worker\<close>
  ms_kids :: "nat \<Rightarrow> kid"
  ms_phase :: master_phase
  ms_shutdown :: bool
  ms_listening :: bool
  ms_kills :: "kill_call list"
  ms_missed :: "nat list"          \<comment> \<open>children reaped before they were recorded\<close>

definition worker_count :: "server_config \<Rightarrow> nat" where
  "worker_count cfg =
     (let n = (if cf_worker_processes cfg \<le> 0 then 2 else cf_worker_processes cfg)
      in nat (if n > MASTER_MAX_WORKERS then MASTER_MAX_WORKERS else n))"

definition shutdown_timeout :: "server_config \<Rightarrow> int" where
  "shutdown_timeout cfg =
     (if cf_worker_shutdown_timeout_ms cfg \<le> 0 then 3000 else cf_worker_shutdown_timeout_ms cfg)"

definition master_start :: "server_config \<Rightarrow> master" where
  "master_start cfg = \<lparr>ms_count = worker_count cfg, ms_workers = [], ms_kids = (\<lambda>_. Absent),
     ms_phase = Forking 0, ms_shutdown = False, ms_listening = True, ms_kills = [], ms_missed = []\<rparr>"

definition master_create_listen_socket :: "startup \<Rightarrow> int \<times> int list" where
  \<comment> \<open>the descriptor or -1, and the descriptors closed\<close>
  "master_create_listen_socket su =
     (if su_socket su < 0 then (-1, [])
      else if \<not> (su_reuse su \<and> su_address su \<and> su_bind su \<and> su_listen su) then (-1, [su_socket su])
      else (su_socket su, []))"

subsection \<open>Workers\<close>

fun mark_dead :: "nat \<Rightarrow> nat list \<Rightarrow> nat list" where
  \<comment> \<open>the first entry with this process id becomes 0\<close>
  "mark_dead pid [] = []"
| "mark_dead pid (w # ws) = (if w = pid then 0 # ws else w # mark_dead pid ws)"

definition alive_count :: "nat list \<Rightarrow> nat" where
  "alive_count ws = length (filter (\<lambda>w. w > 0) ws)"

definition reap :: "nat \<Rightarrow> master \<Rightarrow> master" where
  \<comment> \<open>\<open>waitpid\<close> has returned this child, in the handler or in \<open>master_wait_for_workers\<close>\<close>
  "reap pid st = st\<lparr>ms_kids := (ms_kids st)(pid := Absent), ms_workers := mark_dead pid (ms_workers st),
     ms_missed := (if pid \<in> set (ms_workers st) then ms_missed st else pid # ms_missed st)\<rparr>"

definition master_kill_workers :: "sig \<Rightarrow> master \<Rightarrow> master" where
  "master_kill_workers s st = st\<lparr>ms_kills := ms_kills st
     @ map (\<lambda>w. \<lparr>kc_signal = s, kc_pid = w, kc_child = (ms_kids st w \<noteq> Absent)\<rparr>)
         (filter (\<lambda>w. w > 0) (ms_workers st))\<rparr>"

datatype poll =
  Reaped nat
| None_Exited int    \<comment> \<open>milliseconds since the start of the wait\<close>
| No_Child           \<comment> \<open>\<open>ECHILD\<close>\<close>
| Poll_Error
| Handled nat        \<comment> \<open>not a poll: the SIGCHLD handler reaps this child meanwhile\<close>

fun wait_polls :: "int \<Rightarrow> nat \<Rightarrow> poll list \<Rightarrow> nat list \<Rightarrow> nat list option" where
  \<comment> \<open>the loop with its own count of what remains; \<open>None\<close> when it has not ended after these polls\<close>
  "wait_polls timeout 0 ps ws = Some ws"
| "wait_polls timeout (Suc n) [] ws = None"
| "wait_polls timeout (Suc n) (p # ps) ws =
     (case p of
        Reaped pid \<Rightarrow> wait_polls timeout n ps (mark_dead pid ws)
      | None_Exited ms \<Rightarrow> if ms \<ge> timeout \<and> timeout > 0 then Some ws else wait_polls timeout (Suc n) ps ws
      | No_Child \<Rightarrow> Some ws
      | Poll_Error \<Rightarrow> Some ws
      | Handled pid \<Rightarrow> wait_polls timeout (Suc n) ps (mark_dead pid ws))"

definition master_wait_for_workers :: "int \<Rightarrow> poll list \<Rightarrow> nat list \<Rightarrow> (nat \<times> nat list) option" where
  \<comment> \<open>the workers that remain and the table\<close>
  "master_wait_for_workers timeout ps ws =
     map_option (\<lambda>ws. (alive_count ws, ws)) (wait_polls timeout (alive_count ws) ps ws)"

subsection \<open>The life of the master\<close>

inductive master_step :: "master \<Rightarrow> master \<Rightarrow> bool" where
  fork: "ms_phase st = Forking i \<Longrightarrow> i < ms_count st \<Longrightarrow> 0 < pid \<Longrightarrow> ms_kids st pid = Absent
    \<Longrightarrow> master_step st (st\<lparr>ms_phase := Forked i pid, ms_kids := (ms_kids st)(pid := Alive)\<rparr>)"
| recorded: "ms_phase st = Forked i pid
    \<Longrightarrow> master_step st (st\<lparr>ms_phase := Forking (i + 1), ms_workers := ms_workers st @ [pid]\<rparr>)"
| fork_failed: "ms_phase st = Forking i \<Longrightarrow> i < ms_count st
    \<Longrightarrow> master_step st ((master_kill_workers SIGTERM st)\<lparr>ms_phase := Giving_Up\<rparr>)"
| given_up: "ms_phase st = Giving_Up
    \<Longrightarrow> master_step st ((master_kill_workers SIGKILL st)\<lparr>ms_phase := Ended (-1), ms_listening := False\<rparr>)"
| all_forked: "ms_phase st = Forking i \<Longrightarrow> ms_count st \<le> i \<Longrightarrow> master_step st (st\<lparr>ms_phase := Pausing\<rparr>)"
| child_exits: "ms_kids st pid = Alive \<Longrightarrow> master_step st (st\<lparr>ms_kids := (ms_kids st)(pid := Zombie)\<rparr>)"
| child_reaped: "ms_kids st pid = Zombie \<Longrightarrow> master_step st (reap pid st)"
| sigint: "master_step st (st\<lparr>ms_shutdown := True\<rparr>)"
| terminate: "ms_phase st = Pausing \<Longrightarrow> ms_shutdown st
    \<Longrightarrow> master_step st ((master_kill_workers SIGTERM (st\<lparr>ms_listening := False\<rparr>))\<lparr>ms_phase := Terminating\<rparr>)"
| gone: "ms_phase st = Terminating \<Longrightarrow> alive_count (ms_workers st) = 0
    \<Longrightarrow> master_step st (st\<lparr>ms_phase := Ended 0\<rparr>)"
| timed_out: "ms_phase st = Terminating \<Longrightarrow> alive_count (ms_workers st) > 0
    \<Longrightarrow> master_step st ((master_kill_workers SIGKILL st)\<lparr>ms_phase := Killing\<rparr>)"
| swept: "ms_phase st = Killing \<Longrightarrow> master_step st (st\<lparr>ms_phase := Ended 0\<rparr>)"

definition master_worker_refused :: "startup \<Rightarrow> bool \<Rightarrow> (int \<times> int list) option" where
  \<comment> \<open>a run that ends before a worker is forked: the result and the descriptors closed;
    the flag says whether the shared memory could be mapped\<close>
  "master_worker_refused su mapped =
     (let (fd, closed) = master_create_listen_socket su
      in if fd < 0 then Some (-1, closed)
         else if \<not> mapped then Some (-1, [fd])
         else None)"

inductive master_worker_run :: "startup \<Rightarrow> bool \<Rightarrow> server_config \<Rightarrow> int \<Rightarrow> master \<Rightarrow> bool" where
  refused: "master_worker_refused su mapped = Some (rc, closed)
    \<Longrightarrow> master_worker_run su mapped cfg rc (master_start cfg)"
| ended: "master_worker_refused su mapped = None \<Longrightarrow> master_step\<^sup>*\<^sup>* (master_start cfg) st
    \<Longrightarrow> ms_phase st = Ended rc \<Longrightarrow> master_worker_run su mapped cfg rc st"

definition worker_process ::
    "startup \<Rightarrow> int \<Rightarrow> server_config \<Rightarrow> server \<Rightarrow> int \<times> int list \<Rightarrow> epoll_state \<Rightarrow> bool" where
  \<comment> \<open>what the child of \<open>fork\<close> runs until \<open>_exit(0)\<close>\<close>
  "worker_process su listen_fd cfg sv =
     epoll_server_worker_run listen_fd su (Some cfg) (epoll_server_set_config (Some cfg) sv)"

end
