(* ===== verification/Master_Worker_Correct.thy ===== *)
theory Master_Worker_Correct
  imports Master_Worker
begin


definition workers_of :: "master \<Rightarrow> nat list" where
  "workers_of st = filter (\<lambda>w. w > 0) (ms_workers st)"





lemma kill_fields [simp]:
  "ms_workers (master_kill_workers s st) = ms_workers st" "ms_kids (master_kill_workers s st) = ms_kids st"
  "ms_missed (master_kill_workers s st) = ms_missed st" "ms_listening (master_kill_workers s st) = ms_listening st"
  "set (ms_kills (master_kill_workers s st)) = set (ms_kills st)
     \<union> (\<lambda>w. \<lparr>kc_signal = s, kc_pid = w, kc_child = (ms_kids st w \<noteq> Absent)\<rparr>) ` set (workers_of st)"
  by (simp_all add: master_kill_workers_def workers_of_def)







definition one_worker :: "server_config \<Rightarrow> server_config" where
  "one_worker cfg = cfg\<lparr>cf_worker_processes := 1\<rparr>"

lemma one_worker_start:
  "ms_count (master_start (one_worker cfg)) = 1" "ms_phase (master_start (one_worker cfg)) = Forking 0"
  "ms_workers (master_start (one_worker cfg)) = []" "ms_kids (master_start (one_worker cfg)) = (\<lambda>_. Absent)"
  "ms_missed (master_start (one_worker cfg)) = []" "ms_kills (master_start (one_worker cfg)) = []"
  by (simp_all add: master_start_def worker_count_def one_worker_def MASTER_MAX_WORKERS_def)

lemma steps_to_terminate:
  assumes "ms_phase st = Forked 0 pid" and "ms_count st = 1"
  shows "master_step\<^sup>*\<^sup>* st ((master_kill_workers SIGTERM (st\<lparr>ms_workers := ms_workers st @ [pid], ms_phase := Pausing,
    ms_shutdown := True, ms_listening := False\<rparr>))\<lparr>ms_phase := Terminating\<rparr>)" (is "master_step\<^sup>*\<^sup>* st ?end")
proof -
  let ?a = "st\<lparr>ms_phase := Forking 1, ms_workers := ms_workers st @ [pid]\<rparr>"
  let ?b = "?a\<lparr>ms_phase := Pausing\<rparr>"
  let ?c = "?b\<lparr>ms_shutdown := True\<rparr>"
  have "master_step st ?a" using master_step.recorded [OF assms(1)] by simp
  moreover have "master_step ?a ?b" by (rule master_step.all_forked [of _ 1]) (simp_all add: assms(2))
  moreover have "master_step ?b ?c" by (rule master_step.sigint)
  moreover have "master_step ?c ?end" using master_step.terminate [of ?c] by simp
  ultimately show ?thesis by (meson converse_rtranclp_into_rtranclp r_into_rtranclp)
qed

lemma forked_one:
  "master_step (master_start (one_worker cfg))
    ((master_start (one_worker cfg))\<lparr>ms_phase := Forked 0 5, ms_kids := (\<lambda>_. Absent)(5 := Alive)\<rparr>)"
  using master_step.fork [of "master_start (one_worker cfg)" 0 5] by (simp add: one_worker_start)


text \<open>
  Without that condition the claim fails: a worker that dies before the master has stored its process
  id is stored as a live worker, and the signals of the shutdown go to a process that is not a child.
\<close>

lemma master_signals_stranger:
  "\<exists>cfg st. master_step\<^sup>*\<^sup>* (master_start cfg) st \<and> (\<exists>k \<in> set (ms_kills st). \<not> kc_child k)"
proof -
  fix cfg
  let ?s = "(master_start (one_worker cfg))\<lparr>ms_phase := Forked 0 5, ms_kids := (\<lambda>_. Absent)(5 := Alive)\<rparr>"
  let ?z = "?s\<lparr>ms_kids := (\<lambda>_. Absent)(5 := Zombie)\<rparr>"
  let ?r = "reap 5 ?z"
  have "master_step ?s ?z" using master_step.child_exits [of ?s 5] by simp
  moreover have "master_step ?z ?r" by (rule master_step.child_reaped) simp
  moreover have "ms_phase ?r = Forked 0 5" "ms_count ?r = 1" by (simp_all add: reap_def one_worker_start)
  note steps_to_terminate [OF this]
  ultimately have "master_step\<^sup>*\<^sup>* (master_start (one_worker cfg))
      ((master_kill_workers SIGTERM (?r\<lparr>ms_workers := ms_workers ?r @ [5], ms_phase := Pausing,
        ms_shutdown := True, ms_listening := False\<rparr>))\<lparr>ms_phase := Terminating\<rparr>)" (is "master_step\<^sup>*\<^sup>* _ ?t")
    using forked_one [of cfg] by (meson converse_rtranclp_into_rtranclp)
  moreover have "\<exists>k \<in> set (ms_kills ?t). \<not> kc_child k"
    by (simp add: workers_of_def reap_def one_worker_start)
  ultimately show ?thesis by blast
qed

subsection \<open>The timed wait\<close>

fun paced :: "nat \<Rightarrow> poll list \<Rightarrow> bool" where
  \<comment> \<open>the loop sleeps 50 ms after every poll without a result, so the clock has advanced by as much\<close>
  "paced k [] \<longleftrightarrow> True"
| "paced k (None_Exited ms # ps) \<longleftrightarrow> 50 * int k \<le> ms \<and> paced (k + 1) ps"
| "paced k (p # ps) \<longleftrightarrow> paced k ps"

definition polls :: "poll list \<Rightarrow> poll list" where
  "polls ps = filter (\<lambda>p. \<forall>pid. p \<noteq> Handled pid) ps"

lemma polls_simps [simp]:
  "polls [] = []" "polls (Handled pid # ps) = polls ps" "polls (Reaped pid # ps) = Reaped pid # polls ps"
  "polls (None_Exited ms # ps) = None_Exited ms # polls ps"
  "polls (No_Child # ps) = No_Child # polls ps" "polls (Poll_Error # ps) = Poll_Error # polls ps"
  by (simp_all add: polls_def)

lemma wait_polls_end:
  assumes "0 < timeout" and "paced k ps" and "timeout \<le> 50 * int T" and "n + (T - k) < length (polls ps)"
  shows "wait_polls timeout n ps ws \<noteq> None"
  using assms
proof (induction timeout n ps ws arbitrary: k rule: wait_polls.induct)
  case (3 timeout n p ps ws)
  show ?case
  proof (cases p)
    case (None_Exited ms)
    show ?thesis
    proof (cases "ms \<ge> timeout \<and> timeout > 0")
      case False
      then have "k < T" using 3(4-6) None_Exited by auto
      then have "wait_polls timeout (Suc n) ps ws \<noteq> None"
        using 3(2) [OF None_Exited False, of "k + 1"] 3(4-7) None_Exited by auto
      then show ?thesis using None_Exited False by simp
    qed (simp add: None_Exited)
  next
    case (Reaped pid)
    then show ?thesis using 3(1) [OF Reaped, of k] 3(4-7) Reaped by simp
  next
    case (Handled pid)
    then show ?thesis using 3(3) [OF Handled, of k] 3(4-7) Handled by simp
  qed simp_all
qed simp_all

text \<open>
  The wait for the workers ends: when each poll without a result is followed by the sleep of 50 ms,
  it returns after at most as many polls (whatever the SIGCHLD handler reaps in between) as there are workers plus one for every 50 ms of the timeout,
  plus one; it reports the number of workers that are still in the table.
\<close>

theorem master_wait_ends:
  assumes "0 < timeout" and "paced 0 ps" and "alive_count ws + nat ((timeout + 49) div 50) < length (polls ps)"
  shows "\<exists>ws'. master_wait_for_workers timeout ps ws = Some (alive_count ws', ws')"
proof -
  have "timeout \<le> 50 * int (nat ((timeout + 49) div 50))" using assms(1) by (simp, presburger)
  then have "wait_polls timeout (alive_count ws) ps ws \<noteq> None"
    using wait_polls_end [OF assms(1,2), of "nat ((timeout + 49) div 50)"] assms(3) by simp
  then show ?thesis by (auto simp: master_wait_for_workers_def)
qed

lemma master_wait_ends_witness:
  "\<exists>ws'. master_wait_for_workers 100 [Reaped 5, None_Exited 0, Handled 6, None_Exited 50, None_Exited 100, No_Child] [5, 6]
    = Some (alive_count ws', ws')"
  by (rule master_wait_ends) (simp_all add: alive_count_def)

subsection \<open>Workers\<close>

lemma worker_keeps_listener:
  assumes "worker_process su listen_fd cfg sv (rc, closed) st" and "su_epoll su \<noteq> listen_fd"
  shows "listen_fd \<notin> set closed"
  using assms
  by (auto simp: worker_process_def epoll_server_worker_run_def epoll_server_run.simps epoll_begin_def
      open_listener_def epoll_cleanup_def epoll_finish_def split: if_splits)

end
