(* ===== verification/Main_Program.thy ===== *)
theory Main_Program
  imports Config_Load Server_State Log
begin

text \<open>
  The program \<open>mini_web_server\<close> (\<open>src/main.c\<close>): its command line and the commands on the user store,
  given as arguments or typed in the interactive mode.  \<open>cli\<close> is the state of the process: the store
  and whether its region is mapped.  The servers that the modes start are components of their own; here
  a mode is what \<open>main\<close> decides to run.  The commands that print timings take their text as an argument.
\<close>

subsection \<open>Words of a line\<close>

definition blank_char :: "char \<Rightarrow> bool" where
  "blank_char c \<longleftrightarrow> c = SPC \<or> c = TAB \<or> c = LF \<or> c = CR"

abbreviation MAX_ARGC :: nat where "MAX_ARGC \<equiv> 16"

fun tokenize :: "string \<Rightarrow> nat \<Rightarrow> string list" where
  "tokenize line 0 = []"
| "tokenize line (Suc n) =
     (let p = dropWhile blank_char line
      in if p = [] then []
         else takeWhile (\<lambda>c. \<not> blank_char c) p
              # tokenize (drop 1 (dropWhile (\<lambda>c. \<not> blank_char c) p)) n)"

subsection \<open>Texts\<close>

definition print_help :: "string \<Rightarrow> string" where
  "print_help prog = unlines (map (\<lambda>(a, b). a @ prog @ b)
     [(''usage: '', '' conf/server.conf''),
      (''       '', '' load <csv_path>''),
      (''       '', '' findusr <name>''),
      (''       '', '' addusr <name,password,birthdate,phone,mobile,email>''),
      (''       '', '' delusr <name>''),
      (''       '', '' users index''),
      (''       '', '' users find-index <name>''),
      (''       '', '' users compare_search_method <name>''),
      (''       '', '' users compare_search_method --verbose <name>''),
      (''       '', '' process''),
      (''       '', '' fork [ip] [port]''),
      (''       '', '' thread [ip] [port]''),
      (''       '', '' pool [ip] [port]''),
      (''       '', '' select <ip> <port>''),
      (''       '', '' epoll <ip> <port>''),
      (''       '', '' master conf/server.conf''),
      (''       '', '' help'')])"

definition print_interactive_help :: string where
  "print_interactive_help = unlines [''Interactive commands:'', ''  findusr <name>'',
     ''  addusr <name,password,birthdate,phone,mobile,email>'', ''  delusr <name>'', ''  users index'',
     ''  users find-index <name>'', ''  users compare_search_method <name>'',
     ''  users compare_search_method --verbose <name>'', ''  help'', ''  quit / exit'']"

definition usage_hint :: string where
  "usage_hint = '', use '' @ [CHR 0x27] @ ''./mini_web_server help'' @ [CHR 0x27] @ '' for usage''"

definition quoted :: "string \<Rightarrow> string" where
  "quoted s = [CHR 0x27] @ s @ [CHR 0x27]"

definition needs_argument :: "string \<Rightarrow> string" where
  "needs_argument cmd = unlines [''error: '' @ quoted cmd @ '' requires an argument'' @ usage_hint]"

definition needs_name :: "string \<Rightarrow> string" where
  "needs_name sub = unlines [''error: '' @ quoted (''users '' @ sub) @ '' requires a name argument'' @ usage_hint]"

subsection \<open>Commands\<close>

record cli =
  cl_store :: store
  cl_mapped :: bool

definition user_store_free :: "cli \<Rightarrow> cli" where
  "user_store_free st =
     (if cl_mapped st then st\<lparr>cl_store := (cl_store st)\<lparr>us_size := 0\<rparr>, cl_mapped := False\<rparr> else st)"

definition cli_load :: "string option \<Rightarrow> cli \<Rightarrow> cli option" where
  \<comment> \<open>\<open>user_store_load_csv\<close>; it fails only when no memory can be mapped\<close>
  "cli_load csv st =
     map_option (\<lambda>s. st\<lparr>cl_store := s, cl_mapped := True\<rparr>)
       (user_store_load_csv (cl_mapped st) csv (cl_store st))"

definition with_users ::
    "bool \<Rightarrow> string option \<Rightarrow> (store \<Rightarrow> (int \<times> string \<times> store) option) \<Rightarrow> cli \<Rightarrow> (int \<times> string \<times> cli) option" where
  \<comment> \<open>a command between loading and freeing the store, which the interactive mode leaves out\<close>
  "with_users interactive csv cmd st =
     Option.bind (if interactive then Some st else cli_load csv st) (\<lambda>st.
       Option.bind (cmd (cl_store st)) (\<lambda>(rc, out, s).
         let st = st\<lparr>cl_store := s\<rparr>
         in Some (rc, out, if interactive then st else user_store_free st)))"

definition found_text :: "nat option \<Rightarrow> string" where
  "found_text u = unlines [if u \<noteq> None then ''FOUND'' else ''NOT_FOUND'']"

definition find_command :: "string \<Rightarrow> store \<Rightarrow> (int \<times> string \<times> store) option" where
  "find_command name s = map_option (\<lambda>u. (0, found_text u, s)) (user_store_find s name)"

definition find_index_command :: "string \<Rightarrow> store \<Rightarrow> (int \<times> string \<times> store) option" where
  "find_index_command name s = map_option (\<lambda>u. (0, found_text u, s)) (user_store_find_index s name)"

definition add_command :: "string \<Rightarrow> store \<Rightarrow> (int \<times> string \<times> store) option" where
  "add_command line s =
     map_option (\<lambda>(rc, s). (if rc = 0 then 0 else 1, unlines [if rc = 0 then ''ADDED'' else ''EXISTS''], s))
       (user_store_add line s)"

definition delete_command :: "string \<Rightarrow> store \<Rightarrow> (int \<times> string \<times> store) option" where
  "delete_command name s =
     map_option (\<lambda>(rc, s). (if rc = 0 then 0 else 1, unlines [if rc = 0 then ''DELETED'' else ''NO_SUCH_USER''], s))
       (user_store_delete name s)"

definition index_command :: "store \<Rightarrow> (int \<times> string \<times> store) option" where
  "index_command s = map_option (\<lambda>t. (0, t, s)) (user_store_print_index s)"

definition compare_name :: "string list \<Rightarrow> (string \<times> bool) option" where
  \<comment> \<open>the name and the flag \<open>--verbose\<close> of \<open>users compare_search_method\<close>\<close>
  "compare_name argv =
     (if length argv = 3 then Some (argv ! 2, False)
      else if length argv = 4 then
        (if strcmp (argv ! 2) ''--verbose'' = 0 then Some (argv ! 3, True)
         else if strcmp (argv ! 3) ''--verbose'' = 0 then Some (argv ! 2, True)
         else None)
      else None)"

definition users_command ::
    "(string \<Rightarrow> bool \<Rightarrow> string) \<Rightarrow> bool \<Rightarrow> string option \<Rightarrow> string list \<Rightarrow> cli \<Rightarrow> (int \<times> string \<times> cli) option" where
  \<comment> \<open>the subcommands of \<open>users\<close>\<close>
  "users_command compare interactive csv argv st =
     (if length argv \<ge> 2 \<and> strcmp (argv ! 1) ''index'' = 0
      then with_users interactive csv index_command st
      else if length argv \<ge> 2 \<and> strcmp (argv ! 1) ''find-index'' = 0
      then (if length argv < 3 then Some (1, needs_name ''find-index'', st)
            else with_users interactive csv (find_index_command (argv ! 2)) st)
      else if length argv \<ge> 2 \<and> strcmp (argv ! 1) ''compare_search_method'' = 0
      then (case compare_name argv of
              None \<Rightarrow> Some (1, needs_name ''compare_search_method'', st)
            | Some (name, verbose) \<Rightarrow>
                with_users interactive csv (\<lambda>s. Some (0, compare name verbose, s)) st)
      else if length argv = 1
      then Some (1, unlines [''error: '' @ quoted ''users'' @ '' requires a subcommand'' @ usage_hint], st)
      else Some (1, unlines [''error: unknown users subcommand '' @ quoted (argv ! 1) @ usage_hint], st))"

definition dispatch ::
    "(string \<Rightarrow> bool \<Rightarrow> string) \<Rightarrow> bool \<Rightarrow> string option \<Rightarrow> string list \<Rightarrow> cli \<Rightarrow> (int \<times> string \<times> cli) option" where
  \<comment> \<open>the result (-1 to leave the interactive mode), what is printed, and the state; \<open>csv\<close> is the
    content of \<open>data/users.csv\<close>; \<open>None\<close> when a search does not end\<close>
  "dispatch compare interactive csv argv st =
     (case argv of
        [] \<Rightarrow> Some (0, [], st)
      | cmd # args \<Rightarrow>
          if strcmp cmd ''quit'' = 0 \<or> strcmp cmd ''exit'' = 0
          then Some (if interactive then -1 else 0, [], st)
          else if strcmp cmd ''help'' = 0
          then Some (0, if interactive then print_interactive_help else print_help ''./mini_web_server'', st)
          else if strcmp cmd ''findusr'' = 0
          then (if args = [] then Some (1, needs_argument cmd, st)
                else with_users interactive csv (find_command (hd args)) st)
          else if strcmp cmd ''addusr'' = 0
          then (if args = [] then Some (1, needs_argument cmd, st)
                else with_users interactive csv (add_command (hd args)) st)
          else if strcmp cmd ''delusr'' = 0
          then (if args = [] then Some (1, needs_argument cmd, st)
                else with_users interactive csv (delete_command (hd args)) st)
          else if strcmp cmd ''users'' = 0 then users_command compare interactive csv argv st
          else Some (1, unlines [''error: unknown command '' @ quoted cmd], st))"

subsection \<open>Interactive mode\<close>

function command_loop ::
    "(string \<Rightarrow> bool \<Rightarrow> string) \<Rightarrow> string \<Rightarrow> cli \<Rightarrow> (string \<times> cli) option" where
  \<comment> \<open>what is printed for the rest of the standard input\<close>
  "command_loop compare input st =
     (case fgets 1024 input of
        None \<Rightarrow> Some (''> '' @ [LF], st)
      | Some (line, rest) \<Rightarrow>
          let argv = tokenize (cstr line) MAX_ARGC
          in if argv = [] then map_option (apfst ((@) ''> '')) (command_loop compare rest st)
             else case dispatch compare True None argv st of
                 None \<Rightarrow> None
               | Some (rc, out, st) \<Rightarrow>
                   if rc < 0 then Some (''> '' @ out, st)
                   else map_option (apfst (\<lambda>t. ''> '' @ out @ t)) (command_loop compare rest st))"
  by auto
termination
  by (relation "measure (\<lambda>(_, input, _). length input)") (auto dest: fgets_shorter)

declare command_loop.simps [simp del]

definition run_interactive ::
    "(string \<Rightarrow> bool \<Rightarrow> string) \<Rightarrow> string \<Rightarrow> string option \<Rightarrow> string \<Rightarrow> cli \<Rightarrow> (int \<times> string \<times> cli) option" where
  "run_interactive compare csv_path csv input st =
     Option.bind (cli_load csv st) (\<lambda>st.
       Option.bind (command_loop compare input st) (\<lambda>(out, st).
         Some (0, unlines [''Loading '' @ csv_path @ '' ...'']
                  @ unlines [''Ready.  Type '' @ quoted ''help'' @ '' for commands, '' @ quoted ''quit'' @ '' to exit.'', []]
                  @ out @ unlines [''Bye.''],
               user_store_free st)))"

subsection \<open>The command line\<close>

datatype run_mode =
  Show_Help
| Interactive string
| Command "string list"
| Process_Mode
| Fork_Mode string int
| Thread_Mode string int
| Pool_Mode string int
| Select_Mode string int
| Epoll_Mode string int
| Master_Mode string
| Config_Mode string
| Invalid_Port string
| Usage

definition valid_port :: "int \<Rightarrow> bool" where
  "valid_port p \<longleftrightarrow> \<not> (p \<le> 0 \<or> p > 65535)"

definition address_mode :: "(string \<Rightarrow> int \<Rightarrow> run_mode) \<Rightarrow> string list \<Rightarrow> run_mode" where
  \<comment> \<open>the modes with optional address and port\<close>
  "address_mode mode argv =
     (let ip = (if length argv \<ge> 3 then argv ! 2 else ''127.0.0.1'');
          txt = (if length argv \<ge> 4 then argv ! 3 else ''8080'');
          port = (if length argv \<ge> 4 then atoi (argv ! 3) else 8080)
      in if valid_port port then mode ip port else Invalid_Port txt)"

definition fixed_mode :: "(string \<Rightarrow> int \<Rightarrow> run_mode) \<Rightarrow> string list \<Rightarrow> run_mode" where
  "fixed_mode mode argv =
     (let port = atoi (argv ! 3) in if valid_port port then mode (argv ! 2) port else Invalid_Port (argv ! 3))"

definition select_mode :: "string list \<Rightarrow> run_mode" where
  \<comment> \<open>the tests of \<open>main\<close> in their order; \<open>argv\<close> begins with the name of the program\<close>
  "select_mode argv =
     (let argc = length argv; arg = (\<lambda>s. argc \<ge> 2 \<and> strcmp (argv ! 1) s = 0)
      in if arg ''help'' then Show_Help
         else if argc = 3 \<and> arg ''load'' then Interactive (argv ! 2)
         else if arg ''findusr'' \<or> arg ''addusr'' \<or> arg ''delusr'' \<or> arg ''users'' then Command (tl argv)
         else if argc = 2 \<and> arg ''process'' then Process_Mode
         else if arg ''fork'' then address_mode Fork_Mode argv
         else if arg ''thread'' then address_mode Thread_Mode argv
         else if arg ''pool'' then address_mode Pool_Mode argv
         else if argc = 4 \<and> arg ''select'' then fixed_mode Select_Mode argv
         else if argc = 4 \<and> arg ''epoll'' then fixed_mode Epoll_Mode argv
         else if argc = 3 \<and> arg ''master'' then Master_Mode (argv ! 2)
         else if argc \<noteq> 2 then Usage
         else Config_Mode (argv ! 1))"

subsection \<open>Running a mode\<close>

record main_env =
  me_files :: "string \<Rightarrow> string option"   \<comment> \<open>contents of files\<close>
  me_input :: string                       \<comment> \<open>standard input\<close>
  me_log_ok :: bool                        \<comment> \<open>\<open>log_init\<close> succeeds\<close>
  me_compare :: "string \<Rightarrow> bool \<Rightarrow> string"
  me_serve :: "run_mode \<Rightarrow> server \<Rightarrow> int"     \<comment> \<open>what the server of the mode returns\<close>

definition zero_sessions :: sess_state where
  \<comment> \<open>\<open>g_sessions\<close> and \<open>g_hash\<close> before \<open>session_init\<close>: static storage is zero\<close>
  "zero_sessions = \<lparr>ss_sessions = replicate MAX_SESSIONS no_session, ss_hash = replicate HASH_SIZE (Some 0)\<rparr>"

definition mode_sessions :: "run_mode \<Rightarrow> sess_state" where
  \<comment> \<open>only the master mode calls \<open>session_init\<close>\<close>
  "mode_sessions mode = (case mode of Master_Mode _ \<Rightarrow> session_init | _ \<Rightarrow> zero_sessions)"

definition mode_server :: "run_mode \<Rightarrow> server_config option \<Rightarrow> store \<Rightarrow> server" where
  \<comment> \<open>the globals of the request handlers when a server starts, before credentials are loaded\<close>
  "mode_server mode cfg s = \<lparr>sv_store = s, sv_sess = mode_sessions mode, sv_root = ''www'', sv_auth = [],
     sv_config = cfg, sv_default_rt = None\<rparr>"

definition initial_cli :: "store \<Rightarrow> cli" where
  "initial_cli region = \<lparr>cl_store = region, cl_mapped = False\<rparr>"

definition of_search :: "'a option \<Rightarrow> 'a parsed" where
  "of_search r = (case r of None \<Rightarrow> Stuck | Some a \<Rightarrow> Parsed a)"

definition users_csv :: string where
  "users_csv = ''data/users.csv''"

definition start_server :: "main_env \<Rightarrow> store \<Rightarrow> run_mode \<Rightarrow> (int \<times> string) parsed" where
  \<comment> \<open>the modes without a configuration file\<close>
  "start_server me region mode =
     (if \<not> me_log_ok me then Parsed (1, unlines [''failed to open log file''])
      else bind_parsed (of_search (cli_load (me_files me users_csv) (initial_cli region))) (\<lambda>st.
        Parsed (me_serve me mode (mode_server mode None (cl_store st)), [])))"

definition load_credentials :: "main_env \<Rightarrow> server_config \<Rightarrow> server \<Rightarrow> server" where
  "load_credentials me cfg sv =
     (if cf_auth_user_file cfg = [] then sv else snd (auth_load_file (me_files me (cf_auth_user_file cfg)) sv))"

definition start_configured ::
    "main_env \<Rightarrow> store \<Rightarrow> run_mode \<Rightarrow> string \<Rightarrow> (server_config \<Rightarrow> string) \<Rightarrow> (server_config \<Rightarrow> server \<Rightarrow> server)
      \<Rightarrow> (int \<times> string) parsed" where
  \<comment> \<open>load the configuration, open the log, load the users, print the configuration, serve\<close>
  "start_configured me region mode conf csv_path prepare =
     (case load_config (me_files me conf) of
        Parsed cfg \<Rightarrow>
          if \<not> me_log_ok me then Parsed (1, unlines [''failed to open log file''])
          else bind_parsed (of_search (cli_load (me_files me (csv_path cfg)) (initial_cli region))) (\<lambda>st.
            let sv = prepare cfg (mode_server mode (Some cfg) (cl_store st))
            in Parsed (me_serve me mode sv, print_config cfg))
      | Fail \<Rightarrow> Parsed (1, unlines [''failed to load config''])
      | Stuck \<Rightarrow> Stuck
      | Crash \<Rightarrow> Crash)"

definition main_program :: "main_env \<Rightarrow> store \<Rightarrow> string list \<Rightarrow> (int \<times> string) parsed" where
  \<comment> \<open>the exit status and what \<open>main\<close> itself prints; \<open>region\<close> is fresh memory\<close>
  "main_program me region argv =
     (case select_mode argv of
        Show_Help \<Rightarrow> Parsed (0, print_help (argv ! 0))
      | Interactive path \<Rightarrow>
          bind_parsed (of_search (run_interactive (me_compare me) path (me_files me path) (me_input me) (initial_cli region)))
            (\<lambda>(rc, out, _). Parsed (rc, out))
      | Command args \<Rightarrow>
          bind_parsed (of_search (dispatch (me_compare me) False (me_files me users_csv) args (initial_cli region)))
            (\<lambda>(rc, out, _). Parsed (rc, out))
      | Invalid_Port txt \<Rightarrow> Parsed (1, unlines [''error: invalid port '' @ quoted txt])
      | Usage \<Rightarrow> Parsed (1, print_help (argv ! 0))
      | Master_Mode conf \<Rightarrow>
          start_configured me region (Master_Mode conf) conf cf_user_file (load_credentials me)
      | Config_Mode conf \<Rightarrow>
          bind_parsed (start_configured me region (Config_Mode conf) conf cf_data_path (\<lambda>_ sv. sv))
            (\<lambda>(rc, out). Parsed (if rc \<noteq> 0 then 1 else 0, out))
      | mode \<Rightarrow> start_server me region mode)"

end
