(* ===== verification/Main_Correct.thy ===== *)
theory Main_Correct
  imports Main_Program Account_Store
begin

text \<open>
  Commands typed in the interactive mode mean what they do to a list of accounts; the modes that do
  not initialise the session store hang in it; a server is only started on a valid port.
\<close>

subsection \<open>The session store of the modes\<close>

lemma zero_probe:
  assumes "\<not> stop 0"
  shows "probe HASH_SIZE stop (ss_hash zero_sessions) (hash_id sid) = None"
proof -
  have "\<not> stops stop (ss_hash zero_sessions) (slot_at (hash_id sid) d)" for d
    using assms by (simp add: stops_def zero_sessions_def)
  then show ?thesis by (simp add: probe_eq_None [OF session_hash.hash_bound])
qed

lemma zero_cleanup: "cleanup_from now i n zero_sessions = Ret zero_sessions" if "i + n \<le> MAX_SESSIONS"
  using that
proof (induction n arbitrary: i)
  case (Suc n)
  have "\<not> se_used (ss_sessions zero_sessions ! i)" using Suc.prems by (simp add: zero_sessions_def no_session_def)
  then have "cleanup_one now i zero_sessions = Ret zero_sessions" by (simp add: cleanup_one_def)
  then show ?case using Suc by simp
qed simp

lemma zero_first_free: "first_free (ss_sessions zero_sessions) = Some 0"
proof -
  have "ss_sessions zero_sessions = no_session # replicate 1023 no_session"
    by (simp add: zero_sessions_def flip: replicate_Suc)
  then show ?thesis by (simp add: no_session_def)
qed

text \<open>
  C35: in every mode but the master mode the session table is used without \<open>session_init\<close>: all slots of
  its hash table say 0 instead of -1, so looking up any session id, and creating any session, goes
  round the table for ever.  A request with a session cookie on a protected route, or a login with
  valid credentials, hangs the server.
\<close>

theorem sessions_hang_without_init:
  assumes "\<And>conf. mode \<noteq> Master_Mode conf" and "sid \<noteq> []"
  shows "session_lookup sid now (mode_sessions mode) = Loops
    \<and> session_create rnd user role t1 t2 t3 (mode_sessions mode) = Loops"
proof -
  have zero: "mode_sessions mode = zero_sessions"
    using assms(1) by (cases mode) (auto simp: mode_sessions_def)
  have "\<not> owns (ss_sessions zero_sessions) sid 0"
    by (simp add: owns_def zero_sessions_def no_session_def)
  then have "session_lookup sid now zero_sessions = Loops"
    using zero_probe assms(2) by (simp add: session_lookup_def)
  moreover have "session_create rnd user role t1 t2 t3 zero_sessions = Loops"
    using zero_probe [of "\<lambda>_. False"]
    by (simp add: session_create_def session_cleanup_expired_def zero_cleanup zero_first_free session_fill_def)
  ultimately show ?thesis by (simp add: zero)
qed

lemma sessions_hang_without_init_witness:
  "session_lookup ''0123'' 0 (mode_sessions (Epoll_Mode ''127.0.0.1'' 8080)) = Loops"
  using sessions_hang_without_init [of "Epoll_Mode ''127.0.0.1'' 8080" "''0123''"] by simp

subsection \<open>Ports\<close>

fun mode_port :: "run_mode \<Rightarrow> int option" where
  "mode_port (Fork_Mode ip p) = Some p"
| "mode_port (Thread_Mode ip p) = Some p"
| "mode_port (Pool_Mode ip p) = Some p"
| "mode_port (Select_Mode ip p) = Some p"
| "mode_port (Epoll_Mode ip p) = Some p"
| "mode_port _ = None"

lemma select_mode_port: "mode_port (select_mode argv) = Some p \<Longrightarrow> 1 \<le> p \<and> p \<le> 65535"
  by (auto simp: select_mode_def address_mode_def fixed_mode_def valid_port_def Let_def split: if_splits)

subsection \<open>Sessions of commands\<close>

type_synonym account_state = "elem list"

definition plain_command :: "string list \<Rightarrow> bool" where
  \<comment> \<open>no listing or timing\<close>
  "plain_command argv \<longleftrightarrow> argv \<noteq> []
     \<and> (hd argv = ''users'' \<longrightarrow> 2 \<le> length argv \<and> argv ! 1 = ''find-index'')"

definition known_text :: "string \<Rightarrow> elem list \<Rightarrow> string" where
  "known_text name as = unlines [if name \<in> el_name ` set as then ''FOUND'' else ''NOT_FOUND'']"

definition account_command :: "string list \<Rightarrow> elem list \<Rightarrow> int \<times> string \<times> elem list" where
  \<comment> \<open>what a command means for the accounts\<close>
  "account_command argv as =
     (if hd argv = ''quit'' \<or> hd argv = ''exit'' then (-1, [], as)
      else if hd argv = ''help'' then (0, print_interactive_help, as)
      else if hd argv = ''findusr'' then
        (if tl argv = [] then (1, needs_argument ''findusr'', as) else (0, known_text (argv ! 1) as, as))
      else if hd argv = ''users'' then
        (if length argv < 3 then (1, needs_name ''find-index'', as) else (0, known_text (argv ! 2) as, as))
      else if hd argv = ''addusr'' then
        (if tl argv = [] then (1, needs_argument ''addusr'', as)
         else let (rc, as) = add_account True (argv ! 1) as
              in (if rc = 0 then 0 else 1, unlines [if rc = 0 then ''ADDED'' else ''EXISTS''], as))
      else if hd argv = ''delusr'' then
        (if tl argv = [] then (1, needs_argument ''delusr'', as)
         else let (rc, as) = delete_account (argv ! 1) as
              in (if rc = 0 then 0 else 1, unlines [if rc = 0 then ''DELETED'' else ''NO_SUCH_USER''], as))
      else (1, unlines [''error: unknown command '' @ quoted (hd argv)], as))"

fun account_session :: "string list list \<Rightarrow> elem list \<Rightarrow> string \<times> elem list" where
  "account_session [] as = (''> '' @ [LF], as)"
| "account_session (argv # rest) as =
     (if argv = [] then apfst ((@) ''> '') (account_session rest as)
      else case account_command argv as of
          (rc, out, as) \<Rightarrow> if rc < 0 then (''> '' @ out, as)
                           else apfst (\<lambda>t. ''> '' @ out @ t) (account_session rest as))"

function input_lines :: "string \<Rightarrow> string list list" where
  \<comment> \<open>the words of each line that \<open>fgets\<close> reads\<close>
  "input_lines input =
     (case fgets 1024 input of None \<Rightarrow> []
      | Some (line, rest) \<Rightarrow> tokenize (cstr line) MAX_ARGC # input_lines rest)"
  by auto
termination
  by (relation "measure length") (auto dest: fgets_shorter)

declare input_lines.simps [simp del]

definition clear_names :: "string list list \<Rightarrow> elem list \<Rightarrow> bool" where
  \<comment> \<open>names are distinct as far as deletions need it\<close>
  "clear_names cmds as \<longleftrightarrow> distinct (map el_name as) \<or> (\<forall>argv \<in> set cmds. argv = [] \<or> hd argv \<noteq> ''delusr'')"

lemma distinct_account_command:
  "distinct (map el_name as) \<Longrightarrow> distinct (map el_name (snd (snd (account_command argv as))))"
  using distinct_add [of as True "argv ! 1"] distinct_delete [of as "argv ! 1"]
  by (auto simp: account_command_def Let_def split: prod.splits)

lemma clear_names_step:
  "clear_names (argv # cmds) as \<Longrightarrow> clear_names cmds (snd (snd (account_command argv as)))"
  using distinct_account_command [of as argv] by (auto simp: clear_names_def)

lemma find_text: "stands_for s as \<Longrightarrow> find_command name s = Some (0, known_text name as, s)"
  using users.lookup_law [of s as name]
  by (auto simp: store_has_def find_command_def found_text_def known_text_def)

lemma find_index_text: "stands_for s as \<Longrightarrow> find_index_command name s = Some (0, known_text name as, s)"
  using users.index_law [of s as name]
  by (auto simp: index_has_def find_index_command_def found_text_def known_text_def)

lemma dispatch_refines:
  assumes inv: "stands_for (cl_store st) as" and room: "0 < places (cl_store st)"
    and plain: "plain_command argv" and clear: "clear_names (argv # cmds) as"
  shows "\<exists>st'. dispatch compare True csv argv st
      = Some (fst (account_command argv as), fst (snd (account_command argv as)), st')
    \<and> stands_for (cl_store st') (snd (snd (account_command argv as)))
    \<and> places (cl_store st) \<le> places (cl_store st') + 1"
proof -
  obtain cmd args where argv: "argv = cmd # args" using plain by (cases argv) (auto simp: plain_command_def)
  consider (add) "cmd = ''addusr''" "args \<noteq> []" | (delete) "cmd = ''delusr''" "args \<noteq> []"
    | (other) "cmd \<notin> {''addusr'', ''delusr''} \<or> args = []" by auto
  then show ?thesis
  proof cases
    case add
    obtain s' where a: "user_store_add (hd args) (cl_store st) = Some (fst (add_account True (hd args) as), s')"
        "stands_for s' (snd (add_account True (hd args) as))" "places (cl_store st) \<le> places s' + 1"
      using users.add_law [OF inv, of "hd args"] room by auto
    then show ?thesis using add
      by (intro exI [of _ "st\<lparr>cl_store := s'\<rparr>"])
        (simp add: argv dispatch_def account_command_def with_users_def add_command_def strcmp_0 Let_def
          case_prod_beta hd_conv_nth)
  next
    case delete
    then have "distinct (map el_name as)" using clear by (simp add: clear_names_def argv)
    then obtain s' where d: "user_store_delete (hd args) (cl_store st) = Some (fst (delete_account (hd args) as), s')"
        "stands_for s' (snd (delete_account (hd args) as))" "places s' = places (cl_store st)"
      using users.delete_law [OF inv] by blast
    then show ?thesis using delete
      by (intro exI [of _ "st\<lparr>cl_store := s'\<rparr>"])
        (simp add: argv dispatch_def account_command_def with_users_def delete_command_def strcmp_0 Let_def
          case_prod_beta hd_conv_nth)
  next
    case other
    have "cmd = ''users'' \<Longrightarrow> 2 \<le> length argv \<and> argv ! 1 = ''find-index''"
      using plain by (simp add: plain_command_def argv)
    then show ?thesis using other inv
      by (intro exI [of _ st])
        (auto simp: argv dispatch_def account_command_def with_users_def strcmp_0 users_command_def
          find_text find_index_text hd_conv_nth)
  qed
qed

lemma session_refines:
  assumes "stands_for (cl_store st) as" "length (input_lines input) \<le> places (cl_store st)"
    and "\<forall>argv \<in> set (input_lines input). argv = [] \<or> plain_command argv"
    and "clear_names (input_lines input) as"
  shows "\<exists>st'. command_loop compare input st = Some (fst (account_session (input_lines input) as), st')
    \<and> stands_for (cl_store st') (snd (account_session (input_lines input) as))"
  using assms
proof (induction compare input st arbitrary: as rule: command_loop.induct)
  case (1 compare input st)
  show ?case
  proof (cases "fgets 1024 input")
    case None
    then show ?thesis using 1(3) by (simp add: command_loop.simps input_lines.simps)
  next
    case (Some lr)
    obtain line rest where lr: "fgets 1024 input = Some (line, rest)" using Some by (cases lr) auto
    define argv where "argv = tokenize (cstr line) MAX_ARGC"
    have lines: "input_lines input = argv # input_lines rest"
      using lr by (subst input_lines.simps) (simp add: argv_def)
    show ?thesis
    proof (cases "argv = []")
      case True
      have "\<exists>st'. command_loop compare rest st = Some (fst (account_session (input_lines rest) as), st')
        \<and> stands_for (cl_store st') (snd (account_session (input_lines rest) as))"
        by (rule 1(1) [OF lr refl argv_def True]) (use 1(3-6) lines in \<open>auto simp: clear_names_def\<close>)
      moreover have "command_loop compare input st = map_option (apfst ((@) ''> '')) (command_loop compare rest st)"
        using True by (subst command_loop.simps) (simp add: lr argv_def [symmetric])
      ultimately show ?thesis using True lines by auto
    next
      case False
      obtain rc out as1 where cmd: "account_command argv as = (rc, out, as1)" by (cases "account_command argv as") auto
      have room: "0 < places (cl_store st)" and plain: "plain_command argv"
        using 1(4,5) lines False by auto
      obtain st1 where d: "dispatch compare True None argv st = Some (rc, out, st1)"
          "stands_for (cl_store st1) as1" "places (cl_store st) \<le> places (cl_store st1) + 1"
        using dispatch_refines [OF 1(3) room plain 1(6) [unfolded lines], of compare None] by (auto simp: cmd)
      have clear: "clear_names (input_lines rest) as1" using clear_names_step [OF 1(6) [unfolded lines]] by (simp add: cmd)
      have loop: "command_loop compare input st
          = (if rc < 0 then Some (''> '' @ out, st1)
             else map_option (apfst (\<lambda>t. ''> '' @ out @ t)) (command_loop compare rest st1))"
        using False d(1) by (subst command_loop.simps) (simp add: lr argv_def [symmetric])
      show ?thesis
      proof (cases "rc < 0")
        case True
        then show ?thesis using d loop lines False cmd by simp
      next
        case rc: False
        have "\<exists>st'. command_loop compare rest st1 = Some (fst (account_session (input_lines rest) as1), st')
          \<and> stands_for (cl_store st') (snd (account_session (input_lines rest) as1))"
          by (rule 1(2) [OF lr refl argv_def False d(1) refl refl rc d(2)]) (use 1(4,5) d(3) lines clear in auto)
        then show ?thesis using rc loop lines False cmd by auto
      qed
    qed
  qed
qed

text \<open>
  C14: a session typed in the interactive mode of commands that look up, add and delete users is a session on
  the list of accounts, as long as names are distinct or none is deleted: what is printed is what the
  commands mean there, and the store ends as a store of the resulting accounts.  The loop comes to its
  end; a line is at most 1023 characters long, longer lines are several commands; a blank line does
  nothing, and nothing after \<open>quit\<close> is read.
\<close>

theorem interactive_session_refines:
  assumes "stands_for (cl_store st) as" "length (input_lines input) \<le> places (cl_store st)"
    and "\<forall>argv \<in> set (input_lines input). argv = [] \<or> plain_command argv"
    and "clear_names (input_lines input) as"
  shows "\<exists>st'. command_loop compare input st = Some (fst (account_session (input_lines input) as), st')
    \<and> stands_for (cl_store st') (snd (account_session (input_lines input) as))"
  by (rule session_refines) (rule assms)+

definition typed :: string where
  "typed = ''addusr ann,pw,1990'' @ [LF] @ ''findusr ann'' @ [LF, LF] @ ''delusr ann'' @ [LF] @ ''findusr ann'' @ [LF] @ ''quit'' @ [LF] @ ''x'' @ [LF]"

lemma typed_lines:
  "input_lines typed = [[''addusr'', ''ann,pw,1990''], [''findusr'', ''ann''], [], [''delusr'', ''ann''], [''findusr'', ''ann''], [''quit''], [''x'']]"
  by code_simp

lemma typed_session:
  "account_session (input_lines typed) []
      = (''> '' @ unlines [''ADDED''] @ ''> '' @ unlines [''FOUND''] @ ''> '' @ ''> '' @ unlines [''DELETED''] @ ''> '' @ unlines [''NOT_FOUND''] @ ''> '', [])"
  by code_simp

lemma interactive_session_refines_witness:
  "\<exists>st. command_loop (\<lambda>_ _. []) typed (initial_cli (user_store_shm_init blank_region))
      = Some (''> '' @ unlines [''ADDED''] @ ''> '' @ unlines [''FOUND''] @ ''> '' @ ''> '' @ unlines [''DELETED''] @ ''> '' @ unlines [''NOT_FOUND''] @ ''> '', st)
    \<and> stands_for (cl_store st) []"
proof -
  let ?st = "initial_cli (user_store_shm_init blank_region)"
  have inv: "stands_for (cl_store ?st) []" by (simp add: initial_cli_def stands_for_init)
  have room: "length (input_lines typed) \<le> places (cl_store ?st)"
    by (simp add: initial_cli_def typed_lines init_free places_def pool_nodes_def)
  have plain: "\<forall>argv \<in> set (input_lines typed). argv = [] \<or> plain_command argv"
    by (simp add: typed_lines plain_command_def)
  have clear: "clear_names (input_lines typed) []" by (simp add: clear_names_def)
  show ?thesis
    using interactive_session_refines [OF inv room plain clear, of "\<lambda>_ _. []", unfolded typed_session] by fastforce
qed

end
