(* ===== verification/Tcp_Servers.thy ===== *)
theory Tcp_Servers
  imports Epoll_Server Thread_Pool
begin

text \<open>
  The servers that accept connections one by one: \<open>src/tcp_server.c\<close> handles each itself,
  \<open>src/tcp_fork_server.c\<close> in a child process, \<open>src/tcp_thread_server.c\<close> in a detached thread,
  \<open>src/tcp_pool_server.c\<close> hands it to the thread pool.  What the system calls return is part of the
  steps.  A child process works on a copy of the globals of its parent; only the region of the user
  store is shared, each process reaching the name index through its own copy of the root (the size that
  is stored beside the root is never read).  The requests that children handle interleave in any order;
  each of them is one step.  The sequential server does not ignore SIGPIPE: its
  model covers the runs in which no client closes its end before the answer has been sent.  Console and
  log output are left out.
\<close>

subsection \<open>The listening socket\<close>

definition checked_listener :: "startup \<Rightarrow> int list + int" where
  \<comment> \<open>the descriptor, or the descriptors closed by a failed start\<close>
  "checked_listener su =
     (if su_socket su < 0 then Inl []
      else if \<not> (su_reuse su \<and> su_address su \<and> su_bind su \<and> su_listen su) then Inl [su_socket su]
      else Inr (su_socket su))"

definition plain_listener :: "startup \<Rightarrow> int list + int" where
  \<comment> \<open>\<open>inet_addr\<close> reports no error\<close>
  "plain_listener su = checked_listener (su\<lparr>su_address := True\<rparr>)"

subsection \<open>One connection after the other\<close>

datatype arrival =
  Accept_Failed
| Client int "turn list"   \<comment> \<open>the descriptor and what happens on the connection\<close>

record tcp_state =
  tc_server :: server
  tc_count :: nat                      \<comment> \<open>\<open>request_count\<close>\<close>
  tc_accepted :: "int list"
  tc_closed :: "int list"
  tc_out :: "(int \<times> string list) list"

definition tcp_start :: "server \<Rightarrow> tcp_state" where
  "tcp_start sv = \<lparr>tc_server = sv, tc_count = 0, tc_accepted = [], tc_closed = [], tc_out = []\<rparr>"

definition tcp_client :: "int \<Rightarrow> turn list \<Rightarrow> tcp_state \<Rightarrow> tcp_state run" where
  "tcp_client fd ts st =
     bind_run (request_handler_handle_connection ts (tc_server st)) (\<lambda>(rc, outs, sv).
       Ret (st\<lparr>tc_server := sv, tc_count := (if rc = 0 then tc_count st + 1 else tc_count st),
               tc_accepted := tc_accepted st @ [fd], tc_closed := tc_closed st @ [fd],
               tc_out := tc_out st @ [(fd, outs)]\<rparr>))"

fun tcp_loop :: "arrival list \<Rightarrow> tcp_state \<Rightarrow> tcp_state run" where
  \<comment> \<open>the accept loop until SIGINT, which ends the list\<close>
  "tcp_loop [] st = Ret st"
| "tcp_loop (Accept_Failed # as) st = tcp_loop as st"
| "tcp_loop (Client fd ts # as) st = bind_run (tcp_client fd ts st) (tcp_loop as)"

definition tcp_server_run :: "startup \<Rightarrow> arrival list \<Rightarrow> server \<Rightarrow> (int \<times> int list \<times> tcp_state) run" where
  \<comment> \<open>the result, the descriptors closed beside those of clients, and the state\<close>
  "tcp_server_run su as sv =
     (case plain_listener su of
        Inl closed \<Rightarrow> Ret (-1, closed, tcp_start sv)
      | Inr fd \<Rightarrow> bind_run (tcp_loop as (tcp_start sv)) (\<lambda>st. Ret (0, [fd], st)))"

subsection \<open>A process for every connection\<close>

definition seen_by :: "nat \<Rightarrow> store \<Rightarrow> store" where
  \<comment> \<open>the shared region as a process sees it whose \<open>g_user_bst\<close> has this root\<close>
  "seen_by r s = s\<lparr>us_tree := (us_tree s)\<lparr>bt_root := r\<rparr>\<rparr>"

definition with_region :: "server \<Rightarrow> store \<Rightarrow> server" where
  \<comment> \<open>the globals \<open>sv\<close> of a process over the region \<open>s\<close>, reached through the root that it has\<close>
  "with_region sv s = sv\<lparr>sv_store := seen_by (bt_root (us_tree (sv_store sv))) s\<rparr>"

definition connection_turn :: "turn \<Rightarrow> nat \<Rightarrow> server \<Rightarrow> (int option \<times> string list \<times> server) run" where
  \<comment> \<open>one round of the loop of \<open>request_handler_handle_connection\<close>: its result if it ends here\<close>
  "connection_turn t n sv =
     (if MAX_KEEP_ALIVE_REQUESTS \<le> n then Ret (Some (finish n), [], sv)
      else case tu_recv t of
        Recv_Failed \<Rightarrow> Ret (Some (-1), [], sv)
      | Closed \<Rightarrow> Ret (Some (finish n), [], sv)
      | Idle_Timeout \<Rightarrow> Ret (Some (finish n), [], sv)
      | Data raw \<Rightarrow>
          (case read_request (take 8191 raw) of
             None \<Rightarrow> Ret (Some (-1), [response_malformed], sv)
           | Some (req, raw) \<Rightarrow>
               bind_run (answer (tu_env t) req (route_host raw sv)) (\<lambda>(out, sv).
                 let (ok, sent) = send_all out (tu_sent t)
                 in Ret (if ok then None else Some (-1), [sent], sv))))"

datatype child =
  Serving int nat server "string list"  \<comment> \<open>descriptor, requests so far, globals of the process, what was sent\<close>
| Exited

record fork_state =
  fk_server :: server                  \<comment> \<open>the globals of the parent; the region as the parent sees it\<close>
  fk_kids :: "nat \<Rightarrow> child option"
  fk_served :: nat
  fk_accepted :: "int list"
  fk_closed :: "int list"              \<comment> \<open>by the parent\<close>
  fk_finished :: "int list"            \<comment> \<open>closed by children\<close>
  fk_out :: "(int \<times> string list) list"
  fk_leaving :: bool

definition fork_start :: "server \<Rightarrow> fork_state" where
  "fork_start sv = \<lparr>fk_server = sv, fk_kids = (\<lambda>_. None), fk_served = 0, fk_accepted = [], fk_closed = [],
     fk_finished = [], fk_out = [], fk_leaving = False\<rparr>"

definition fork_client :: "nat option \<Rightarrow> int \<Rightarrow> fork_state \<Rightarrow> fork_state" where
  \<comment> \<open>a connection is accepted and handed to a child, or closed when \<open>fork\<close> fails\<close>
  "fork_client pid fd st =
     (let st = st\<lparr>fk_accepted := fk_accepted st @ [fd], fk_closed := fk_closed st @ [fd]\<rparr>
      in case pid of
           None \<Rightarrow> st
         | Some p \<Rightarrow> st\<lparr>fk_kids := (fk_kids st)(p \<mapsto> Serving fd 0 (fk_server st) []), fk_served := fk_served st + 1\<rparr>)"

definition fork_turn :: "nat \<Rightarrow> int \<Rightarrow> nat \<Rightarrow> server \<Rightarrow> string list \<Rightarrow> turn \<Rightarrow> fork_state \<Rightarrow> fork_state run" where
  \<comment> \<open>the child goes once round the loop over its connection, or leaves it, closes the connection and exits\<close>
  "fork_turn pid fd n sv outs t st =
     bind_run (connection_turn t n (with_region sv (sv_store (fk_server st)))) (\<lambda>(rc, out, sv).
       let st = st\<lparr>fk_server := with_region (fk_server st) (sv_store sv)\<rparr>
       in Ret (case rc of
            None \<Rightarrow> st\<lparr>fk_kids := (fk_kids st)(pid \<mapsto> Serving fd (n + 1) sv (outs @ out))\<rparr>
          | Some rc \<Rightarrow> st\<lparr>fk_kids := (fk_kids st)(pid \<mapsto> Exited), fk_finished := fk_finished st @ [fd],
                           fk_out := fk_out st @ [(fd, outs @ out)]\<rparr>))"

inductive fork_step :: "fork_state \<Rightarrow> fork_state \<Rightarrow> bool" where
  accepted: "\<not> fk_leaving st \<Longrightarrow> (\<And>p. pid = Some p \<Longrightarrow> fk_kids st p = None)
    \<Longrightarrow> fork_step st (fork_client pid fd st)"
| handled: "fk_kids st pid = Some (Serving fd n sv outs) \<Longrightarrow> fork_turn pid fd n sv outs t st = Ret st'
    \<Longrightarrow> fork_step st st'"
| reaped: "fk_kids st pid = Some Exited \<Longrightarrow> fork_step st (st\<lparr>fk_kids := (fk_kids st)(pid := None)\<rparr>)"
| leave: "\<not> fk_leaving st \<Longrightarrow> fork_step st (st\<lparr>fk_leaving := True\<rparr>)"

inductive tcp_fork_server_run :: "startup \<Rightarrow> server \<Rightarrow> int \<times> int list \<Rightarrow> fork_state \<Rightarrow> bool" where
  \<comment> \<open>children may still be running when it returns\<close>
  refused: "checked_listener su = Inl closed \<Longrightarrow> tcp_fork_server_run su sv (-1, closed) (fork_start sv)"
| served: "checked_listener su = Inr fd \<Longrightarrow> fork_step\<^sup>*\<^sup>* (fork_start sv) st \<Longrightarrow> fk_leaving st
    \<Longrightarrow> tcp_fork_server_run su sv (0, [fd]) st"

subsection \<open>A thread for every connection\<close>

record thread_state =
  td_threads :: "nat \<Rightarrow> int option"    \<comment> \<open>the thread of this number and its connection\<close>
  td_served :: nat
  td_accepted :: "int list"
  td_closed :: "int list"
  td_returned :: bool

definition thread_start :: thread_state where
  "thread_start = \<lparr>td_threads = (\<lambda>_. None), td_served = 0, td_accepted = [], td_closed = [], td_returned = False\<rparr>"

definition thread_client :: "bool \<Rightarrow> int \<Rightarrow> thread_state \<Rightarrow> thread_state" where
  \<comment> \<open>the flag says whether \<open>malloc\<close> and \<open>pthread_create\<close> succeed\<close>
  "thread_client ok fd st =
     (let st = st\<lparr>td_accepted := td_accepted st @ [fd]\<rparr>
      in if \<not> ok then st\<lparr>td_closed := td_closed st @ [fd]\<rparr>
         else st\<lparr>td_threads := (td_threads st)(td_served st + 1 \<mapsto> fd), td_served := td_served st + 1\<rparr>)"

definition worker_thread :: "nat \<Rightarrow> int \<Rightarrow> thread_state \<Rightarrow> thread_state" where
  \<comment> \<open>the thread has handled its connection, closes it and ends\<close>
  "worker_thread n fd st = st\<lparr>td_threads := (td_threads st)(n := None), td_closed := td_closed st @ [fd]\<rparr>"

inductive thread_step :: "thread_state \<Rightarrow> thread_state \<Rightarrow> bool" where
  accepted: "\<not> td_returned st \<Longrightarrow> (\<And>n. td_threads st n \<noteq> Some fd) \<Longrightarrow> thread_step st (thread_client ok fd st)"
| ended: "td_threads st n = Some fd \<Longrightarrow> thread_step st (worker_thread n fd st)"
| return: "\<not> td_returned st \<Longrightarrow> thread_step st (st\<lparr>td_returned := True\<rparr>)"

inductive tcp_thread_server_run :: "startup \<Rightarrow> int \<times> int list \<Rightarrow> thread_state \<Rightarrow> bool" where
  \<comment> \<open>threads may still be running when it returns\<close>
  refused: "checked_listener su = Inl closed \<Longrightarrow> tcp_thread_server_run su (-1, closed) thread_start"
| served: "checked_listener su = Inr fd \<Longrightarrow> thread_step\<^sup>*\<^sup>* thread_start st \<Longrightarrow> td_returned st
    \<Longrightarrow> tcp_thread_server_run su (0, [fd]) st"

subsection \<open>The thread pool\<close>

definition CORE_POOL_SIZE :: nat where "CORE_POOL_SIZE = 2"
definition MAX_POOL_SIZE :: nat where "MAX_POOL_SIZE = 8"
definition QUEUE_CAPACITY :: nat where "QUEUE_CAPACITY = 128"

datatype server_phase =
  Accepting
| Adding int          \<comment> \<open>in \<open>thread_pool_add_task\<close> with this connection\<close>
| Draining            \<comment> \<open>after \<open>thread_pool_shutdown\<close>, joining the workers\<close>
| Returned int int    \<comment> \<open>connections processed and errors, as reported\<close>

record pool_server =
  ps_pool :: sys
  ps_phase :: server_phase
  ps_served :: nat
  ps_accepted :: "int list"
  ps_closed :: "int list"     \<comment> \<open>by the accepting thread\<close>

definition pool_start :: "sys \<Rightarrow> pool_server" where
  "pool_start s = \<lparr>ps_pool = s, ps_phase = Accepting, ps_served = 0, ps_accepted = [], ps_closed = []\<rparr>"

definition spawned :: "sys \<Rightarrow> bool" where
  \<comment> \<open>the accepting thread, which is the one that spawns workers, is done with it\<close>
  "spawned s \<longleftrightarrow> sy_want s = 0 \<and> (\<forall>i < MAX_POOL_WORKERS. \<forall>c. sy_phase s i \<noteq> Claimed c)"

definition pool_internal :: "sys \<Rightarrow> sys \<Rightarrow> bool" where
  \<comment> \<open>the steps of the pool that neither add a task nor shut it down\<close>
  "pool_internal s s' \<longleftrightarrow> pool_step s s' \<and> sy_accepted s' = sy_accepted s
     \<and> tp_shutdown (sy_pool s') = tp_shutdown (sy_pool s)"

inductive pool_server_step :: "pool_server \<Rightarrow> pool_server \<Rightarrow> bool" where
  accepted: "ps_phase st = Accepting \<Longrightarrow> spawned (ps_pool st)
    \<Longrightarrow> pool_server_step st (st\<lparr>ps_phase := Adding fd, ps_accepted := ps_accepted st @ [fd]\<rparr>)"
| added: "ps_phase st = Adding fd \<Longrightarrow> thread_pool_add_task fd (ps_pool st) = Some (0, s')
    \<Longrightarrow> pool_server_step st (st\<lparr>ps_phase := Accepting, ps_pool := s', ps_served := ps_served st + 1\<rparr>)"
| rejected: "ps_phase st = Adding fd \<Longrightarrow> thread_pool_add_task fd (ps_pool st) = Some (rc, s') \<Longrightarrow> rc \<noteq> 0
    \<Longrightarrow> pool_server_step st (st\<lparr>ps_phase := Draining, ps_pool := thread_pool_shutdown s',
           ps_closed := ps_closed st @ [fd]\<rparr>)"
| worker: "pool_internal (ps_pool st) s' \<Longrightarrow> (\<And>p e. ps_phase st \<noteq> Returned p e)
    \<Longrightarrow> pool_server_step st (st\<lparr>ps_pool := s'\<rparr>)"
| leave: "ps_phase st = Accepting \<Longrightarrow> spawned (ps_pool st)
    \<Longrightarrow> pool_server_step st (st\<lparr>ps_phase := Draining, ps_pool := thread_pool_shutdown (ps_pool st)\<rparr>)"
| joined: "ps_phase st = Draining \<Longrightarrow> thread_pool_destroy (ps_pool st) = ([], processed, errs)
    \<Longrightarrow> pool_server_step st (st\<lparr>ps_phase := Returned processed errs\<rparr>)"

inductive tcp_pool_server_run :: "startup \<Rightarrow> (nat \<Rightarrow> bool) \<Rightarrow> int \<times> int list \<Rightarrow> pool_server option \<Rightarrow> bool" where
  \<comment> \<open>\<open>ok\<close> says which core workers can be created\<close>
  refused: "checked_listener su = Inl closed \<Longrightarrow> tcp_pool_server_run su ok (-1, closed) None"
| no_pool: "checked_listener su = Inr fd
    \<Longrightarrow> thread_pool_create CORE_POOL_SIZE MAX_POOL_SIZE QUEUE_CAPACITY ok = None
    \<Longrightarrow> tcp_pool_server_run su ok (-1, [fd]) None"
| served: "checked_listener su = Inr fd
    \<Longrightarrow> thread_pool_create CORE_POOL_SIZE MAX_POOL_SIZE QUEUE_CAPACITY ok = Some s
    \<Longrightarrow> pool_server_step\<^sup>*\<^sup>* (pool_start s) st \<Longrightarrow> ps_phase st = Returned processed errs
    \<Longrightarrow> tcp_pool_server_run su ok (0, [fd]) (Some st)"

end
