(* ===== verification/Tcp_Fork_Correct.thy ===== *)
theory Tcp_Fork_Correct
  imports Tcp_Servers User_Store_Correct
begin

text \<open>
  What sharing only the region of the user store between processes means.  A process that still has
  an old root of the name index searches a part of the tree; in the fork server the parent never
  learns of a new root, so this holds for every connection.  The connections are otherwise isolated:
  each is answered by a copy of the globals the server was started with.
\<close>

subsection \<open>An index searched from an old root\<close>

fun root_addr :: "ctree \<Rightarrow> nat" where
  "root_addr Leaf = g_nil"
| "root_addr (Node l (a, c) r) = a"

lemma rep_subtree: "S \<in> subtrees T \<Longrightarrow> rep t q p T \<Longrightarrow> \<exists>q. rep t q (root_addr S) S"
proof (induction T arbitrary: q p rule: addrs.induct)
  case (2 l a c r)
  from 2(3) consider "S = Node l (a, c) r" | "S \<in> subtrees l" | "S \<in> subtrees r" by auto
  then show ?case
  proof cases
    case 1
    then show ?thesis using 2(4) by auto
  next
    case 2
    then show ?thesis using "2.IH"(1) "2.prems"(2) by auto
  next
    case 3
    then show ?thesis using "2.IH"(2) "2.prems"(2) by auto
  qed
qed auto

lemma addrs_subtree: "S \<in> subtrees T \<Longrightarrow> addrs S \<subseteq> addrs T"
  by (induction T rule: addrs.induct) auto

lemma index_users_simps:
  "index_users t Leaf = []"
  "index_users t (Node l (a, c) r) = index_users t l @ user_at t a # index_users t r"
  by (simp_all add: index_users_def)

lemma index_users_subtree: "S \<in> subtrees T \<Longrightarrow> \<exists>xs ys. index_users t T = xs @ index_users t S @ ys"
proof (induction T rule: addrs.induct)
  case (2 l a c r)
  from 2(3) consider "S = Node l (a, c) r" | "S \<in> subtrees l" | "S \<in> subtrees r" by auto
  then show ?case
  proof cases
    case 1
    then show ?thesis by (intro exI [of _ "[]"]) simp
  next
    case 2
    then obtain xs ys where "index_users t l = xs @ index_users t S @ ys" using "2.IH"(1) by blast
    then show ?thesis by (intro exI [of _ xs] exI [of _ "ys @ user_at t a # index_users t r"]) (simp add: index_users_simps)
  next
    case 3
    then obtain xs ys where "index_users t r = xs @ index_users t S @ ys" using "2.IH"(2) by blast
    then show ?thesis by (intro exI [of _ "index_users t l @ user_at t a # xs"] exI [of _ ys]) (simp add: index_users_simps)
  qed
qed (auto simp: index_users_simps)

lemma index_users_root [simp]: "index_users (t\<lparr>bt_root := r\<rparr>) S = index_users t S"
  by (simp add: index_users_def user_at_def [abs_def])

lemma seen_by_fields [simp]:
  "us_list (seen_by r s) = us_list s" "first_node (seen_by r s) = first_node s"
  "name_of (seen_by r s) = name_of s" "bt_root (us_tree (seen_by r s)) = r" "seen_by r (seen_by q s) = seen_by r s"
  by (simp_all add: seen_by_def first_node_def name_of_def fun_eq_iff)

lemma find_seen_by: "user_store_find (seen_by r s) name = user_store_find s name"
  by (simp add: user_store_find_def)

lemma stale_search:
  assumes "store_inv s us T" and "S \<in> subtrees T" and "root_addr S = r"
  shows "\<exists>res. user_store_find_index (seen_by r s) name = Some res
    \<and> (res = None \<longleftrightarrow> name \<notin> name_of s ` set (index_users (us_tree s) S))"
proof -
  have inv: "index_inv (name_of s) (us_tree s) T" using assms(1) by (simp add: store_inv_def store_core_def)
  then have rep: "rep (us_tree s) g_nil (bt_root (us_tree s)) T"
    and users: "\<forall>a \<in> addrs T. bn_user (bt_node (us_tree s) a) \<noteq> None"
    and sorted: "sorted (map (name_of s) (index_users (us_tree s) T))"
    by (auto simp: index_inv_def holds_def at_hole_def)
  obtain q where q: "rep (us_tree s) q r S" using rep_subtree [OF assms(2) rep] assms(3) by auto
  have "\<forall>a \<in> addrs S. bn_user (bt_node (us_tree s) a) \<noteq> None" using users addrs_subtree [OF assms(2)] by auto
  moreover have "sorted (map (name_of s) (index_users (us_tree s) S))"
    using sorted index_users_subtree [OF assms(2), of "us_tree s"] by (auto simp: sorted_append)
  ultimately obtain res n where "find_loop (name_of s) ((us_tree s)\<lparr>bt_root := r\<rparr>) name r 0 = Some (res, n)"
      "case res of None \<Rightarrow> name \<notin> name_of s ` set (index_users (us_tree s) S)
       | Some u \<Rightarrow> u \<in> set (index_users (us_tree s) S) \<and> name_of s u = name"
    using find_loop_correct [of "(us_tree s)\<lparr>bt_root := r\<rparr>" q r S "name_of s" name 0, unfolded index_users_root] q by auto
  then show ?thesis
    by (auto simp: user_store_find_index_def bst_find_def seen_by_def name_of_def [abs_def] split: option.splits)
qed

subsection \<open>The fork server\<close>

text \<open>The rounds of a child are those of the connection loop.\<close>

lemma connection_loop_turn:
  "connection_loop (t # ts) n sv =
     bind_run (connection_turn t n sv) (\<lambda>(rc, out, sv).
       case rc of Some rc \<Rightarrow> Ret (rc, out, sv)
       | None \<Rightarrow> bind_run (connection_loop ts (n + 1) sv) (\<lambda>(rc, outs, sv). Ret (rc, out @ outs, sv)))"
proof (cases "tu_recv t")
  case (Data raw)
  show ?thesis
  proof (cases "read_request (take 8191 raw)")
    case (Some r)
    obtain req raw' where r: "r = (req, raw')" by (cases r)
    show ?thesis
    proof (cases "answer (tu_env t) req (route_host raw' sv)")
      case (Ret x)
      obtain out sv1 where "x = (out, sv1)" by (cases x)
      moreover obtain ok sent where "send_all out (tu_sent t) = (ok, sent)" by force
      ultimately show ?thesis using Data Some r Ret by (cases ok) (simp_all add: connection_turn_def)
    qed (simp add: connection_turn_def Data Some r)
  qed (simp add: connection_turn_def Data)
qed (simp_all add: connection_turn_def)

lemma with_region_simps [simp]:
  "with_region (with_region sv s) s' = with_region sv s'" "with_region sv (sv_store sv) = sv"
  "bt_root (us_tree (sv_store (with_region sv s))) = bt_root (us_tree (sv_store sv))"
  "sv_store (with_region sv s) = seen_by (bt_root (us_tree (sv_store sv))) s"
  "us_root (sv_store (with_region sv s)) = us_root s"
  by (simp_all add: with_region_def) (simp_all add: seen_by_def)

inductive child_run :: "server \<Rightarrow> nat \<Rightarrow> server \<Rightarrow> string list \<Rightarrow> bool" for sv0 where
  \<comment> \<open>rounds of one child: its globals are its own, while the region may change between them\<close>
  start: "child_run sv0 0 sv0 []"
| turn: "child_run sv0 n sv outs \<Longrightarrow> connection_turn t n (with_region sv s) = Ret (None, out, sv')
    \<Longrightarrow> child_run sv0 (n + 1) sv' (outs @ out)"

definition child_sends :: "server \<Rightarrow> string list \<Rightarrow> bool" where
  \<comment> \<open>rounds of a child that started with the globals \<open>sv\<close> send this until it exits\<close>
  "child_sends sv outs \<longleftrightarrow> (\<exists>s0 n sv1 outs1 t s rc out sv2. child_run (with_region sv s0) n sv1 outs1
     \<and> connection_turn t n (with_region sv1 s) = Ret (Some rc, out, sv2) \<and> outs = outs1 @ out)"

definition fork_inv :: "server \<Rightarrow> fork_state \<Rightarrow> bool" where
  "fork_inv sv st \<longleftrightarrow> (\<exists>s. fk_server st = with_region sv s)
     \<and> fk_closed st = fk_accepted st \<and> map fst (fk_out st) = fk_finished st
     \<and> (\<forall>pid fd n sv1 outs. fk_kids st pid = Some (Serving fd n sv1 outs) \<longrightarrow>
          (\<exists>s0. child_run (with_region sv s0) n sv1 outs))
     \<and> (\<forall>(fd, outs) \<in> set (fk_out st). child_sends sv outs)"

lemma fork_inv_start: "fork_inv sv (fork_start sv)"
  using with_region_simps(2) [of sv] by (auto simp: fork_inv_def fork_start_def intro: exI [of _ "sv_store sv"])

lemma fork_inv_step: "fork_step st st' \<Longrightarrow> fork_inv sv st \<Longrightarrow> fork_inv sv st'"
proof (induction rule: fork_step.induct)
  case (accepted st pid fd)
  obtain s where s: "fk_server st = with_region sv s" using accepted(3) by (auto simp: fork_inv_def)
  have "child_run (with_region sv s) 0 (with_region sv s) []" by (rule child_run.start)
  then show ?case using accepted(3) s
    by (auto simp: fork_inv_def fork_client_def Let_def split: option.splits if_splits)
next
  case (handled st pid fd n sv1 outs t st')
  obtain s where s: "fk_server st = with_region sv s" using handled(3) by (auto simp: fork_inv_def)
  obtain s0 where run: "child_run (with_region sv s0) n sv1 outs"
    using handled(1,3) unfolding fork_inv_def by blast
  obtain rc out sv2 where t: "connection_turn t n (with_region sv1 (sv_store (fk_server st))) = Ret (rc, out, sv2)"
    using handled(2) unfolding fork_turn_def bind_run_Ret_iff by auto
  have sv': "fk_server st' = with_region sv (sv_store sv2)"
    using handled(2) t s by (auto simp: fork_turn_def Let_def split: option.splits)
  show ?case
  proof (cases rc)
    case None
    then have "child_run (with_region sv s0) (n + 1) sv2 (outs @ out)" using child_run.turn [OF run] t by simp
    then show ?thesis using handled(2,3) t None sv' by (auto simp: fork_turn_def fork_inv_def Let_def split: if_splits)
  next
    case (Some r)
    then have "child_sends sv (outs @ out)" using run t unfolding child_sends_def by blast
    then show ?thesis using handled(2,3) t Some sv' by (auto simp: fork_turn_def fork_inv_def Let_def split: if_splits)
  qed
qed (auto simp: fork_inv_def split: if_splits)

lemma fork_inv_reachable: "fork_step\<^sup>*\<^sup>* (fork_start sv) st \<Longrightarrow> fork_inv sv st"
  by (induction rule: rtranclp_induct) (auto intro: fork_inv_start fork_inv_step)

text \<open>
  The connections of the fork server are isolated from each other but for the region of the user
  store: whatever the order in which the requests of the children are handled, everything sent on a
  connection is what the rounds of the connection loop send when they start from the globals the server
  was started with (sessions, credentials, document root, configuration, root of the name index) and
  pass their own globals on, over some content of the region in each round; so what one connection does
  to them, such as logging in, no other connection sees.  The parent keeps its globals and no client
  descriptor.
\<close>

theorem fork_children_isolated:
  assumes "fork_step\<^sup>*\<^sup>* (fork_start sv) st"
  shows "(\<forall>(fd, outs) \<in> set (fk_out st). child_sends sv outs)
    \<and> (\<exists>s. fk_server st = with_region sv s) \<and> fk_closed st = fk_accepted st
    \<and> map fst (fk_out st) = fk_finished st"
  using fork_inv_reachable [OF assms] by (simp add: fork_inv_def)

text \<open>A client that connects and leaves.\<close>

definition hang_up :: turn where
  "hang_up = \<lparr>tu_recv = Closed, tu_env = \<lparr>ev_fs = (\<lambda>_. None), ev_date = [], ev_now = 0, ev_random = [], ev_pipe = None,
     ev_compare = (\<lambda>_ _. [])\<rparr>, tu_sent = []\<rparr>"

lemma fork_one_client: "\<exists>st. fork_step\<^sup>*\<^sup>* (fork_start sv) st \<and> fk_out st = [(fd, [])]"
proof -
  define st1 where "st1 = fork_client (Some 9) fd (fork_start sv)"
  have "fork_step (fork_start sv) st1"
    unfolding st1_def by (rule fork_step.accepted) (simp_all add: fork_start_def)
  moreover have kid: "fk_kids st1 9 = Some (Serving fd 0 sv [])" and sv: "fk_server st1 = sv" and out: "fk_out st1 = []"
    by (simp_all add: st1_def fork_client_def fork_start_def)
  obtain st2 where st2: "fork_turn 9 fd 0 sv [] hang_up st1 = Ret st2" "fk_out st2 = [(fd, [])]"
    by (simp add: fork_turn_def connection_turn_def hang_up_def sv out Let_def)
  have "fork_step st1 st2" by (rule fork_step.handled [OF kid st2(1)])
  ultimately show ?thesis using st2(2) by (intro exI [of _ st2]) (meson r_into_rtranclp rtranclp_trans)
qed

lemma fork_children_isolated_witness:
  "\<forall>sv. \<exists>st :: fork_state. fk_out st = [(7, [])] \<and> (\<exists>s. fk_server st = with_region sv s) \<and> fk_closed st = fk_accepted st"
proof
  fix sv
  obtain st where st: "fork_step\<^sup>*\<^sup>* (fork_start sv) st" "fk_out st = [(7, [])]" using fork_one_client by blast
  show "\<exists>st :: fork_state. fk_out st = [(7, [])] \<and> (\<exists>s. fk_server st = with_region sv s) \<and> fk_closed st = fk_accepted st"
    using fork_children_isolated [OF st(1)] st(2) by (intro exI [of _ st]) simp
qed

subsection \<open>The name index in the fork server\<close>

text \<open>
  C22: in the fork server every connection starts with the root of the name index that the server had when
  it was started.  As soon as the region has another root, set by a child that added a user, the index no
  longer finds the users outside of the subtree below the old root, while the list search finds every
  account; with an empty store at the start it finds no user that is ever added.
\<close>

theorem fork_index_stale:
  assumes "fork_step\<^sup>*\<^sup>* (fork_start sv) st"
    and "store_inv (seen_by (us_root (sv_store (fk_server st))) (sv_store (fk_server st))) us T"
    and "S \<in> subtrees T" and "root_addr S = bt_root (us_tree (sv_store sv))"
  shows "\<exists>r r'. user_store_find (sv_store (fk_server st)) name = Some r
    \<and> (r = None \<longleftrightarrow> name \<notin> el_name ` set (accounts (sv_store (fk_server st)) us))
    \<and> user_store_find_index (sv_store (fk_server st)) name = Some r'
    \<and> (r' = None \<longleftrightarrow> name \<notin> name_of (sv_store (fk_server st)) ` set (index_users (us_tree (sv_store (fk_server st))) S))"
proof -
  obtain s where s: "fk_server st = with_region sv s" using fork_inv_reachable [OF assms(1)] by (auto simp: fork_inv_def)
  let ?r = "bt_root (us_tree (sv_store sv))" and ?v = "sv_store (fk_server st)"
  let ?t = "seen_by (us_root ?v) ?v"
  have v: "?v = seen_by ?r ?t" by (simp add: s)
  obtain r where "user_store_find ?t name = Some r" "r = None \<longleftrightarrow> name \<notin> el_name ` set (accounts ?t us)"
    using find_agrees [OF assms(2), of name] by blast
  then have list: "user_store_find ?v name = Some r" "r = None \<longleftrightarrow> name \<notin> el_name ` set (accounts ?v us)"
    using find_seen_by by (auto simp: accounts_def)
  obtain r' where "user_store_find_index (seen_by ?r ?t) name = Some r'"
      "r' = None \<longleftrightarrow> name \<notin> name_of ?t ` set (index_users (us_tree ?t) S)"
    using stale_search [OF assms(2-4), of name] by blast
  moreover have "index_users (us_tree ?t) S = index_users (us_tree ?v) S" by (simp add: seen_by_def)
  ultimately show ?thesis using list v by auto
qed

text \<open>The store was empty at the start; ann has been added to the region since.\<close>

lemma fork_index_stale_witness:
  "\<exists>sv :: server. bt_root (us_tree (sv_store sv)) = g_nil
    \<and> (\<exists>r. user_store_find (sv_store sv) ''ann'' = Some (Some r))
    \<and> user_store_find_index (sv_store sv) ''ann'' = Some None"
proof -
  obtain s us T where s: "store_inv s us T" "accounts s us = [ann]"
    using add_correct [OF store_inv_init, of "''ann,pw,1990''" blank_region] add_ann
    by (auto simp: init_free pool_nodes_def)
  define sv :: server where "sv = undefined\<lparr>sv_store := seen_by g_nil s\<rparr>"
  have "seen_by (us_root (sv_store (fk_server (fork_start sv)))) (sv_store (fk_server (fork_start sv))) = s"
    using s(1) by (simp add: fork_start_def sv_def store_inv_def seen_by_def)
  then have inv: "store_inv (seen_by (us_root (sv_store (fk_server (fork_start sv)))) (sv_store (fk_server (fork_start sv)))) us T"
    using s(1) by simp
  have "Leaf \<in> subtrees T" by (induction T) auto
  from fork_index_stale [OF rtranclp.rtrancl_refl inv this, of "''ann''"] s(2)
  show ?thesis by (intro exI [of _ sv]) (auto simp: fork_start_def sv_def index_users_simps accounts_def ann_def)
qed

end
