(* ===== verification/Epoll_Programs.thy ===== *)
theory Epoll_Programs
  imports Epoll_Server Main_Program
begin

text \<open>
  The two small programs around the epoll server: \<open>src/epoll_server_main.c\<close>, which starts it without
  the command line of \<open>mini_web_server\<close>, and the test client \<open>src/epoll_client.c\<close>.  Messages on stderr
  are left out.
\<close>

subsection \<open>The server program\<close>

definition minimal_config :: "string \<Rightarrow> int \<Rightarrow> server_config" where
  "minimal_config host port = zero_config\<lparr>cf_host := copy_text 64 host, cf_port := port, cf_route_table := None,
     cf_servers := [\<lparr>sb_host = copy_text 64 host, sb_port = port, sb_root = ''www'', sb_access_log = [],
                     sb_names = [], sb_default = True\<rparr>]\<rparr>"

definition epoll_server_main ::
    "main_env \<Rightarrow> store \<Rightarrow> (server_config \<Rightarrow> server_config option) \<Rightarrow> string list \<Rightarrow> int parsed" where
  \<comment> \<open>\<open>later\<close>: what the memory of \<open>minimal_cfg\<close> holds while the server runs; its block has ended then\<close>
  "epoll_server_main me region later argv =
     (if length argv \<noteq> 3 then Parsed 1
      else let port = atoi (argv ! 2)
           in if \<not> valid_port port then Parsed 1
              else if \<not> me_log_ok me then Parsed 1
              else bind_parsed (of_search (cli_load (me_files me users_csv) (initial_cli region))) (\<lambda>st.
                let mode = Epoll_Mode (argv ! 1) port;
                    cfg = minimal_config (argv ! 1) port;
                    sv = epoll_server_set_config (Some cfg) (mode_server mode None (cl_store st))
                in Parsed (me_serve me mode (sv\<lparr>sv_config := later cfg\<rparr>))))"

subsection \<open>The client\<close>

record client_calls =
  \<comment> \<open>what the system calls return; for each round of the loop the result of \<open>send\<close> and of \<open>recv\<close>\<close>
  cc_socket :: int
  cc_address :: bool
  cc_connect :: bool
  cc_rounds :: "(int \<times> received) list"

definition client_message :: "string \<Rightarrow> string" where
  "client_message line = snprintf_to 4096 (line @ crlf)"

definition show_response :: "string \<Rightarrow> string" where
  "show_response d = ''response: '' @ cstr (take 4095 d) @ [LF]"

function client_loop :: "string \<Rightarrow> (int \<times> received) list \<Rightarrow> string \<times> string list" where
  \<comment> \<open>what is printed and the messages given to \<open>send\<close>; it waits when the calls are used up\<close>
  "client_loop input rounds =
     (case fgets 4096 input of
        None \<Rightarrow> (''> '' @ [LF], [])
      | Some (line, rest) \<Rightarrow>
          let line = trim_newlines (cstr line)
          in if strcmp line ''quit'' = 0 then (''> '' @ unlines [''Exiting...''], [])
             else case rounds of
                 [] \<Rightarrow> (''> '', [])
               | (sent, r) # rounds \<Rightarrow>
                   if sent < 0 then (''> '', [client_message line])
                   else case r of
                       Data d \<Rightarrow>
                         (let (out, msgs) = client_loop rest rounds
                          in (''> '' @ show_response d @ out, client_message line # msgs))
                     | Closed \<Rightarrow> (''> '' @ unlines [''[server closed connection]''], [client_message line])
                     | _ \<Rightarrow> (''> '', [client_message line]))"
  by auto
termination
  by (relation "measure (\<lambda>(input, _). length input)") (auto dest: fgets_shorter)

declare client_loop.simps [simp del]

definition epoll_client_main :: "client_calls \<Rightarrow> string list \<Rightarrow> string \<Rightarrow> int \<times> string \<times> string list" where
  "epoll_client_main cc argv input =
     (if length argv \<noteq> 3 then (1, [], [])
      else let host = argv ! 1; port = atoi (argv ! 2); at = host @ '':'' @ dec_int port
           in if \<not> valid_port port then (1, [], [])
              else if cc_socket cc < 0 \<or> \<not> cc_address cc then (1, [], [])
              else let greeting = unlines [''Connecting to '' @ at @ '' ...'']
                   in if \<not> cc_connect cc then (1, greeting, [])
                      else let (out, msgs) = client_loop input (cc_rounds cc)
                           in (0, greeting
                                  @ unlines [''Connected to EpollServer at '' @ at,
                                             ''Type messages to send (type '' @ quoted ''quit'' @ '' to exit):'']
                                  @ out @ unlines [''Disconnected.''], msgs))"

subsection \<open>A line and its echo\<close>

lemma fgets_typed:
  assumes "LF \<notin> set l" and "length l + 1 < n"
  shows "fgets n (l @ LF # rest) = Some (l @ [LF], rest)"
proof (cases l)
  case Nil
  then show ?thesis using assms by (simp add: fgets.simps cut_at_def)
next
  case (Cons c s)
  then have "cut_at LF (c # s @ LF # rest) = c # s" using cut_at_append [OF assms(1), of rest] by simp
  then show ?thesis using assms Cons by (simp add: fgets.simps)
qed

lemma first_line_message:
  assumes "NUL \<notin> set l" and "CR \<notin> set l" and "LF \<notin> set l" and "length l \<le> 511"
  shows "first_line_of (l @ crlf) = l" and "client_message l = l @ crlf"
proof -
  have "cstr (l @ crlf) = l @ crlf" by (rule cstr_id) (use assms in auto)
  then have "first_line_of (l @ crlf) = cut_at LF (cut_at CR (take 511 (l @ crlf)))"
    by (simp add: first_line_of_def copy_text_def)
  also have "\<dots> = l"
  proof (cases "length l = 511")
    case True
    then show ?thesis using assms by (simp add: cut_at_id)
  next
    case False
    then have "take 511 (l @ crlf) = l @ CR # take (510 - length l) [LF]"
      using assms(4) by (simp add: take_Cons')
    then show ?thesis using assms by (simp add: cut_at_append cut_at_id)
  qed
  finally show "first_line_of (l @ crlf) = l" .
  show "client_message l = l @ crlf" using assms(4) by (simp add: client_message_def snprintf_to_def)
qed

text \<open>
  A line typed in the client that does not begin with the name of an HTTP method is echoed.  The
  message the client sends for it, arriving in one piece on a connection of the epoll server, makes
  the server send the line back and keep the connection open and its buffer empty for the next
  one; when that answer arrives in one piece, the client prints the line and goes on with the next.
\<close>

theorem client_line_echoed:
  assumes "NUL \<notin> set l" and "CR \<notin> set l" and "LF \<notin> set l" and "length l \<le> 511" and "l \<noteq> ''quit''"
    and "\<not> is_http l" and "i < length (ep_conns st)" and "cn_buf (ep_conns st ! i) = []"
    and "int (length l + 2) \<le> max_request (ep_config st)" and "int (length (raw_answer l)) \<le> ci_sent io"
    and "ci_recv io = Data (client_message l)" and "0 \<le> sent"
  shows "(\<exists>st'. epoll_client i io st = Ret st'
      \<and> ep_out st' = ep_out st @ [(cn_fd (ep_conns st ! i), raw_answer l)] \<and> ep_closed st' = ep_closed st
      \<and> cn_fd (ep_conns st' ! i) = cn_fd (ep_conns st ! i) \<and> cn_buf (ep_conns st' ! i) = [])
    \<and> (\<forall>out msgs. client_loop rest rounds = (out, msgs) \<longrightarrow>
        client_loop (l @ LF # rest) ((sent, Data (raw_answer l)) # rounds)
          = (''> response: '' @ raw_answer l @ [LF] @ out, client_message l # msgs))"
proof
  note msg = first_line_message [OF assms(1-4)]
  have raw: "take (RECV_BUF_SIZE - 1) (l @ crlf) = l @ crlf" "min (length l) 8191 = length l" "min 2 (8191 - length l) = 2"
    using assms(4) by simp_all
  have whole: "take (nat (ci_sent io)) (raw_answer l) = raw_answer l" using assms(10) by simp
  show "\<exists>st'. epoll_client i io st = Ret st'
      \<and> ep_out st' = ep_out st @ [(cn_fd (ep_conns st ! i), raw_answer l)] \<and> ep_closed st' = ep_closed st
      \<and> cn_fd (ep_conns st' ! i) = cn_fd (ep_conns st ! i) \<and> cn_buf (ep_conns st' ! i) = []"
    using assms(6-9,11) raw whole
    by (simp add: epoll_client_def epoll_data_def msg Let_def count_request_def keep_conn_def send_bytes_def
        set_conn_def)
  have line: "fgets 4096 (l @ LF # rest) = Some (l @ [LF], rest)" by (rule fgets_typed) (use assms(3,4) in auto)
  have strip: "trim_newlines (cstr (l @ [LF])) = l"
  proof -
    have "cstr (l @ [LF]) = l @ [LF]" by (rule cstr_id) (use assms(1) in auto)
    moreover have "rstrip is_crlf_char (l @ [LF]) = l"
      using assms(2,3) by (cases l rule: rev_cases) (auto simp: rstrip_def is_crlf_char_def)
    ultimately show ?thesis by (simp add: trim_newlines_def)
  qed
  have shown: "show_response (raw_answer l) = ''response: '' @ raw_answer l @ [LF]"
  proof -
    have "NUL \<notin> set (raw_answer l)" using assms(1) by (simp add: raw_answer_def)
    moreover have "take 4095 (raw_answer l) = raw_answer l" using assms(4) by (simp add: raw_answer_def)
    ultimately show ?thesis by (simp add: show_response_def cstr_id)
  qed
  show "\<forall>out msgs. client_loop rest rounds = (out, msgs) \<longrightarrow>
        client_loop (l @ LF # rest) ((sent, Data (raw_answer l)) # rounds)
          = (''> response: '' @ raw_answer l @ [LF] @ out, client_message l # msgs)"
    using assms(5,12) by (subst client_loop.simps) (simp add: line strip shown Let_def)
qed


text \<open>The line \<open>hi\<close> on the first connection of a server that has just started.\<close>

definition first_connection :: "server \<Rightarrow> epoll_state" where
  "first_connection sv = epoll_accept
     (Some \<lparr>ac_fd = 7, ac_ip = ''10.0.0.1'', ac_port = 5000, ac_now = 0, ac_added = True\<rparr>) (epoll_start None sv)"

lemma first_connection_eq:
  "ep_conns (first_connection sv) = \<lparr>cn_fd = 7, cn_buf = [], cn_count = 0, cn_last = 0, cn_ip = ''10.0.0.1'', cn_port = 5000\<rparr>
     # replicate 1023 free_conn"
  "ep_config (first_connection sv) = None" "ep_out (first_connection sv) = []" "ep_closed (first_connection sv) = []"
proof -
  have "replicate EPOLL_MAX_CONNS free_conn = free_conn # replicate 1023 free_conn"
    by (simp add: EPOLL_MAX_CONNS_def flip: replicate_Suc)
  then show "ep_conns (first_connection sv) = \<lparr>cn_fd = 7, cn_buf = [], cn_count = 0, cn_last = 0, cn_ip = ''10.0.0.1'',
      cn_port = 5000\<rparr> # replicate 1023 free_conn"
    "ep_config (first_connection sv) = None" "ep_out (first_connection sv) = []" "ep_closed (first_connection sv) = []"
    by (simp_all add: first_connection_def epoll_accept_def epoll_start_def set_conn_def conn_free_def free_conn_def)
qed

lemma client_line_echoed_witness:
  "\<forall>ev sv. (\<exists>st'. epoll_client 0 \<lparr>ci_recv = Data (client_message ''hi''), ci_env = ev, ci_sent = 100, ci_413 = []\<rparr>
            (first_connection sv) = Ret st' \<and> ep_out st' = [(7, raw_answer ''hi'')])
    \<and> client_loop (''hi'' @ [LF]) [(4, Data (raw_answer ''hi''))]
        = (''> response: '' @ raw_answer ''hi'' @ [LF] @ ''> '' @ [LF], [client_message ''hi''])"
proof (intro allI)
  fix ev sv
  have no_input: "client_loop [] [] = (''> '' @ [LF], [])" by (subst client_loop.simps) (simp add: fgets.simps)
  have raw: "\<not> is_http ''hi''" by code_simp
  have short: "length (raw_answer ''hi'') \<le> 100" by (simp add: raw_answer_def)
  let ?io = "\<lparr>ci_recv = Data (client_message ''hi''), ci_env = ev, ci_sent = 100, ci_413 = []\<rparr>"
  let ?st = "first_connection sv"
  have echo: "(\<exists>st'. epoll_client 0 ?io ?st = Ret st'
      \<and> ep_out st' = ep_out ?st @ [(cn_fd (ep_conns ?st ! 0), raw_answer ''hi'')] \<and> ep_closed st' = ep_closed ?st
      \<and> cn_fd (ep_conns st' ! 0) = cn_fd (ep_conns ?st ! 0) \<and> cn_buf (ep_conns st' ! 0) = [])
    \<and> (\<forall>out msgs. client_loop [] [] = (out, msgs) \<longrightarrow>
        client_loop (''hi'' @ LF # []) ((4, Data (raw_answer ''hi'')) # [])
          = (''> response: '' @ raw_answer ''hi'' @ [LF] @ out, client_message ''hi'' # msgs))"
    by (rule client_line_echoed) (simp_all add: first_connection_eq max_request_def raw short)
  show "(\<exists>st'. epoll_client 0 ?io ?st = Ret st' \<and> ep_out st' = [(7, raw_answer ''hi'')])
    \<and> client_loop (''hi'' @ [LF]) [(4, Data (raw_answer ''hi''))]
        = (''> response: '' @ raw_answer ''hi'' @ [LF] @ ''> '' @ [LF], [client_message ''hi''])"
  proof
    show "\<exists>st'. epoll_client 0 ?io ?st = Ret st' \<and> ep_out st' = [(7, raw_answer ''hi'')]"
      using conjunct1 [OF echo] by (auto simp: first_connection_eq)
    from conjunct2 [OF echo] no_input
    show "client_loop (''hi'' @ [LF]) [(4, Data (raw_answer ''hi''))]
        = (''> response: '' @ raw_answer ''hi'' @ [LF] @ ''> '' @ [LF], [client_message ''hi''])"
      by blast
  qed
qed

end
